(* ===== verification/Go_Prelude.thy ===== *)
theory Go_Prelude
  imports Main "HOL-Library.AList" "HOL-Library.Multiset"
begin

text \<open>
  Shared vocabulary of the development: Go maps, the loops that fill them, and the generic
  facts on association lists, grouping, counting and slicing that the component theories use.

  A Go map is an association list with distinct keys (\<open>gomap\<close>). One \<open>range\<close> loop over it
  visits the entries in list order. Go leaves that order unspecified, so a theorem about a
  function that ranges over one of its arguments is stated for every list, that is for every
  order; where the program sorts before it uses the keys, a lemma shows that the result does
  not depend on the order.  An absent key reads as the zero value of the element type.
\<close>

section \<open>Collections of facts\<close>

named_theorems gomap_simps \<open>look-up equations of the Go map operations\<close>
named_theorems group_simps \<open>look-up and shape equations of the grouping loops\<close>

section \<open>Go maps\<close>

type_synonym ('k, 'v) gomap = "('k \<times> 'v) list"

abbreviation wf_map :: "('k, 'v) gomap \<Rightarrow> bool" where
  "wf_map m \<equiv> distinct (map fst m)"

abbreviation keys :: "('k, 'v) gomap \<Rightarrow> 'k list" where
  "keys m \<equiv> map fst m"

definition has_key :: "('k, 'v) gomap \<Rightarrow> 'k \<Rightarrow> bool" where
  "has_key m k = (map_of m k \<noteq> None)"

definition get_or :: "'v \<Rightarrow> ('k, 'v) gomap \<Rightarrow> 'k \<Rightarrow> 'v" where
  "get_or d m k = (case map_of m k of None \<Rightarrow> d | Some v \<Rightarrow> v)"

abbreviation get_str :: "('k, string) gomap \<Rightarrow> 'k \<Rightarrow> string" where
  "get_str \<equiv> get_or []"

abbreviation get_int :: "('k, int) gomap \<Rightarrow> 'k \<Rightarrow> int" where
  "get_int \<equiv> get_or 0"

abbreviation get_list :: "('k, 'a list) gomap \<Rightarrow> 'k \<Rightarrow> 'a list" where
  "get_list \<equiv> get_or []"

definition put :: "'k \<Rightarrow> 'v \<Rightarrow> ('k, 'v) gomap \<Rightarrow> ('k, 'v) gomap" where
  "put k v m = AList.update k v m"

definition del :: "'k \<Rightarrow> ('k, 'v) gomap \<Rightarrow> ('k, 'v) gomap" where
  "del k m = AList.delete k m"

text \<open>\<open>m[k] += n\<close> on a map of integers, and \<open>m[k] = append(m[k], x)\<close> on a map of slices.\<close>

definition bump :: "'k \<Rightarrow> int \<Rightarrow> ('k, int) gomap \<Rightarrow> ('k, int) gomap" where
  "bump k n m = put k (get_int m k + n) m"

definition push :: "'k \<Rightarrow> 'a \<Rightarrow> ('k, 'a list) gomap \<Rightarrow> ('k, 'a list) gomap" where
  "push k x m = put k (get_list m k @ [x]) m"

lemma map_of_put [gomap_simps, simp]: "map_of (put k v m) = (map_of m)(k \<mapsto> v)"
  by (simp add: put_def update_conv')

lemma map_of_del [gomap_simps, simp]: "map_of (del k m) = (map_of m)(k := None)"
  by (simp add: del_def delete_conv')

lemma get_or_put [gomap_simps, simp]: "get_or d (put k v m) j = (if j = k then v else get_or d m j)"
  by (simp add: get_or_def)

lemma get_or_Nil [gomap_simps, simp]: "get_or d [] k = d"
  by (simp add: get_or_def)

lemma get_or_bump [gomap_simps, simp]:
  "get_int (bump k n m) j = (if j = k then get_int m k + n else get_int m j)"
  by (simp add: bump_def)

lemma get_or_push [gomap_simps, simp]:
  "get_list (push k x m) j = (if j = k then get_list m k @ [x] else get_list m j)"
  by (simp add: push_def)

lemma wf_map_put [simp, intro]: "wf_map m \<Longrightarrow> wf_map (put k v m)"
  by (simp add: put_def distinct_update)

lemma wf_map_del [simp, intro]: "wf_map m \<Longrightarrow> wf_map (del k m)"
  by (simp add: del_def distinct_delete)

lemma wf_map_bump [simp, intro]: "wf_map m \<Longrightarrow> wf_map (bump k n m)"
  by (simp add: bump_def)

lemma wf_map_push [simp, intro]: "wf_map m \<Longrightarrow> wf_map (push k x m)"
  by (simp add: push_def)

lemma set_keys_put [simp]: "set (keys (put k v m)) = insert k (set (keys m))"
  by (simp add: put_def dom_update)

lemma set_keys_put_fst [simp]: "fst ` set (put k v m) = insert k (fst ` set m)"
  by (simp add: put_def dom_update)

lemma set_keys_bump [simp]: "fst ` set (bump k n m) = insert k (fst ` set m)"
  by (simp add: bump_def)

lemma set_keys_push [simp]: "fst ` set (push k x m) = insert k (fst ` set m)"
  by (simp add: push_def)

lemma keys_put: "keys (put k v m) = (if k \<in> set (keys m) then keys m else keys m @ [k])"
  by (simp add: put_def update_keys)

lemma keys_del: "keys (del k m) = removeAll k (keys m)"
  by (simp add: del_def delete_keys)

lemma has_key_iff [simp]: "has_key m k \<longleftrightarrow> k \<in> fst ` set m"
  by (simp add: has_key_def map_of_eq_None_iff)

lemma put_Nil_iff [simp]: "put k v m \<noteq> []"
  by (simp add: put_def)

lemma map_of_in_keys: "map_of m k = Some v \<Longrightarrow> k \<in> fst ` set m"
  by (metis domI dom_map_of_conv_image_fst)

lemma wf_map_mem: "wf_map m \<Longrightarrow> (k, v) \<in> set m \<longleftrightarrow> map_of m k = Some v"
  by (auto dest: map_of_SomeD)

lemma get_or_mem: "wf_map m \<Longrightarrow> (k, v) \<in> set m \<Longrightarrow> get_or d m k = v"
  by (simp add: get_or_def)

lemma get_or_notin: "k \<notin> fst ` set m \<Longrightarrow> get_or d m k = d"
  by (simp add: get_or_def map_of_eq_None_iff [THEN iffD2])

lemma map_of_get_or: "map_of m k = (if k \<in> fst ` set m then Some (get_or d m k) else None)"
  by (auto simp: get_or_def map_of_eq_None_iff split: option.splits)

text \<open>Two orders of the same map: permuted entries give the same look-ups.\<close>

lemma map_of_perm: "wf_map m \<Longrightarrow> mset m = mset m' \<Longrightarrow> map_of m = map_of m'"
  by (metis map_of_inject_set mset_eq_setD mset_map mset_eq_imp_distinct_iff)

lemma get_or_perm: "wf_map m \<Longrightarrow> mset m = mset m' \<Longrightarrow> get_or d m = get_or d m'"
  by (rule ext) (simp add: get_or_def map_of_perm)

lemma wf_map_perm: "mset m = mset m' \<Longrightarrow> wf_map m = wf_map m'"
  by (metis mset_eq_imp_distinct_iff mset_map)

section \<open>Grouping and counting loops\<close>

text \<open>
  \<open>group_by\<close> is the loop \<open>for _, x := range xs { m[key(x)] = append(m[key(x)], x) }\<close>,
  \<open>count_by\<close> the loop \<open>for _, x := range xs { m[key(x)]++ }\<close>.
\<close>

definition group_by :: "('a \<Rightarrow> 'k) \<Rightarrow> 'a list \<Rightarrow> ('k, 'a list) gomap" where
  "group_by key xs = foldl (\<lambda>m x. push (key x) x m) [] xs"

definition count_by :: "('a \<Rightarrow> 'k) \<Rightarrow> 'a list \<Rightarrow> ('k, int) gomap" where
  "count_by key xs = foldl (\<lambda>m x. bump (key x) 1 m) [] xs"

lemma group_by_Nil [simp]: "group_by key [] = []"
  by (simp add: group_by_def)

lemma group_by_snoc [simp]: "group_by key (xs @ [x]) = push (key x) x (group_by key xs)"
  by (simp add: group_by_def)

lemma count_by_Nil [simp]: "count_by key [] = []"
  by (simp add: count_by_def)

lemma count_by_snoc [simp]: "count_by key (xs @ [x]) = bump (key x) 1 (count_by key xs)"
  by (simp add: count_by_def)

lemma wf_map_group_by [simp, intro]: "wf_map (group_by key xs)"
  by (induction xs rule: rev_induct) auto

lemma wf_map_count_by [simp, intro]: "wf_map (count_by key xs)"
  by (induction xs rule: rev_induct) auto

lemma keys_group_by [group_simps]: "fst ` set (group_by key xs) = key ` set xs"
  by (induction xs rule: rev_induct) auto

lemma keys_count_by [group_simps]: "fst ` set (count_by key xs) = key ` set xs"
  by (induction xs rule: rev_induct) auto

lemma get_group_by [group_simps]: "get_list (group_by key xs) k = filter (\<lambda>x. key x = k) xs"
  by (induction xs rule: rev_induct) auto

lemma get_count_by [group_simps]:
  "get_int (count_by key xs) k = int (length (filter (\<lambda>x. key x = k) xs))"
  by (induction xs rule: rev_induct) auto

lemma map_of_group_by [group_simps]:
  "map_of (group_by key xs) k =
     (if k \<in> key ` set xs then Some (filter (\<lambda>x. key x = k) xs) else None)"
  by (subst map_of_get_or [of _ _ "[]"]) (simp add: keys_group_by get_group_by)

lemma map_of_count_by [group_simps]:
  "map_of (count_by key xs) k =
     (if k \<in> key ` set xs then Some (int (length (filter (\<lambda>x. key x = k) xs))) else None)"
  by (subst map_of_get_or [of _ _ 0]) (simp add: keys_count_by get_count_by)

section \<open>The contract of a grouping loop\<close>

lemma mset_filter_keys:
  assumes "distinct ks"
  shows "mset (concat (map (\<lambda>k. filter (\<lambda>x. key x = k) xs) ks)) =
    mset (filter (\<lambda>x. key x \<in> set ks) xs)"
  using assms
proof (induction ks)
  case Nil
  then show ?case by simp
next
  case (Cons k ks)
  have "mset (filter (\<lambda>x. key x = k) xs) + mset (filter (\<lambda>x. key x \<in> set ks) xs) =
      mset (filter (\<lambda>x. key x \<in> set (k # ks)) xs)"
    using Cons.prems by (induction xs) auto
  with Cons show ?case by simp
qed

text \<open>
  Several components put devices into buckets by a key. What their clients rely on is one
  contract: the buckets are the fibres of the key function, none is empty, and together they
  hold every element exactly as often as the input does.
\<close>

locale bucketing =
  fixes key :: "'a \<Rightarrow> 'k" and group :: "'a list \<Rightarrow> ('k, 'a list) gomap"
  assumes group_wf: "wf_map (group xs)"
    and group_lookup: "map_of (group xs) k =
      (if k \<in> key ` set xs then Some (filter (\<lambda>x. key x = k) xs) else None)"
begin

lemma bucket_iff:
  "(k, ys) \<in> set (group xs) \<longleftrightarrow> k \<in> key ` set xs \<and> ys = filter (\<lambda>x. key x = k) xs"
  by (auto simp: wf_map_mem [OF group_wf] group_lookup)

lemma bucket_keys: "fst ` set (group xs) = key ` set xs"
proof -
  have "k \<in> fst ` set (group xs) \<longleftrightarrow> k \<in> key ` set xs" for k
    using group_lookup [of xs k] by (metis map_of_eq_None_iff option.distinct(1))
  then show ?thesis by blast
qed

lemma bucket_get: "get_list (group xs) k = filter (\<lambda>x. key x = k) xs"
proof (cases "k \<in> key ` set xs")
  case False
  then have "filter (\<lambda>x. key x = k) xs = []" by (auto simp: filter_empty_conv)
  with False show ?thesis by (simp add: get_or_def group_lookup)
qed (simp add: get_or_def group_lookup)

lemma bucket_nonempty: "(k, ys) \<in> set (group xs) \<Longrightarrow> ys \<noteq> []"
  by (auto simp: bucket_iff filter_empty_conv)

lemma bucket_homogeneous: "(k, ys) \<in> set (group xs) \<Longrightarrow> y \<in> set ys \<Longrightarrow> key y = k \<and> y \<in> set xs"
  by (auto simp: bucket_iff)

lemma bucket_unique:
  "(k, ys) \<in> set (group xs) \<Longrightarrow> (k', ys') \<in> set (group xs) \<Longrightarrow> y \<in> set ys \<Longrightarrow> y \<in> set ys' \<Longrightarrow>
    k = k' \<and> ys = ys'"
  by (auto simp: bucket_iff)

lemma bucket_cover: "x \<in> set xs \<Longrightarrow> \<exists>ys. (key x, ys) \<in> set (group xs) \<and> x \<in> set ys"
  by (auto simp: bucket_iff)

lemma buckets_along_keys:
  "map (get_list (group xs)) ks = map (\<lambda>k. filter (\<lambda>x. key x = k) xs) ks"
  by (simp add: bucket_get)

lemma buckets_mset_keys:
  assumes "distinct ks" and "key ` set xs \<subseteq> set ks"
  shows "mset (concat (map (get_list (group xs)) ks)) = mset xs"
proof -
  have "filter (\<lambda>x. key x \<in> set ks) xs = xs"
    using assms(2) by (auto simp: filter_id_conv)
  with assms(1) show ?thesis
    by (simp add: buckets_along_keys mset_filter_keys)
qed

lemma buckets_mset: "mset (concat (map snd (group xs))) = mset xs"
proof -
  have "map snd (group xs) = map (get_list (group xs)) (keys (group xs))"
    using group_wf [of xs] by (auto simp: get_or_mem)
  moreover have "mset (concat (map (get_list (group xs)) (keys (group xs)))) = mset xs"
    using group_wf [of xs] by (intro buckets_mset_keys) (simp_all add: bucket_keys)
  ultimately show ?thesis by (simp only:)
qed

lemma buckets_filter:
  "filter (\<lambda>x. P (key x)) (concat (map snd (group xs))) = concat (map snd (filter (\<lambda>(k, ys). P k) (group xs)))"
proof -
  have "filter (\<lambda>x. P (key x)) (concat (map snd g)) = concat (map snd (filter (\<lambda>(k, ys). P k) g))"
    if "set g \<subseteq> set (group xs)" for g
    using that
  proof (induction g)
    case (Cons e g)
    have "filter (\<lambda>x. P (key x)) (snd e) = (if P (fst e) then snd e else [])"
      using Cons.prems bucket_homogeneous [of "fst e" "snd e" xs]
      by (auto simp: filter_id_conv filter_empty_conv)
    with Cons show ?case by (simp add: case_prod_unfold)
  qed simp
  then show ?thesis by blast
qed

end

interpretation gb: bucketing key "group_by key" for key
  by unfold_locales (auto simp: map_of_group_by)

section \<open>Lists: bounds, sums, sorted keys\<close>

lemma sorted_list_perm_eq: "mset xs = mset ys \<Longrightarrow> sort xs = sort ys"
  by (metis mset_sort properties_for_sort sorted_sort)

lemma sort_keys_perm: "mset m = mset m' \<Longrightarrow> sort (keys m) = sort (keys m')"
  by (rule sorted_list_perm_eq) (metis mset_map)

lemma sort_set_cong:
  "distinct xs \<Longrightarrow> distinct ys \<Longrightarrow> set xs = set ys \<Longrightarrow> sort xs = sort ys"
  by (rule sorted_list_perm_eq) (simp add: set_eq_iff_mset_eq_distinct)

lemma foldl_append_concat: "foldl (\<lambda>acc x. acc @ f x) acc xs = acc @ concat (map f xs)"
  by (induction xs arbitrary: acc) auto

text \<open>
  The first element a \<open>range\<close> loop finds does not depend on the order when all candidates
  agree on what is read from it.
\<close>

lemma find_agree:
  assumes "set xs = set ys"
    and "\<And>x y. x \<in> set xs \<Longrightarrow> y \<in> set xs \<Longrightarrow> P x \<Longrightarrow> P y \<Longrightarrow> f x = f y"
  shows "map_option f (find P xs) = map_option f (find P ys)"
proof (cases "find P xs")
  case None
  then have "find P ys = None" using assms(1) by (simp add: find_None_iff)
  with None show ?thesis by simp
next
  case (Some x)
  then have x: "x \<in> set xs" "P x" by (auto simp: find_Some_iff)
  then obtain y where y: "find P ys = Some y"
    using assms(1) by (metis find_None_iff not_Some_eq)
  then have "y \<in> set xs" "P y" using assms(1) by (auto simp: find_Some_iff)
  with x have "f x = f y" by (intro assms(2))
  with y Some show ?thesis by simp
qed

text \<open>A Go slice expression \<open>xs[lo:hi]\<close> inside the slice's length.\<close>

definition slice :: "nat \<Rightarrow> nat \<Rightarrow> 'a list \<Rightarrow> 'a list option" where
  "slice lo hi xs = (if lo \<le> hi \<and> hi \<le> length xs then Some (take (hi - lo) (drop lo xs)) else None)"

lemma slice_Some_iff: "slice lo hi xs = Some ys \<longleftrightarrow>
    lo \<le> hi \<and> hi \<le> length xs \<and> ys = take (hi - lo) (drop lo xs)"
  by (auto simp: slice_def)

lemma slice_length: "slice lo hi xs = Some ys \<Longrightarrow> length ys = hi - lo"
  by (auto simp: slice_Some_iff)

section \<open>Integers, sets and loops\<close>

text \<open>Go's integer division truncates towards zero.\<close>

definition quot :: "int \<Rightarrow> int \<Rightarrow> int" where
  "quot a b = sgn a * sgn b * (\<bar>a\<bar> div \<bar>b\<bar>)"

lemma quot_nonneg: "0 \<le> a \<Longrightarrow> 0 < b \<Longrightarrow> quot a b = a div b"
  by (cases "a = 0") (simp_all add: quot_def)

lemma quot_neg: "a \<le> 0 \<Longrightarrow> 0 < b \<Longrightarrow> quot a b \<le> 0"
  by (cases "a = 0") (simp_all add: quot_def pos_imp_zdiv_nonneg_iff)

text \<open>A Go set \<open>map[K]bool\<close> filled by \<open>set[x] = true\<close> is the list of its keys.\<close>

definition set_add :: "'a \<Rightarrow> 'a list \<Rightarrow> 'a list" where
  "set_add x xs = (if x \<in> set xs then xs else xs @ [x])"

lemma set_add_set [simp]: "set (set_add x xs) = insert x (set xs)"
  by (auto simp: set_add_def)

lemma set_add_distinct [simp]: "distinct xs \<Longrightarrow> distinct (set_add x xs)"
  by (simp add: set_add_def)

text \<open>The loop that collects the values of an optional field into a set.\<close>

definition collect_set :: "('b \<Rightarrow> 'a option) \<Rightarrow> 'b list \<Rightarrow> 'a list" where
  "collect_set f xs = foldl (\<lambda>s x. case f x of Some v \<Rightarrow> set_add v s | None \<Rightarrow> s) [] xs"

lemma collect_set_snoc:
  "collect_set f (xs @ [x]) = (case f x of Some v \<Rightarrow> set_add v (collect_set f xs) | None \<Rightarrow> collect_set f xs)"
  by (simp add: collect_set_def split: option.splits)

lemma collect_set_set [simp]: "set (collect_set f xs) = {v. \<exists>x\<in>set xs. f x = Some v}"
proof (induction xs rule: rev_induct)
  case (snoc x xs)
  then show ?case by (auto simp: collect_set_snoc split: option.splits)
qed (simp add: collect_set_def)

lemma collect_set_distinct [simp]: "distinct (collect_set f xs)"
proof (induction xs rule: rev_induct)
  case (snoc x xs)
  then show ?case by (simp add: collect_set_snoc split: option.splits)
qed (simp add: collect_set_def)

lemma sort_collect_set:
  "sort (collect_set f xs) = sorted_list_of_set {v. \<exists>x\<in>set xs. f x = Some v}"
  by (metis collect_set_distinct collect_set_set distinct_remdups_id sorted_list_of_set_sort_remdups)

text \<open>The loop \<open>if _, exists := m[k]; !exists { m[k] = v }\<close> over the entries of another map.\<close>

definition put_new :: "'k \<Rightarrow> 'v \<Rightarrow> ('k, 'v) gomap \<Rightarrow> ('k, 'v) gomap" where
  "put_new k v m = (if has_key m k then m else put k v m)"

definition merge_new :: "('k, 'v) gomap \<Rightarrow> ('k, 'v) gomap \<Rightarrow> ('k, 'v) gomap" where
  "merge_new m entries = foldl (\<lambda>m e. put_new (fst e) (snd e) m) m entries"

lemma map_of_put_new: "map_of (put_new k v m) j =
    (if j = k \<and> map_of m k = None then Some v else map_of m j)"
  by (auto simp: put_new_def map_of_eq_None_iff)

lemma wf_map_put_new [simp]: "wf_map m \<Longrightarrow> wf_map (put_new k v m)"
  by (simp add: put_new_def)

lemma map_of_merge_new:
  "map_of (merge_new m es) j = (case map_of m j of Some v \<Rightarrow> Some v | None \<Rightarrow> map_of es j)"
  by (induction es arbitrary: m) (auto simp: merge_new_def map_of_put_new split: option.splits)

lemma wf_map_merge_new [simp]: "wf_map m \<Longrightarrow> wf_map (merge_new m es)"
  by (induction es arbitrary: m) (auto simp: merge_new_def)

section \<open>The order of a range loop\<close>

text \<open>
  Go visits the entries of a map in an order that may change from loop to loop.  Where an operation
  ranges over a map it has built itself and the order can be seen in its result, the order is an
  argument: for a map of \<open>n\<close> entries it lists the positions that the loop visits.
\<close>

type_synonym range_order = "nat \<Rightarrow> nat list"

definition visit :: "range_order \<Rightarrow> 'a list \<Rightarrow> 'a list" where
  "visit order m = map ((!) m) (order (length m))"

definition range_ok :: "range_order \<Rightarrow> bool" where
  "range_ok order = (\<forall>n. mset (order n) = mset [0..<n])"

definition insertion_order :: range_order where
  "insertion_order n = [0..<n]"

lemma range_ok_insertion [simp]: "range_ok insertion_order"
  by (simp add: range_ok_def insertion_order_def)

lemma visit_insertion [simp]: "visit insertion_order m = m"
  by (simp add: visit_def insertion_order_def map_nth)

lemma mset_visit:
  assumes "range_ok order"
  shows "mset (visit order m) = mset m"
proof -
  have "mset (visit order m) = image_mset ((!) m) (mset [0..<length m])"
    using assms by (simp add: visit_def range_ok_def)
  also have "\<dots> = mset (map ((!) m) [0..<length m])" by simp
  finally show ?thesis by (simp add: map_nth)
qed

lemma set_visit: "range_ok order \<Longrightarrow> set (visit order m) = set m"
  by (metis mset_visit set_mset_mset)

lemma wf_map_mset:
  assumes "mset m' = mset m" and "wf_map m"
  shows "wf_map m' \<and> map_of m' = map_of m"
proof -
  have "mset (map fst m') = mset (map fst m)" using assms(1) by simp
  then have wf: "wf_map m'" using assms(2) mset_eq_imp_distinct_iff by blast
  have "set m' = set m" using assms(1) mset_eq_setD by blast
  with wf assms(2) show ?thesis using map_of_inject_set by blast
qed

lemma wf_map_visit:
  "range_ok order \<Longrightarrow> wf_map m \<Longrightarrow> wf_map (visit order m)"
  "range_ok order \<Longrightarrow> wf_map m \<Longrightarrow> map_of (visit order m) = map_of m"
  using wf_map_mset [OF mset_visit] by blast+

section \<open>Invariants of state machines\<close>

text \<open>
  The contract of an invariant of a step relation: the start states have it and every step keeps
  it.  Then every state on a run has it.
\<close>

locale step_invariant =
  fixes start :: "'s \<Rightarrow> bool"
    and step :: "'s \<Rightarrow> 's \<Rightarrow> bool"
    and inv :: "'s \<Rightarrow> bool"
  assumes at_start: "start s \<Longrightarrow> inv s"
    and kept: "step s s' \<Longrightarrow> inv s \<Longrightarrow> inv s'"
begin

lemma on_runs: "step\<^sup>*\<^sup>* s s' \<Longrightarrow> inv s \<Longrightarrow> inv s'"
  by (induction rule: rtranclp_induct) (auto intro: kept)

lemma always: "start s \<Longrightarrow> step\<^sup>*\<^sup>* s s' \<Longrightarrow> inv s'"
  using at_start on_runs by blast

end

end
