(* ===== verification/Kube_Api.thy ===== *)
theory Kube_Api
  imports Go_Strings
begin

text \<open>
  The Kubernetes API objects the program reads and writes, with the fields it uses
  (\<open>k8s.io/api\<close> types), and the contract shared by its two ConfigMap-backed stores.

  A \<open>Quantity\<close> is what the program observes of one: its \<open>Value()\<close> (an \<open>int64\<close>), its
  \<open>String()\<close> and its \<open>Format\<close>.  The library functions that make quantities,
  \<open>resource.ParseQuantity\<close> and \<open>resource.NewQuantity\<close>, are the two fields of
  \<open>quantity_lib\<close>, an argument of the definitions that call them.
\<close>

section \<open>Objects\<close>

record ConfigMap =
  cm_Namespace :: string
  cm_Name :: string
  cm_Labels :: "(string, string) gomap"
  cm_Data :: "(string, string) gomap"

datatype Format = DecimalExponent | BinarySI | DecimalSI

record Quantity =
  q_Value :: int
  q_String :: string
  q_Format :: Format

record quantity_lib =
  ParseQuantity :: "string \<Rightarrow> Quantity option"
  NewQuantity :: "int \<Rightarrow> Format \<Rightarrow> Quantity"

record DeviceAttribute =
  da_IntValue :: "int option"
  da_BoolValue :: "bool option"
  da_StringValue :: "string option"

record DeviceCounterConsumption =
  cc_CounterSet :: string
  cc_Counters :: "(string, Quantity) gomap"

record Device =
  dev_Name :: string
  dev_Attributes :: "(string, DeviceAttribute) gomap"
  dev_Capacity :: "(string, Quantity) gomap"
  dev_ConsumesCounters :: "DeviceCounterConsumption list"

record ResourceSlice =
  rs_Name :: string
  rs_Driver :: string
  rs_NodeName :: "string option"
  rs_PoolName :: string
  rs_Devices :: "Device list"

section \<open>ConfigMap-backed stores\<close>

text \<open>The key \<open>cm.Namespace + "/" + cm.Name\<close> of both stores.\<close>

definition cm_key :: "string \<Rightarrow> string \<Rightarrow> string" where
  "cm_key namespace name = namespace @ ''/'' @ name"

lemma cm_key_inj:
  assumes "CHR ''/'' \<notin> set ns" and "CHR ''/'' \<notin> set ns'" and "cm_key ns n = cm_key ns' n'"
  shows "ns = ns' \<and> n = n'"
proof -
  have "[ns, n] = [ns', n']"
    using assms SplitN2_slash [of ns n] SplitN2_slash [of ns' n'] by (simp add: cm_key_def)
  then show ?thesis by simp
qed

datatype store_event = Loaded (ev_cm: "ConfigMap option") | Removed (ev_ns: string) (ev_name: string)

type_synonym ('v, 'e) loader = "ConfigMap option \<Rightarrow> (string, 'v) gomap \<Rightarrow> 'e + (string, 'v) gomap"

type_synonym 'v remover = "string \<Rightarrow> string \<Rightarrow> (string, 'v) gomap \<Rightarrow> (string, 'v) gomap"

text \<open>One event applied to a store; a failed load keeps the old entry, as the handlers do.\<close>

fun store_step :: "('v, 'e) loader \<Rightarrow> 'v remover \<Rightarrow> store_event \<Rightarrow> (string, 'v) gomap \<Rightarrow> (string, 'v) gomap" where
  "store_step load remove (Loaded cm) s = (case load cm s of Inl _ \<Rightarrow> s | Inr s' \<Rightarrow> s')"
| "store_step load remove (Removed ns n) s = remove ns n s"

definition store_run :: "('v, 'e) loader \<Rightarrow> 'v remover \<Rightarrow> store_event list \<Rightarrow> (string, 'v) gomap" where
  "store_run load remove evs = fold (store_step load remove) evs []"

text \<open>The specification of a store: a partial function from keys to the last accepted value.\<close>

fun spec_step :: "(ConfigMap \<Rightarrow> 'v option) \<Rightarrow> store_event \<Rightarrow> (string \<rightharpoonup> 'v) \<Rightarrow> (string \<rightharpoonup> 'v)" where
  "spec_step accept (Loaded None) f = f"
| "spec_step accept (Loaded (Some cm)) f = (case accept cm of None \<Rightarrow> f
     | Some v \<Rightarrow> f(cm_key (cm_Namespace cm) (cm_Name cm) \<mapsto> v))"
| "spec_step accept (Removed ns n) f = f(cm_key ns n := None)"

definition spec_run :: "(ConfigMap \<Rightarrow> 'v option) \<Rightarrow> store_event list \<Rightarrow> (string \<rightharpoonup> 'v)" where
  "spec_run accept evs = fold (spec_step accept) evs Map.empty"

text \<open>
  What a client of \<open>TopologyRuleStore\<close> and \<open>GroupingStore\<close> relies on: \<open>load\<close> stores what
  \<open>accept\<close> makes of the ConfigMap under its key or fails and changes nothing, \<open>remove\<close>
  drops the key, and accepted values are well-formed.
\<close>

locale config_store =
  fixes load :: "('v, 'e) loader"
    and remove :: "'v remover"
    and accept :: "ConfigMap \<Rightarrow> 'v option"
    and wf :: "'v \<Rightarrow> bool"
  assumes load_accepted: "accept cm = Some v \<Longrightarrow>
      load (Some cm) s = Inr (put (cm_key (cm_Namespace cm) (cm_Name cm)) v s)"
    and load_rejected: "accept cm = None \<Longrightarrow> \<exists>e. load (Some cm) s = Inl e"
    and load_nil: "\<exists>e. load None s = Inl e"
    and remove_key: "map_of (remove ns n s) = (map_of s)(cm_key ns n := None)"
    and remove_wf: "wf_map s \<Longrightarrow> wf_map (remove ns n s)"
    and accept_wf: "accept cm = Some v \<Longrightarrow> wf v"
begin

lemma step_cases:
  "store_step load remove (Loaded cmo) s =
    (case cmo of None \<Rightarrow> s | Some cm \<Rightarrow> (case accept cm of None \<Rightarrow> s
       | Some v \<Rightarrow> put (cm_key (cm_Namespace cm) (cm_Name cm)) v s))"
  using load_nil [of s] load_rejected [of "the cmo" s] load_accepted [of "the cmo" _ s]
  by (auto split: option.splits)

lemma step_refines: "map_of (store_step load remove e s) = spec_step accept e (map_of s)"
  by (cases "(accept, e, map_of s)" rule: spec_step.cases)
    (simp_all add: step_cases remove_key del: store_step.simps(1) split: option.splits)

lemma step_wf: "wf_map s \<Longrightarrow> wf_map (store_step load remove e s)"
  by (cases e) (simp_all add: step_cases remove_wf del: store_step.simps(1) split: option.splits)

lemma run_refines: "map_of (store_run load remove evs) = spec_run accept evs"
proof -
  have "map_of (fold (store_step load remove) evs s) = fold (spec_step accept) evs (map_of s)" for s
    by (induction evs arbitrary: s) (simp_all add: step_refines)
  from this [of "[]"] show ?thesis by (simp add: store_run_def spec_run_def)
qed

lemma spec_step_wf: "\<forall>v \<in> ran f. wf v \<Longrightarrow> \<forall>v \<in> ran (spec_step accept e f). wf v"
  by (cases "(accept, e, f)" rule: spec_step.cases)
    (auto simp: ran_def accept_wf split: option.splits if_splits)

lemma run_wf_map: "wf_map (store_run load remove evs)"
proof -
  have "wf_map (fold (store_step load remove) evs s)" if "wf_map s" for s
    using that by (induction evs arbitrary: s) (auto simp: step_wf)
  from this [of "[]"] show ?thesis by (simp add: store_run_def)
qed

lemma run_wf: "(k, v) \<in> set (store_run load remove evs) \<Longrightarrow> wf v"
proof -
  have "\<forall>v \<in> ran (fold (spec_step accept) evs f). wf v" if "\<forall>v \<in> ran f. wf v" for f
    using that
  proof (induction evs arbitrary: f)
    case (Cons e evs)
    then show ?case using spec_step_wf [of f e] by simp
  qed simp
  from this [of Map.empty] have "\<forall>v \<in> ran (map_of (store_run load remove evs)). wf v"
    by (simp add: run_refines spec_run_def)
  moreover assume "(k, v) \<in> set (store_run load remove evs)"
  ultimately show ?thesis by (force simp: ran_distinct [OF run_wf_map])
qed

end

end
