(* ===== verification/Topology_Rules.thy ===== *)
theory Topology_Rules
  imports Kube_Api
begin

text \<open>
  \<open>internal/controller/topology_rules.go\<close>: topology rules, the store that loads them from
  ConfigMaps, the queries of the store, and the CEL selectors built from them.  The rule
  store is its \<open>rules\<close> map; the lock is not modelled, each method holds it for its whole
  body.  The string-valued modes keep Go's string representation.
\<close>

section \<open>Constants and types\<close>

definition AttrNUMANode :: string where "AttrNUMANode = ''resource.kubernetes.io/numaNode''"
definition AttrPCIeRoot :: string where "AttrPCIeRoot = ''resource.kubernetes.io/pcieRoot''"
definition AttrSocket :: string where "AttrSocket = ''nodepartition.dra.k8s.io/socket''"

lemma Attr_distinct [simp]:
  "AttrNUMANode \<noteq> AttrPCIeRoot" "AttrPCIeRoot \<noteq> AttrNUMANode" "AttrNUMANode \<noteq> AttrSocket"
  "AttrSocket \<noteq> AttrNUMANode" "AttrPCIeRoot \<noteq> AttrSocket" "AttrSocket \<noteq> AttrPCIeRoot"
  by (simp_all add: AttrNUMANode_def AttrPCIeRoot_def AttrSocket_def)

definition TopologyRuleLabel :: string where
  "TopologyRuleLabel = ''nodepartition.dra.k8s.io/topology-rule''"

abbreviation (input) PartitioningGroup :: string where "PartitioningGroup \<equiv> ''group''"
abbreviation (input) PartitioningInfo :: string where "PartitioningInfo \<equiv> ''info''"
abbreviation (input) ConstraintMatch :: string where "ConstraintMatch \<equiv> ''match''"
abbreviation (input) ConstraintNone :: string where "ConstraintNone \<equiv> ''none''"
abbreviation (input) EnforcementRequired :: string where "EnforcementRequired \<equiv> ''required''"
abbreviation (input) EnforcementPreferred :: string where "EnforcementPreferred \<equiv> ''preferred''"
abbreviation (input) MapsToNUMANode :: string where "MapsToNUMANode \<equiv> ''numaNode''"
abbreviation (input) MapsToPCIeRoot :: string where "MapsToPCIeRoot \<equiv> ''pcieRoot''"
abbreviation (input) MapsToSocket :: string where "MapsToSocket \<equiv> ''socket''"
abbreviation (input) MapsToNone :: string where "MapsToNone \<equiv> ''''"

record TopologyRule =
  tr_Name :: string
  tr_Attribute :: string
  tr_Type :: string
  tr_Driver :: string
  tr_MapsTo :: string
  tr_Partitioning :: string
  tr_Constraint :: string
  tr_Enforcement :: string
  tr_FallbackAttribute :: string
  tr_DeviceClass :: string
  tr_Description :: string

type_synonym TopologyRuleStore = "(string, TopologyRule) gomap"

datatype rule_error =
    NilConfigMap
  | MissingLabel
  | MissingField string
  | InvalidType string
  | InvalidMapsTo string
  | InvalidPartitioning string
  | InvalidConstraint string
  | InvalidEnforcement string

section \<open>Operations\<close>

definition NewTopologyRuleStore :: TopologyRuleStore where
  "NewTopologyRuleStore = []"

text \<open>The default of a mode field: an absent or empty field reads as the given mode.\<close>

definition mode_or :: "string \<Rightarrow> string \<Rightarrow> string" where
  "mode_or m dflt = (if m = '''' then dflt else m)"

definition parseTopologyRule :: "ConfigMap \<Rightarrow> rule_error + TopologyRule" where
  "parseTopologyRule cm =
    (let attr = get_str (cm_Data cm) ''attribute'';
         attrType = get_str (cm_Data cm) ''type'';
         driver = get_str (cm_Data cm) ''driver'';
         mapsTo = get_str (cm_Data cm) ''mapsTo'';
         partitioning = get_str (cm_Data cm) ''partitioning'';
         constraint = get_str (cm_Data cm) ''constraint'';
         enforcement = get_str (cm_Data cm) ''enforcement''
     in if attr = '''' then Inl (MissingField ''attribute'')
     else if attrType = '''' then Inl (MissingField ''type'')
     else if attrType \<notin> {''int'', ''string'', ''bool''} then Inl (InvalidType attrType)
     else if driver = '''' then Inl (MissingField ''driver'')
     else if mapsTo \<notin> {MapsToNUMANode, MapsToPCIeRoot, MapsToSocket, MapsToNone}
       then Inl (InvalidMapsTo mapsTo)
     else if partitioning \<notin> {PartitioningGroup, PartitioningInfo, ''''}
       then Inl (InvalidPartitioning partitioning)
     else if constraint \<notin> {ConstraintMatch, ConstraintNone, ''''}
       then Inl (InvalidConstraint constraint)
     else if enforcement \<notin> {EnforcementRequired, EnforcementPreferred, ''''}
       then Inl (InvalidEnforcement enforcement)
     else Inr \<lparr> tr_Name = cm_Name cm, tr_Attribute = attr, tr_Type = attrType, tr_Driver = driver,
        tr_MapsTo = mapsTo,
        tr_Partitioning = mode_or partitioning PartitioningInfo,
        tr_Constraint = mode_or constraint ConstraintNone,
        tr_Enforcement = mode_or enforcement EnforcementRequired,
        tr_FallbackAttribute = get_str (cm_Data cm) ''fallbackAttribute'',
        tr_DeviceClass = get_str (cm_Data cm) ''deviceClass'',
        tr_Description = get_str (cm_Data cm) ''description'' \<rparr>)"

definition LoadRule :: "ConfigMap option \<Rightarrow> TopologyRuleStore \<Rightarrow> rule_error + TopologyRuleStore" where
  "LoadRule cmo s = (case cmo of None \<Rightarrow> Inl NilConfigMap
     | Some cm \<Rightarrow>
         if get_str (cm_Labels cm) TopologyRuleLabel \<noteq> ''true'' then Inl MissingLabel
         else case parseTopologyRule cm of Inl e \<Rightarrow> Inl e
           | Inr rule \<Rightarrow> Inr (put (cm_key (cm_Namespace cm) (cm_Name cm)) rule s))"

definition RemoveRule :: "string \<Rightarrow> string \<Rightarrow> TopologyRuleStore \<Rightarrow> TopologyRuleStore" where
  "RemoveRule namespace name s =
     (let key = cm_key namespace name in if has_key s key then del key s else s)"

definition GetRules :: "TopologyRuleStore \<Rightarrow> TopologyRule list" where
  "GetRules s = map snd s"

definition GetGroupingRules :: "TopologyRuleStore \<Rightarrow> TopologyRule list" where
  "GetGroupingRules s = filter (\<lambda>r. tr_Partitioning r = PartitioningGroup) (map snd s)"

definition builtin_pcieroot_default :: TopologyRule where
  "builtin_pcieroot_default = \<lparr> tr_Name = ''builtin-pcieroot-default'', tr_Attribute = AttrPCIeRoot,
     tr_Type = ''string'', tr_Driver = '''', tr_MapsTo = '''', tr_Partitioning = '''',
     tr_Constraint = ConstraintMatch, tr_Enforcement = EnforcementRequired,
     tr_FallbackAttribute = AttrNUMANode, tr_DeviceClass = '''', tr_Description = '''' \<rparr>"

definition GetMatchConstraintRules :: "TopologyRuleStore \<Rightarrow> TopologyRule list" where
  "GetMatchConstraintRules s =
    (let result = filter (\<lambda>r. tr_Constraint r = ConstraintMatch) (map snd s);
         hasPCIeRoot = list_ex (\<lambda>r. tr_Attribute r = AttrPCIeRoot) result
     in if \<not> hasPCIeRoot then result @ [builtin_pcieroot_default] else result)"

definition GetNUMAAttributeForDriver :: "TopologyRuleStore \<Rightarrow> string \<Rightarrow> string option" where
  "GetNUMAAttributeForDriver s driverName =
     map_option tr_Attribute
       (find (\<lambda>r. tr_Driver r = driverName \<and> tr_MapsTo r = MapsToNUMANode) (map snd s))"

definition GetDeviceClassForDriver :: "TopologyRuleStore \<Rightarrow> string \<Rightarrow> string" where
  "GetDeviceClassForDriver s driverName =
     (case find (\<lambda>r. tr_Driver r = driverName \<and> tr_DeviceClass r \<noteq> '''') (map snd s) of
        Some r \<Rightarrow> tr_DeviceClass r
      | None \<Rightarrow> driverName)"

definition BuildNUMACELSelector :: "string \<Rightarrow> int list \<Rightarrow> string" where
  "BuildNUMACELSelector attribute numaValues =
    (case SplitN2 attribute ''/'' of
       [domain, name] \<Rightarrow>
         (let attrRef = ''device.attributes['' @ [CHR 0x22] @ domain @ [CHR 0x22] @ ''].'' @ name;
              hasGuard = ''has('' @ attrRef @ '')'';
              clause = (\<lambda>v. attrRef @ '' == '' @ itoa v)
          in if length numaValues = 1 then hasGuard @ '' && '' @ clause (hd numaValues)
             else hasGuard @ '' && ('' @ Join (map clause numaValues) '' || '' @ '')'')
     | _ \<Rightarrow> '''')"

section \<open>Rules are well-formed\<close>

definition wf_rule :: "TopologyRule \<Rightarrow> bool" where
  "wf_rule r = (tr_Attribute r \<noteq> '''' \<and> tr_Driver r \<noteq> ''''
     \<and> tr_Type r \<in> {''int'', ''string'', ''bool''}
     \<and> tr_MapsTo r \<in> {MapsToNUMANode, MapsToPCIeRoot, MapsToSocket, MapsToNone}
     \<and> tr_Partitioning r \<in> {PartitioningGroup, PartitioningInfo}
     \<and> tr_Constraint r \<in> {ConstraintMatch, ConstraintNone}
     \<and> tr_Enforcement r \<in> {EnforcementRequired, EnforcementPreferred})"

definition accepted_data :: "(string, string) gomap \<Rightarrow> bool" where
  "accepted_data d = (get_str d ''attribute'' \<noteq> '''' \<and> get_str d ''driver'' \<noteq> ''''
     \<and> get_str d ''type'' \<in> {''int'', ''string'', ''bool''}
     \<and> get_str d ''mapsTo'' \<in> {MapsToNUMANode, MapsToPCIeRoot, MapsToSocket, MapsToNone}
     \<and> get_str d ''partitioning'' \<in> {PartitioningGroup, PartitioningInfo, ''''}
     \<and> get_str d ''constraint'' \<in> {ConstraintMatch, ConstraintNone, ''''}
     \<and> get_str d ''enforcement'' \<in> {EnforcementRequired, EnforcementPreferred, ''''})"

definition accept_rule :: "ConfigMap \<Rightarrow> TopologyRule option" where
  "accept_rule cm = (if get_str (cm_Labels cm) TopologyRuleLabel \<noteq> ''true'' then None
     else case parseTopologyRule cm of Inl _ \<Rightarrow> None | Inr r \<Rightarrow> Some r)"

lemma mode_or_in: "m \<in> {a, dflt, ''''} \<Longrightarrow> mode_or m dflt \<in> {a, dflt}"
  by (auto simp: mode_or_def)

lemma mode_or_in': "m \<in> {dflt, a, ''''} \<Longrightarrow> mode_or m dflt \<in> {dflt, a}"
  by (auto simp: mode_or_def)

lemma parseTopologyRule_Inr:
  "parseTopologyRule cm = Inr r \<Longrightarrow> accepted_data (cm_Data cm)
     \<and> tr_Name r = cm_Name cm \<and> tr_Attribute r = get_str (cm_Data cm) ''attribute''
     \<and> tr_Type r = get_str (cm_Data cm) ''type'' \<and> tr_Driver r = get_str (cm_Data cm) ''driver''
     \<and> tr_MapsTo r = get_str (cm_Data cm) ''mapsTo''
     \<and> tr_Partitioning r = mode_or (get_str (cm_Data cm) ''partitioning'') PartitioningInfo
     \<and> tr_Constraint r = mode_or (get_str (cm_Data cm) ''constraint'') ConstraintNone
     \<and> tr_Enforcement r = mode_or (get_str (cm_Data cm) ''enforcement'') EnforcementRequired"
  unfolding parseTopologyRule_def Let_def accepted_data_def
  by (simp split: if_split_asm del: insert_iff) (erule subst, simp del: insert_iff)

lemma parseTopologyRule_accepted:
  assumes "accepted_data (cm_Data cm)"
  shows "\<exists>r. parseTopologyRule cm = Inr r"
proof -
  have "get_str (cm_Data cm) ''type'' \<noteq> ''''" using assms by (auto simp: accepted_data_def)
  with assms show ?thesis
    unfolding parseTopologyRule_def accepted_data_def Let_def by (simp del: insert_iff)
qed

lemma parseTopologyRule_wf: "parseTopologyRule cm = Inr r \<Longrightarrow> wf_rule r"
  by (drule parseTopologyRule_Inr)
    (simp add: wf_rule_def accepted_data_def mode_or_in mode_or_in' del: insert_iff)

text \<open>C30: \<open>parseTopologyRule\<close> accepts a ConfigMap exactly when every required field is present and
  every mode field holds a documented value or is absent, and an accepted rule has no field
  outside its enumeration: absent modes get their documented defaults.\<close>

theorem parseTopologyRule_spec:
  "(case parseTopologyRule cm of
      Inr r \<Rightarrow> accepted_data (cm_Data cm) \<and> wf_rule r
        \<and> tr_Enforcement r = mode_or (get_str (cm_Data cm) ''enforcement'') EnforcementRequired
        \<and> tr_Constraint r = mode_or (get_str (cm_Data cm) ''constraint'') ConstraintNone
        \<and> tr_Partitioning r = mode_or (get_str (cm_Data cm) ''partitioning'') PartitioningInfo
    | Inl e \<Rightarrow> \<not> accepted_data (cm_Data cm))"
proof (cases "parseTopologyRule cm")
  case (Inl e)
  then show ?thesis using parseTopologyRule_accepted [of cm] by auto
next
  case (Inr r)
  then show ?thesis using parseTopologyRule_Inr [OF Inr] parseTopologyRule_wf [OF Inr] by simp
qed

section \<open>The rule store\<close>

interpretation rules: config_store LoadRule RemoveRule accept_rule wf_rule
proof unfold_locales
  show "accept_rule cm = Some v \<Longrightarrow>
      LoadRule (Some cm) s = Inr (put (cm_key (cm_Namespace cm) (cm_Name cm)) v s)" for cm v s
    by (auto simp: accept_rule_def LoadRule_def split: if_splits sum.splits)
  show "accept_rule cm = None \<Longrightarrow> \<exists>e. LoadRule (Some cm) s = Inl e" for cm s
    by (auto simp: accept_rule_def LoadRule_def split: if_splits sum.splits)
  show "\<exists>e. LoadRule None s = Inl e" for s by (simp add: LoadRule_def)
  show "map_of (RemoveRule ns n s) = (map_of s)(cm_key ns n := None)" for ns n s
    by (auto simp: RemoveRule_def Let_def fun_eq_iff map_of_eq_None_iff)
  show "wf_map s \<Longrightarrow> wf_map (RemoveRule ns n s)" for ns n s
    by (simp add: RemoveRule_def Let_def)
  show "accept_rule cm = Some v \<Longrightarrow> wf_rule v" for cm v
    by (auto simp: accept_rule_def dest: parseTopologyRule_wf split: if_splits sum.splits)
qed

text \<open>C29: whatever sequence of ConfigMap loads and removals the informer delivers, the rule store
  holds exactly the last accepted rule of each \<open>namespace/name\<close> not removed since (a rejected
  load changes nothing), has no duplicate key, and every stored rule is well-formed.\<close>

theorem rule_store_refines:
  "map_of (store_run LoadRule RemoveRule evs) = spec_run accept_rule evs
   \<and> wf_map (store_run LoadRule RemoveRule evs)
   \<and> list_all wf_rule (GetRules (store_run LoadRule RemoveRule evs))"
  using rules.run_refines rules.run_wf_map rules.run_wf
  by (auto simp: list_all_iff GetRules_def)

lemma in_GetMatchConstraintRules:
  "r \<in> set (GetMatchConstraintRules s) \<longleftrightarrow>
    (r \<in> snd ` set s \<and> tr_Constraint r = ConstraintMatch) \<or>
    (r = builtin_pcieroot_default \<and>
      \<not> (\<exists>r' \<in> snd ` set s. tr_Constraint r' = ConstraintMatch \<and> tr_Attribute r' = AttrPCIeRoot))"
  by (auto simp: GetMatchConstraintRules_def Let_def list_ex_iff)

text \<open>\<open>GetMatchConstraintRules\<close> returns exactly the stored match rules, plus the built-in
  pcieRoot rule (required, with numaNode fallback) precisely when no stored match rule is about
  pcieRoot; so some pcieRoot rule is always among them.\<close>

theorem GetMatchConstraintRules_pcieRoot:
  "set (GetMatchConstraintRules s) = {r \<in> snd ` set s. tr_Constraint r = ConstraintMatch} \<union>
     (if \<exists>r. r \<in> snd ` set s \<and> tr_Constraint r = ConstraintMatch \<and> tr_Attribute r = AttrPCIeRoot
      then {} else {builtin_pcieroot_default})
   \<and> (\<exists>r. r \<in> set (GetMatchConstraintRules s) \<and> tr_Attribute r = AttrPCIeRoot)"
proof
  show "\<exists>r. r \<in> set (GetMatchConstraintRules s) \<and> tr_Attribute r = AttrPCIeRoot"
  proof (cases "\<exists>r' \<in> snd ` set s. tr_Constraint r' = ConstraintMatch \<and> tr_Attribute r' = AttrPCIeRoot")
    case True
    then show ?thesis by (auto simp: in_GetMatchConstraintRules)
  next
    case False
    then have "builtin_pcieroot_default \<in> set (GetMatchConstraintRules s)"
      by (simp add: in_GetMatchConstraintRules)
    moreover have "tr_Attribute builtin_pcieroot_default = AttrPCIeRoot"
      by (simp add: builtin_pcieroot_default_def)
    ultimately show ?thesis by blast
  qed
qed (rule set_eqI, simp only: in_GetMatchConstraintRules, auto)

section \<open>Queries and the iteration order of the store\<close>

text \<open>Two rules of one driver never disagree on the class override or on the NUMA attribute.\<close>

definition rules_agree :: "TopologyRuleStore \<Rightarrow> bool" where
  "rules_agree s = list_all (\<lambda>r. list_all (\<lambda>r'.
     (tr_Driver r = tr_Driver r' \<and> tr_DeviceClass r \<noteq> '''' \<and> tr_DeviceClass r' \<noteq> ''''
        \<longrightarrow> tr_DeviceClass r = tr_DeviceClass r') \<and>
     (tr_Driver r = tr_Driver r' \<and> tr_MapsTo r = MapsToNUMANode \<and> tr_MapsTo r' = MapsToNUMANode
        \<longrightarrow> tr_Attribute r = tr_Attribute r')) (map snd s)) (map snd s)"

lemma rules_agreeD:
  assumes "rules_agree s" and "r \<in> set (map snd s)" and "r' \<in> set (map snd s)"
  shows "(tr_Driver r = tr_Driver r' \<and> tr_DeviceClass r \<noteq> '''' \<and> tr_DeviceClass r' \<noteq> ''''
        \<longrightarrow> tr_DeviceClass r = tr_DeviceClass r') \<and>
     (tr_Driver r = tr_Driver r' \<and> tr_MapsTo r = MapsToNUMANode \<and> tr_MapsTo r' = MapsToNUMANode
        \<longrightarrow> tr_Attribute r = tr_Attribute r')"
  using bspec [OF bspec [OF assms(1) [unfolded rules_agree_def list_all_iff] assms(2)] assms(3)] .

lemma GetDeviceClassForDriver_alt:
  "GetDeviceClassForDriver s d = (case map_option tr_DeviceClass
      (find (\<lambda>r. tr_Driver r = d \<and> tr_DeviceClass r \<noteq> '''') (map snd s)) of Some c \<Rightarrow> c | None \<Rightarrow> d)"
  by (simp add: GetDeviceClassForDriver_def split: option.splits)

text \<open>When no two rules of a driver disagree, \<open>GetDeviceClassForDriver\<close> and
  \<open>GetNUMAAttributeForDriver\<close> return the same answer for every iteration order of the rule map,
  although both return the first match of a \<open>range\<close> loop.\<close>

theorem rule_lookup_order_independent:
  assumes "rules_agree s" and "mset s = mset s'"
  shows "GetDeviceClassForDriver s d = GetDeviceClassForDriver s' d
    \<and> GetNUMAAttributeForDriver s d = GetNUMAAttributeForDriver s' d"
proof -
  have same: "set (map snd s) = set (map snd s')" using assms(2) by (metis mset_map set_mset_mset)
  have agree: "tr_DeviceClass r = tr_DeviceClass r'"
    if "r \<in> set (map snd s)" "r' \<in> set (map snd s)"
      "tr_Driver r = d \<and> tr_DeviceClass r \<noteq> ''''" "tr_Driver r' = d \<and> tr_DeviceClass r' \<noteq> ''''" for r r'
    using rules_agreeD [OF assms(1) that(1,2)] that(3,4) by simp
  have agree': "tr_Attribute r = tr_Attribute r'"
    if "r \<in> set (map snd s)" "r' \<in> set (map snd s)"
      "tr_Driver r = d \<and> tr_MapsTo r = MapsToNUMANode" "tr_Driver r' = d \<and> tr_MapsTo r' = MapsToNUMANode" for r r'
    using rules_agreeD [OF assms(1) that(1,2)] that(3,4) by simp
  show ?thesis
    unfolding GetDeviceClassForDriver_alt GetNUMAAttributeForDriver_def
    using find_agree [OF same agree] find_agree [OF same agree'] by simp
qed

definition example_rule :: "string \<Rightarrow> string \<Rightarrow> string \<Rightarrow> TopologyRule" where
  "example_rule name driver cls = \<lparr> tr_Name = name, tr_Attribute = driver @ ''/numaNode'',
     tr_Type = ''int'', tr_Driver = driver, tr_MapsTo = MapsToNUMANode,
     tr_Partitioning = PartitioningGroup, tr_Constraint = ConstraintMatch,
     tr_Enforcement = EnforcementRequired, tr_FallbackAttribute = '''', tr_DeviceClass = cls,
     tr_Description = '''' \<rparr>"

theorem rule_lookup_order_independent_witness:
  "GetDeviceClassForDriver [(''ns/a'', example_rule ''a'' ''gpu'' ''vfio.gpu''), (''ns/b'', example_rule ''b'' ''nic'' '''')] ''gpu''
   = GetDeviceClassForDriver [(''ns/b'', example_rule ''b'' ''nic'' ''''), (''ns/a'', example_rule ''a'' ''gpu'' ''vfio.gpu'')] ''gpu''"
  by (rule rule_lookup_order_independent [THEN conjunct1])
    (simp_all add: rules_agree_def example_rule_def)

text \<open>Two rules of one driver with different \<open>deviceClass\<close> overrides are both accepted by the
  store, and the class the driver gets then depends on the iteration order of the rule map.\<close>

theorem conflicting_overrides_order_dependent:
  "\<exists>s s'. mset s = mset s' \<and> list_all wf_rule (GetRules s)
     \<and> GetDeviceClassForDriver s ''gpu'' \<noteq> GetDeviceClassForDriver s' ''gpu''"
proof (intro exI conjI)
  let ?a = "(''ns/a'', example_rule ''a'' ''gpu'' ''gpu.full'')"
  let ?b = "(''ns/b'', example_rule ''b'' ''gpu'' ''gpu.vfio'')"
  show "mset [?a, ?b] = mset [?b, ?a]" by simp
  show "list_all wf_rule (GetRules [?a, ?b])"
    by (simp add: GetRules_def wf_rule_def example_rule_def)
  show "GetDeviceClassForDriver [?a, ?b] ''gpu'' \<noteq> GetDeviceClassForDriver [?b, ?a] ''gpu''"
    by (simp add: GetDeviceClassForDriver_def example_rule_def)
qed

section \<open>Meaning of the NUMA selectors\<close>

text \<open>The fragment of CEL the coordinator writes, its text and its value on a device.\<close>

datatype cel = CHas string string | CEq string string int | CAnd cel cel | CAny "cel list"

definition cel_ref :: "string \<Rightarrow> string \<Rightarrow> string" where
  "cel_ref domain name = ''device.attributes['' @ [CHR 0x22] @ domain @ [CHR 0x22] @ ''].'' @ name"

fun cel_text :: "cel \<Rightarrow> string" where
  "cel_text (CHas d n) = ''has('' @ cel_ref d n @ '')''"
| "cel_text (CEq d n v) = cel_ref d n @ '' == '' @ itoa v"
| "cel_text (CAnd a b) = cel_text a @ '' && '' @ cel_text b"
| "cel_text (CAny cs) = ''('' @ Join (map cel_text cs) '' || '' @ '')''"

fun cel_holds :: "(string \<Rightarrow> string \<Rightarrow> int option) \<Rightarrow> cel \<Rightarrow> bool" where
  "cel_holds env (CHas d n) = (env d n \<noteq> None)"
| "cel_holds env (CEq d n v) = (env d n = Some v)"
| "cel_holds env (CAnd a b) = (cel_holds env a \<and> cel_holds env b)"
| "cel_holds env (CAny cs) = list_ex (cel_holds env) cs"

definition numa_cel :: "string \<Rightarrow> string \<Rightarrow> int list \<Rightarrow> cel" where
  "numa_cel d n vs = CAnd (CHas d n) (case vs of [v] \<Rightarrow> CEq d n v | _ \<Rightarrow> CAny (map (CEq d n) vs))"

lemma cel_holds_numa: "cel_holds env (numa_cel d n vs) \<longleftrightarrow> (\<exists>v. v \<in> set vs \<and> env d n = Some v)"
  by (auto simp: numa_cel_def list_ex_iff split: list.splits)

lemma numa_selector_text:
  "CHR ''/'' \<notin> set d \<Longrightarrow> BuildNUMACELSelector (d @ ''/'' @ n) vs = cel_text (numa_cel d n vs)"
  by (simp only: BuildNUMACELSelector_def SplitN2_slash [of d n] list.case simp_thms)
    (simp add: numa_cel_def cel_ref_def Let_def comp_def split: list.splits)

text \<open>For a qualified attribute and at least one NUMA id, \<open>BuildNUMACELSelector\<close> writes a CEL
  expression that holds on a device exactly when the device publishes that attribute with one
  of the given ids (and so never on a device that lacks the attribute).\<close>

theorem BuildNUMACELSelector_selects:
  assumes "CHR ''/'' \<notin> set domain" and "vs \<noteq> []"
  shows "\<exists>e. BuildNUMACELSelector (domain @ ''/'' @ name) vs = cel_text e \<and>
    (\<forall>env. cel_holds env e \<longleftrightarrow> (\<exists>v. v \<in> set vs \<and> env domain name = Some v))"
  using numa_selector_text [OF assms(1)] cel_holds_numa by metis

theorem BuildNUMACELSelector_selects_witness:
  "\<exists>e. BuildNUMACELSelector (''dra.cpu'' @ ''/'' @ ''numaNodeID'') [0, 1] = cel_text e \<and>
    (\<forall>env. cel_holds env e \<longleftrightarrow> (\<exists>v. v \<in> set [0, 1] \<and> env ''dra.cpu'' ''numaNodeID'' = Some v))"
  by (rule BuildNUMACELSelector_selects) simp_all

lemma BuildNUMACELSelector_unqualified:
  "CHR ''/'' \<notin> set attr \<Longrightarrow> BuildNUMACELSelector attr vs = ''''"
  using Index_None_sublist [of attr "''/''"] by (simp add: BuildNUMACELSelector_def SplitN2_def)

end
