(* ===== verification/Topology_Model.thy ===== *)
theory Topology_Model
  imports Topology_Rules
begin

text \<open>
  \<open>internal/controller/topology_model.go\<close>: the cross-driver topology model.  It keeps the raw
  data of every ResourceSlice, the devices extracted from them per node and slice, and the
  rules used for the extraction.  Each method runs under the model's lock, so a method is one
  step.  The Go methods that return deep copies return the value itself here: HOL values are
  not shared.  Pointers to scalars are options.
\<close>

section \<open>Types\<close>

definition socketAliases :: "string list" where
  "socketAliases = [''resource.kubernetes.io/cpuSocketID'', ''dra.cpu/cpuSocketID'',
     ''dra.memory/cpuSocketID'', ''cpuSocketID'', ''socket'']"

definition numaNodeAliases :: "string list" where
  "numaNodeAliases = [''nodepartition.dra.k8s.io/numaNode'', ''dra.net/numaNode'',
     ''dra.cpu/numaNodeID'', ''dra.memory/numaNode'', ''dra.nvme/numaNode'', ''numaNode'', ''numa'']"

record DeviceAttributeValue =
  dav_IntValue :: "int option"
  dav_StringValue :: "string option"
  dav_BoolValue :: "bool option"

record TopologyDevice =
  td_DriverName :: string
  td_DeviceName :: string
  td_NodeName :: string
  td_PoolName :: string
  td_NUMANode :: "int option"
  td_NUMANodes :: "int list"
  td_PCIeRoot :: "string option"
  td_PCIeRoots :: "string list"
  td_Socket :: "int option"
  td_ExtendedAttributes :: "(string, DeviceAttributeValue) gomap"
  td_Capacity :: "(string, string) gomap"
  td_ConsumesCounters :: "DeviceCounterConsumption list"

text \<open>\<open>DevicesByDriver\<close> is keyed by slice name, see \<open>applySliceDataLocked\<close>.\<close>

record NodeTopology =
  nt_NodeName :: string
  nt_DevicesByDriver :: "(string, TopologyDevice list) gomap"

record rawSliceData =
  raw_SliceName :: string
  raw_DriverName :: string
  raw_NodeName :: string
  raw_PoolName :: string
  raw_Devices :: "Device list"

record TopologyModel =
  tm_nodes :: "(string, NodeTopology) gomap"
  tm_rules :: "TopologyRule list"
  tm_rawSlices :: "(string, rawSliceData) gomap"

section \<open>Attribute values\<close>

definition attr_String :: "DeviceAttributeValue \<Rightarrow> string" where
  "attr_String v = (case dav_IntValue v of Some i \<Rightarrow> itoa i
     | None \<Rightarrow> (case dav_StringValue v of Some s \<Rightarrow> s
     | None \<Rightarrow> (case dav_BoolValue v of Some b \<Rightarrow> (if b then ''true'' else ''false'')
     | None \<Rightarrow> ''<nil>'')))"

definition deviceAttributeFromDRA :: "DeviceAttribute \<Rightarrow> DeviceAttributeValue" where
  "deviceAttributeFromDRA attr = \<lparr> dav_IntValue = da_IntValue attr,
     dav_StringValue = da_StringValue attr, dav_BoolValue = da_BoolValue attr \<rparr>"

definition deviceAttributeValues :: "TopologyDevice \<Rightarrow> string \<Rightarrow> string list" where
  "deviceAttributeValues dev attribute =
    (if attribute = AttrNUMANode then
       (if td_NUMANodes dev \<noteq> [] then map itoa (td_NUMANodes dev)
        else case td_NUMANode dev of Some n \<Rightarrow> [itoa n] | None \<Rightarrow> [])
     else if attribute = AttrPCIeRoot then
       (if td_PCIeRoots dev \<noteq> [] then td_PCIeRoots dev
        else case td_PCIeRoot dev of Some r \<Rightarrow> [r] | None \<Rightarrow> [])
     else if attribute = AttrSocket then
       (case td_Socket dev of Some n \<Rightarrow> [itoa n] | None \<Rightarrow> [])
     else case map_of (td_ExtendedAttributes dev) attribute of
         Some v \<Rightarrow> [attr_String v] | None \<Rightarrow> [])"

definition deviceAttributeValueString :: "TopologyDevice \<Rightarrow> string \<Rightarrow> string" where
  "deviceAttributeValueString dev attribute =
     (case deviceAttributeValues dev attribute of v # _ \<Rightarrow> v | [] \<Rightarrow> '''')"

definition deviceHasAttribute :: "TopologyDevice \<Rightarrow> string \<Rightarrow> bool" where
  "deviceHasAttribute dev attribute =
    (if attribute = AttrNUMANode then td_NUMANode dev \<noteq> None \<or> td_NUMANodes dev \<noteq> []
     else if attribute = AttrPCIeRoot then td_PCIeRoot dev \<noteq> None \<or> td_PCIeRoots dev \<noteq> []
     else if attribute = AttrSocket then td_Socket dev \<noteq> None
     else has_key (td_ExtendedAttributes dev) attribute)"

definition deviceHasScalarAttribute :: "TopologyDevice \<Rightarrow> string \<Rightarrow> bool" where
  "deviceHasScalarAttribute dev attribute =
    (if attribute = AttrNUMANode then td_NUMANode dev \<noteq> None
     else if attribute = AttrPCIeRoot then td_PCIeRoot dev \<noteq> None
     else if attribute = AttrSocket then td_Socket dev \<noteq> None
     else has_key (td_ExtendedAttributes dev) attribute)"

section \<open>Extraction\<close>

text \<open>The inner loop over the rules, for one attribute of the device.\<close>

definition apply_rule ::
  "string \<Rightarrow> string \<Rightarrow> DeviceAttribute \<Rightarrow> TopologyDevice \<Rightarrow> TopologyRule \<Rightarrow> TopologyDevice" where
  "apply_rule driverName name attr td rule =
    (if name \<noteq> tr_Attribute rule \<or> driverName \<noteq> tr_Driver rule then td
     else
       let td1 =
         (if tr_MapsTo rule = MapsToNUMANode then
            (if da_IntValue attr \<noteq> None then td\<lparr>td_NUMANode := da_IntValue attr\<rparr> else td)
          else if tr_MapsTo rule = MapsToPCIeRoot then
            (if da_StringValue attr \<noteq> None then td\<lparr>td_PCIeRoot := da_StringValue attr\<rparr> else td)
          else if tr_MapsTo rule = MapsToSocket then
            (if da_IntValue attr \<noteq> None then td\<lparr>td_Socket := da_IntValue attr\<rparr> else td)
          else td)
       in td1\<lparr>td_ExtendedAttributes :=
            put name (deviceAttributeFromDRA attr) (td_ExtendedAttributes td1)\<rparr>)"

text \<open>One iteration of the loop over the attributes.\<close>

definition extract_attr ::
  "TopologyRule list \<Rightarrow> string \<Rightarrow> TopologyDevice \<Rightarrow> string \<times> DeviceAttribute \<Rightarrow> TopologyDevice" where
  "extract_attr rules driverName td nattr =
    (let name = fst nattr; attr = snd nattr in
     if name = AttrNUMANode then
       (if da_IntValue attr \<noteq> None then td\<lparr>td_NUMANode := da_IntValue attr\<rparr> else td)
     else if name = AttrPCIeRoot then
       (if da_StringValue attr \<noteq> None then td\<lparr>td_PCIeRoot := da_StringValue attr\<rparr> else td)
     else if name = AttrSocket then
       (if da_IntValue attr \<noteq> None then td\<lparr>td_Socket := da_IntValue attr\<rparr> else td)
     else
       let td1 = (if td_NUMANode td = None \<and> name \<in> set numaNodeAliases \<and> da_IntValue attr \<noteq> None
                  then td\<lparr>td_NUMANode := da_IntValue attr\<rparr> else td);
           td2 = (if td_Socket td1 = None \<and> name \<in> set socketAliases \<and> da_IntValue attr \<noteq> None
                  then td1\<lparr>td_Socket := da_IntValue attr\<rparr> else td1)
       in foldl (apply_rule driverName name attr) td2 rules)"

definition extractTopologyDevice ::
  "TopologyRule list \<Rightarrow> string \<Rightarrow> string \<Rightarrow> string \<Rightarrow> string \<Rightarrow>
     (string, DeviceAttribute) gomap \<Rightarrow> TopologyDevice" where
  "extractTopologyDevice rules driverName deviceName nodeName poolName attrs =
     foldl (extract_attr rules driverName)
       \<lparr> td_DriverName = driverName, td_DeviceName = deviceName, td_NodeName = nodeName,
         td_PoolName = poolName, td_NUMANode = None, td_NUMANodes = [], td_PCIeRoot = None,
         td_PCIeRoots = [], td_Socket = None, td_ExtendedAttributes = [], td_Capacity = [],
         td_ConsumesCounters = [] \<rparr> attrs"

text \<open>The device loop of \<open>applySliceDataLocked\<close>.\<close>

definition extract_device :: "TopologyRule list \<Rightarrow> rawSliceData \<Rightarrow> Device \<Rightarrow> TopologyDevice" where
  "extract_device rules raw device =
     (extractTopologyDevice rules (raw_DriverName raw) (dev_Name device) (raw_NodeName raw)
        (raw_PoolName raw) (dev_Attributes device))
     \<lparr> td_Capacity := map (\<lambda>(n, q). (n, q_String q)) (dev_Capacity device),
       td_ConsumesCounters := dev_ConsumesCounters device \<rparr>"

definition extract_devices :: "TopologyRule list \<Rightarrow> rawSliceData \<Rightarrow> TopologyDevice list" where
  "extract_devices rules raw = map (extract_device rules raw) (raw_Devices raw)"

section \<open>Operations of the model\<close>

definition NewTopologyModel :: TopologyModel where
  "NewTopologyModel = \<lparr> tm_nodes = [], tm_rules = [], tm_rawSlices = [] \<rparr>"

definition applySliceDataLocked :: "rawSliceData \<Rightarrow> TopologyModel \<Rightarrow> TopologyModel" where
  "applySliceDataLocked raw m =
    (let devices = extract_devices (tm_rules m) raw;
         nt = (case map_of (tm_nodes m) (raw_NodeName raw) of Some nt \<Rightarrow> nt
               | None \<Rightarrow> \<lparr> nt_NodeName = raw_NodeName raw, nt_DevicesByDriver = [] \<rparr>)
     in m\<lparr>tm_nodes := put (raw_NodeName raw)
            (nt\<lparr>nt_DevicesByDriver := put (raw_SliceName raw) devices (nt_DevicesByDriver nt)\<rparr>)
            (tm_nodes m)\<rparr>)"

definition reextractAllLocked :: "TopologyModel \<Rightarrow> TopologyModel" where
  "reextractAllLocked m =
     foldl (\<lambda>m' entry. applySliceDataLocked (snd entry) m') (m\<lparr>tm_nodes := []\<rparr>) (tm_rawSlices m)"

definition SetRules :: "TopologyRule list \<Rightarrow> TopologyModel \<Rightarrow> TopologyModel" where
  "SetRules rules m = reextractAllLocked (m\<lparr>tm_rules := rules\<rparr>)"

definition slice_node :: "ResourceSlice \<Rightarrow> string" where
  "slice_node sl = (case rs_NodeName sl of Some n \<Rightarrow> n | None \<Rightarrow> '''')"

definition raw_of_slice :: "ResourceSlice \<Rightarrow> rawSliceData" where
  "raw_of_slice sl = \<lparr> raw_SliceName = rs_Name sl, raw_DriverName = rs_Driver sl,
     raw_NodeName = slice_node sl, raw_PoolName = rs_PoolName sl, raw_Devices = rs_Devices sl \<rparr>"

definition UpdateFromResourceSlice :: "ResourceSlice option \<Rightarrow> TopologyModel \<Rightarrow> TopologyModel" where
  "UpdateFromResourceSlice slo m = (case slo of None \<Rightarrow> m
     | Some sl \<Rightarrow>
         if slice_node sl = '''' then m
         else applySliceDataLocked (raw_of_slice sl)
           (m\<lparr>tm_rawSlices := put (rs_Name sl) (raw_of_slice sl) (tm_rawSlices m)\<rparr>))"

definition RemoveResourceSlice :: "ResourceSlice option \<Rightarrow> TopologyModel \<Rightarrow> TopologyModel" where
  "RemoveResourceSlice slo m = (case slo of None \<Rightarrow> m
     | Some sl \<Rightarrow>
         if slice_node sl = '''' then m
         else
           let m1 = m\<lparr>tm_rawSlices := del (rs_Name sl) (tm_rawSlices m)\<rparr> in
           (case map_of (tm_nodes m1) (slice_node sl) of None \<Rightarrow> m1
            | Some nt \<Rightarrow>
                let devs = del (rs_Name sl) (nt_DevicesByDriver nt) in
                if devs = [] then m1\<lparr>tm_nodes := del (slice_node sl) (tm_nodes m1)\<rparr>
                else m1\<lparr>tm_nodes := put (slice_node sl) (nt\<lparr>nt_DevicesByDriver := devs\<rparr>) (tm_nodes m1)\<rparr>))"

definition GetModelRules :: "TopologyModel \<Rightarrow> TopologyRule list" where
  "GetModelRules m = tm_rules m"

definition GetNodeTopology :: "TopologyModel \<Rightarrow> string \<Rightarrow> NodeTopology option" where
  "GetNodeTopology m nodeName = map_of (tm_nodes m) nodeName"

definition GetAllNodes :: "TopologyModel \<Rightarrow> string list" where
  "GetAllNodes m = map fst (tm_nodes m)"

definition GetNodeTopologies :: "TopologyModel \<Rightarrow> (string, NodeTopology) gomap" where
  "GetNodeTopologies m = tm_nodes m"

definition AllDevices :: "NodeTopology \<Rightarrow> TopologyDevice list" where
  "AllDevices nt = concat (map snd (nt_DevicesByDriver nt))"

definition DevicesForDriver :: "NodeTopology \<Rightarrow> string \<Rightarrow> TopologyDevice list" where
  "DevicesForDriver nt driverName =
     concat (map (\<lambda>e. filter (\<lambda>d. td_DriverName d = driverName) (snd e)) (nt_DevicesByDriver nt))"

section \<open>Satisfiability of a preferred constraint\<close>

text \<open>\<open>groups[val][driver]++\<close> over a list of (value, driver) pairs.\<close>

definition nested_count :: "(string \<times> string) list \<Rightarrow> (string, (string, int) gomap) gomap" where
  "nested_count ps = foldl (\<lambda>g (v, d). put v (bump d 1 (get_or [] g v)) g) [] ps"

definition isConstraintSatisfiableOnNode ::
  "NodeTopology \<Rightarrow> string \<Rightarrow> (string, int) gomap \<Rightarrow> bool" where
  "isConstraintSatisfiableOnNode nt attribute driverCounts =
    (let groups = nested_count
           (map (\<lambda>dev. (deviceAttributeValueString dev attribute, td_DriverName dev))
             (filter (\<lambda>dev. deviceAttributeValueString dev attribute \<noteq> '''') (AllDevices nt)))
     in list_ex (\<lambda>(val, driverMap).
          list_all (\<lambda>(driver, needed). \<not> get_int driverMap driver < needed) driverCounts) groups)"

definition IsConstraintSatisfiable :: "TopologyModel \<Rightarrow> string \<Rightarrow> (string, int) gomap \<Rightarrow> bool" where
  "IsConstraintSatisfiable m attribute driverCounts =
     list_ex (\<lambda>(n, nt). isConstraintSatisfiableOnNode nt attribute driverCounts) (tm_nodes m)"

section \<open>Counting per value and driver\<close>

lemma nested_count_snoc:
  "nested_count (ps @ [(v, d)]) = put v (bump d 1 (get_or [] (nested_count ps) v)) (nested_count ps)"
  by (simp add: nested_count_def)

lemma nested_count_wf [simp]: "wf_map (nested_count ps)"
proof (induction ps rule: rev_induct)
  case (snoc p ps)
  then show ?case by (cases p) (simp add: nested_count_snoc)
qed (simp add: nested_count_def)

lemma nested_count_keys: "fst ` set (nested_count ps) = fst ` set ps"
proof (induction ps rule: rev_induct)
  case (snoc p ps)
  then show ?case by (cases p) (auto simp: nested_count_snoc)
qed (simp add: nested_count_def)

lemma nested_count_get:
  "get_int (get_or [] (nested_count ps) v) d = int (count_list ps (v, d))"
proof (induction ps rule: rev_induct)
  case (snoc p ps)
  then show ?case by (cases p) (auto simp: nested_count_snoc)
qed (simp add: nested_count_def)

lemma nested_count_entry:
  "(v, dm) \<in> set (nested_count ps) \<Longrightarrow> get_int dm d = int (count_list ps (v, d))"
  using get_or_mem [OF nested_count_wf] nested_count_get by metis

lemma count_list_map_filter:
  "count_list (map (\<lambda>x. (f x, g x)) (filter P xs)) (a, b) =
    length (filter (\<lambda>x. P x \<and> f x = a \<and> g x = b) xs)"
  by (induction xs) auto

text \<open>The number of devices of a driver on a node that carry a value of an attribute.\<close>

definition devices_with :: "NodeTopology \<Rightarrow> string \<Rightarrow> string \<Rightarrow> string \<Rightarrow> TopologyDevice list" where
  "devices_with nt attribute val driver =
     filter (\<lambda>dev. deviceAttributeValueString dev attribute = val \<and> td_DriverName dev = driver) (AllDevices nt)"

lemma satisfiable_on_node_iff:
  "isConstraintSatisfiableOnNode nt attribute driverCounts \<longleftrightarrow>
    (\<exists>val. val \<noteq> '''' \<and> val \<in> (\<lambda>dev. deviceAttributeValueString dev attribute) ` set (AllDevices nt)
      \<and> list_all (\<lambda>(driver, needed). needed \<le> int (length (devices_with nt attribute val driver))) driverCounts)"
proof -
  let ?val = "\<lambda>dev. deviceAttributeValueString dev attribute"
  let ?ps = "map (\<lambda>dev. (?val dev, td_DriverName dev)) (filter (\<lambda>dev. ?val dev \<noteq> '''') (AllDevices nt))"
  have cnt: "count_list ?ps (val, d) = length (devices_with nt attribute val d)" if "val \<noteq> ''''" for val d
  proof -
    have "(\<lambda>x. ?val x \<noteq> '''' \<and> ?val x = val \<and> td_DriverName x = d) =
        (\<lambda>x. ?val x = val \<and> td_DriverName x = d)" using that by auto
    then show ?thesis by (simp add: count_list_map_filter devices_with_def)
  qed
  have keys: "v \<in> fst ` set (nested_count ?ps) \<longleftrightarrow> v \<noteq> '''' \<and> v \<in> ?val ` set (AllDevices nt)" for v
    unfolding nested_count_keys by (auto simp: image_iff)
  have entry: "(\<exists>dm. (v, dm) \<in> set (nested_count ?ps) \<and> Q dm) \<longleftrightarrow>
      v \<in> fst ` set (nested_count ?ps) \<and> Q (get_or [] (nested_count ?ps) v)" for v Q
    using get_or_mem [OF nested_count_wf] by (force simp: image_iff)
  have "isConstraintSatisfiableOnNode nt attribute driverCounts \<longleftrightarrow>
    (\<exists>v dm. (v, dm) \<in> set (nested_count ?ps) \<and>
      list_all (\<lambda>(driver, needed). needed \<le> get_int dm driver) driverCounts)"
    unfolding isConstraintSatisfiableOnNode_def Let_def list_ex_iff not_less by auto
  also have "\<dots> \<longleftrightarrow> (\<exists>v. v \<noteq> '''' \<and> v \<in> ?val ` set (AllDevices nt) \<and>
      list_all (\<lambda>(driver, needed). needed \<le> int (count_list ?ps (v, driver))) driverCounts)"
    unfolding entry keys nested_count_get by blast
  also have "\<dots> \<longleftrightarrow> (\<exists>v. v \<noteq> '''' \<and> v \<in> ?val ` set (AllDevices nt) \<and>
      list_all (\<lambda>(driver, needed). needed \<le> int (length (devices_with nt attribute v driver))) driverCounts)"
    by (intro ex_cong1 conj_cong refl) (simp add: cnt)
  finally show ?thesis by simp
qed

text \<open>C27: a preferred constraint counts as satisfiable exactly when one node has one non-empty
  value of the attribute carried by enough devices of every driver at the same time: the
  devices counted for different drivers share the node and the value.\<close>

theorem IsConstraintSatisfiable_iff:
  "IsConstraintSatisfiable m attribute driverCounts \<longleftrightarrow>
    (\<exists>n nt val. (n, nt) \<in> set (tm_nodes m) \<and> val \<noteq> ''''
      \<and> val \<in> (\<lambda>dev. deviceAttributeValueString dev attribute) ` set (AllDevices nt)
      \<and> list_all (\<lambda>(driver, needed). needed \<le> int (length (devices_with nt attribute val driver))) driverCounts)"
  unfolding IsConstraintSatisfiable_def list_ex_iff by (auto simp: satisfiable_on_node_iff)

section \<open>Where the extracted topology comes from\<close>

definition maps_to :: "TopologyRule list \<Rightarrow> string \<Rightarrow> string \<Rightarrow> string \<Rightarrow> bool" where
  "maps_to rules driver name target =
     list_ex (\<lambda>r. tr_Attribute r = name \<and> tr_Driver r = driver \<and> tr_MapsTo r = target) rules"

lemma maps_to_Nil [simp]: "\<not> maps_to [] driver name target"
  by (simp add: maps_to_def)

lemma maps_to_Cons [simp]: "maps_to (r # rules) driver name target \<longleftrightarrow>
    (tr_Attribute r = name \<and> tr_Driver r = driver \<and> tr_MapsTo r = target) \<or> maps_to rules driver name target"
  by (simp add: maps_to_def)

lemma apply_rules_NUMANode:
  "td_NUMANode (foldl (apply_rule driver name attr) td rules) =
    (if maps_to rules driver name MapsToNUMANode \<and> da_IntValue attr \<noteq> None then da_IntValue attr
     else td_NUMANode td)"
  by (induction rules arbitrary: td) (auto simp: apply_rule_def Let_def)

lemma apply_rules_Socket:
  "td_Socket (foldl (apply_rule driver name attr) td rules) =
    (if maps_to rules driver name MapsToSocket \<and> da_IntValue attr \<noteq> None then da_IntValue attr
     else td_Socket td)"
  by (induction rules arbitrary: td) (auto simp: apply_rule_def Let_def)

lemma apply_rules_PCIeRoot:
  "td_PCIeRoot (foldl (apply_rule driver name attr) td rules) =
    (if maps_to rules driver name MapsToPCIeRoot \<and> da_StringValue attr \<noteq> None then da_StringValue attr
     else td_PCIeRoot td)"
  by (induction rules arbitrary: td) (auto simp: apply_rule_def Let_def)

lemma apply_rules_frame:
  "td_DriverName (foldl (apply_rule driver name attr) td rules) = td_DriverName td
   \<and> td_DeviceName (foldl (apply_rule driver name attr) td rules) = td_DeviceName td
   \<and> td_NUMANodes (foldl (apply_rule driver name attr) td rules) = td_NUMANodes td
   \<and> td_PCIeRoots (foldl (apply_rule driver name attr) td rules) = td_PCIeRoots td"
  by (induction rules arbitrary: td) (simp_all add: apply_rule_def Let_def)

abbreviation standard_name :: "string \<Rightarrow> bool" where
  "standard_name name \<equiv> name = AttrNUMANode \<or> name = AttrPCIeRoot \<or> name = AttrSocket"

text \<open>
  An attribute is a strong source when it is the standard attribute or a rule maps it, a weak
  source when it is only an alias: an alias is read only while nothing has been found yet.
\<close>

definition strong_numa :: "TopologyRule list \<Rightarrow> string \<Rightarrow> string \<Rightarrow> bool" where
  "strong_numa rules driver name = (name = AttrNUMANode
     \<or> (\<not> standard_name name \<and> maps_to rules driver name MapsToNUMANode))"

definition strong_socket :: "TopologyRule list \<Rightarrow> string \<Rightarrow> string \<Rightarrow> bool" where
  "strong_socket rules driver name = (name = AttrSocket
     \<or> (\<not> standard_name name \<and> maps_to rules driver name MapsToSocket))"

definition pcie_source :: "TopologyRule list \<Rightarrow> string \<Rightarrow> string \<Rightarrow> bool" where
  "pcie_source rules driver name = (name = AttrPCIeRoot
     \<or> (\<not> standard_name name \<and> maps_to rules driver name MapsToPCIeRoot))"

definition source_values ::
  "(DeviceAttribute \<Rightarrow> 'v option) \<Rightarrow> (string \<Rightarrow> bool) \<Rightarrow> (string, DeviceAttribute) gomap \<Rightarrow> 'v set" where
  "source_values val src attrs = {v. \<exists>n a. (n, a) \<in> set attrs \<and> src n \<and> val a = Some v}"

lemma aliases_not_standard:
  "name \<in> set numaNodeAliases \<Longrightarrow> \<not> standard_name name"
  "name \<in> set socketAliases \<Longrightarrow> \<not> standard_name name"
  by (auto simp: numaNodeAliases_def socketAliases_def AttrNUMANode_def AttrPCIeRoot_def AttrSocket_def)

lemma extract_attr_NUMANode:
  "td_NUMANode (extract_attr rules driver td (n, a)) =
    (if strong_numa rules driver n \<and> da_IntValue a \<noteq> None then da_IntValue a
     else if n \<in> set numaNodeAliases \<and> td_NUMANode td = None \<and> da_IntValue a \<noteq> None then da_IntValue a
     else td_NUMANode td)"
  using aliases_not_standard(1) [of n]
  by (cases "td_NUMANode td"; cases "da_IntValue a")
    (simp_all add: extract_attr_def strong_numa_def apply_rules_NUMANode Let_def)

lemma extract_attr_Socket:
  "td_Socket (extract_attr rules driver td (n, a)) =
    (if strong_socket rules driver n \<and> da_IntValue a \<noteq> None then da_IntValue a
     else if n \<in> set socketAliases \<and> td_Socket td = None \<and> da_IntValue a \<noteq> None then da_IntValue a
     else td_Socket td)"
  using aliases_not_standard(2) [of n]
  by (cases "td_Socket td"; cases "da_IntValue a")
    (simp_all add: extract_attr_def strong_socket_def apply_rules_Socket Let_def)

lemma extract_attr_PCIeRoot:
  "td_PCIeRoot (extract_attr rules driver td (n, a)) =
    (if pcie_source rules driver n \<and> da_StringValue a \<noteq> None then da_StringValue a else td_PCIeRoot td)"
  by (simp add: extract_attr_def pcie_source_def apply_rules_PCIeRoot Let_def)

lemma extract_attr_frame:
  "td_DriverName (extract_attr rules driver td na) = td_DriverName td
   \<and> td_DeviceName (extract_attr rules driver td na) = td_DeviceName td
   \<and> td_NUMANodes (extract_attr rules driver td na) = td_NUMANodes td
   \<and> td_PCIeRoots (extract_attr rules driver td na) = td_PCIeRoots td"
  by (simp add: extract_attr_def Let_def apply_rules_frame)

text \<open>The shape shared by the three scalars: strong sources overwrite, weak ones fill a gap.\<close>

lemma sources_foldl:
  assumes step: "\<And>s n a. f (step s (n, a)) =
      (if strong n \<and> val a \<noteq> None then val a
       else if weak n \<and> f s = None \<and> val a \<noteq> None then val a else f s)"
    and init: "f s0 = None"
  shows "f (foldl step s0 attrs) \<in>
    (if source_values val strong attrs \<noteq> {} then Some ` source_values val strong attrs
     else if source_values val weak attrs \<noteq> {} then Some ` source_values val weak attrs else {None})"
proof (induction attrs rule: rev_induct)
  case Nil
  show ?case by (simp add: source_values_def init)
next
  case (snoc na attrs)
  obtain n a where na: "na = (n, a)" by (cases na)
  have add: "source_values val src (attrs @ [(n, a)]) =
      source_values val src attrs \<union> (if src n then {v. val a = Some v} else {})" for src
    by (auto simp: source_values_def)
  show ?case
    using snoc.IH step [of "foldl step s0 attrs" n a] unfolding na add
    by (cases "val a") (auto split: if_splits)
qed

lemma extract_NUMA_source:
  "td_NUMANode (extractTopologyDevice rules driver dev node pool attrs) \<in>
    (if source_values da_IntValue (strong_numa rules driver) attrs \<noteq> {}
     then Some ` source_values da_IntValue (strong_numa rules driver) attrs
     else if source_values da_IntValue (\<lambda>n. n \<in> set numaNodeAliases) attrs \<noteq> {}
     then Some ` source_values da_IntValue (\<lambda>n. n \<in> set numaNodeAliases) attrs else {None})"
  unfolding extractTopologyDevice_def by (rule sources_foldl) (simp_all add: extract_attr_NUMANode)

lemma extract_Socket_source:
  "td_Socket (extractTopologyDevice rules driver dev node pool attrs) \<in>
    (if source_values da_IntValue (strong_socket rules driver) attrs \<noteq> {}
     then Some ` source_values da_IntValue (strong_socket rules driver) attrs
     else if source_values da_IntValue (\<lambda>n. n \<in> set socketAliases) attrs \<noteq> {}
     then Some ` source_values da_IntValue (\<lambda>n. n \<in> set socketAliases) attrs else {None})"
  unfolding extractTopologyDevice_def by (rule sources_foldl) (simp_all add: extract_attr_Socket)

lemma extract_PCIe_source:
  "td_PCIeRoot (extractTopologyDevice rules driver dev node pool attrs) \<in>
    (if source_values da_StringValue (pcie_source rules driver) attrs \<noteq> {}
     then Some ` source_values da_StringValue (pcie_source rules driver) attrs else {None})"
proof -
  have none: "source_values da_StringValue (\<lambda>_. False) attrs = {}" by (simp add: source_values_def)
  have "td_PCIeRoot (extractTopologyDevice rules driver dev node pool attrs) \<in>
    (if source_values da_StringValue (pcie_source rules driver) attrs \<noteq> {}
     then Some ` source_values da_StringValue (pcie_source rules driver) attrs
     else if source_values da_StringValue (\<lambda>_. False) attrs \<noteq> {}
     then Some ` source_values da_StringValue (\<lambda>_. False) attrs else {None})"
    unfolding extractTopologyDevice_def
    by (rule sources_foldl) (auto simp: extract_attr_PCIeRoot)
  then show ?thesis by (simp only: none simp_thms if_False not_not)
qed

text \<open>C28: in every iteration order of the attribute map, the NUMA node of an extracted device comes
  from a strong source (the standard attribute, or an attribute a rule maps to numaNode) if
  there is one with an integer value, from a known alias otherwise, and is absent only when
  there is neither; the socket likewise, and the PCIe root from the standard attribute or a
  mapped one with a string value.\<close>

theorem extract_topology_sources:
  "let td = extractTopologyDevice rules driver dev node pool attrs;
       S = source_values da_IntValue (strong_numa rules driver) attrs;
       W = source_values da_IntValue (\<lambda>n. n \<in> set numaNodeAliases) attrs;
       SS = source_values da_IntValue (strong_socket rules driver) attrs;
       SW = source_values da_IntValue (\<lambda>n. n \<in> set socketAliases) attrs;
       P = source_values da_StringValue (pcie_source rules driver) attrs
   in td_NUMANode td \<in> (if S \<noteq> {} then Some ` S else if W \<noteq> {} then Some ` W else {None})
    \<and> td_Socket td \<in> (if SS \<noteq> {} then Some ` SS else if SW \<noteq> {} then Some ` SW else {None})
    \<and> td_PCIeRoot td \<in> (if P \<noteq> {} then Some ` P else {None})"
  using extract_NUMA_source extract_Socket_source extract_PCIe_source by (simp only: Let_def)

lemma extract_frame:
  "td_DriverName (extractTopologyDevice rules driver dev node pool attrs) = driver
   \<and> td_DeviceName (extractTopologyDevice rules driver dev node pool attrs) = dev
   \<and> td_NUMANodes (extractTopologyDevice rules driver dev node pool attrs) = []
   \<and> td_PCIeRoots (extractTopologyDevice rules driver dev node pool attrs) = []"
  unfolding extractTopologyDevice_def
  by (induction attrs rule: rev_induct) (simp_all add: extract_attr_frame)

lemma extract_device_frame [simp]:
  "td_DriverName (extract_device rules raw d) = raw_DriverName raw"
  "td_DeviceName (extract_device rules raw d) = dev_Name d"
  "td_NUMANodes (extract_device rules raw d) = []"
  "td_PCIeRoots (extract_device rules raw d) = []"
  by (simp_all add: extract_device_def extract_frame)

definition int_attr :: "int \<Rightarrow> DeviceAttribute" where
  "int_attr v = \<lparr> da_IntValue = Some v, da_BoolValue = None, da_StringValue = None \<rparr>"

text \<open>A device that publishes two NUMA aliases with different values gets a NUMA node that depends
  on the iteration order of its attribute map: the alias visited first wins, not the alias
  listed first.\<close>

theorem numa_alias_order_dependent:
  "td_NUMANode (extractTopologyDevice [] ''drv'' ''d'' ''n'' ''p''
      [(''dra.net/numaNode'', int_attr 0), (''dra.cpu/numaNodeID'', int_attr 1)]) = Some 0
   \<and> td_NUMANode (extractTopologyDevice [] ''drv'' ''d'' ''n'' ''p''
      [(''dra.cpu/numaNodeID'', int_attr 1), (''dra.net/numaNode'', int_attr 0)]) = Some 1"
  by (simp add: extractTopologyDevice_def extract_attr_NUMANode int_attr_def numaNodeAliases_def
      strong_numa_def AttrNUMANode_def)

section \<open>The model is a function of the live slices\<close>

definition node_view :: "TopologyModel \<Rightarrow> string \<Rightarrow> string \<Rightarrow> TopologyDevice list option" where
  "node_view m n s = (case map_of (tm_nodes m) n of None \<Rightarrow> None
     | Some nt \<Rightarrow> map_of (nt_DevicesByDriver nt) s)"

definition spec_view ::
  "TopologyRule list \<Rightarrow> (string \<rightharpoonup> rawSliceData) \<Rightarrow> string \<Rightarrow> string \<Rightarrow> TopologyDevice list option" where
  "spec_view rules live n s = (case live s of None \<Rightarrow> None
     | Some raw \<Rightarrow> if raw_NodeName raw = n then Some (extract_devices rules raw) else None)"

definition wf_raws :: "(string, rawSliceData) gomap \<Rightarrow> bool" where
  "wf_raws raws = (wf_map raws \<and> list_all (\<lambda>(k, raw). raw_SliceName raw = k) raws)"

lemma apply_frame [simp]:
  "tm_rules (applySliceDataLocked raw m) = tm_rules m"
  "tm_rawSlices (applySliceDataLocked raw m) = tm_rawSlices m"
  by (simp_all add: applySliceDataLocked_def Let_def)

lemma apply_view:
  "node_view (applySliceDataLocked raw m) n s =
    (if n = raw_NodeName raw \<and> s = raw_SliceName raw then Some (extract_devices (tm_rules m) raw)
     else node_view m n s)"
  by (auto simp: applySliceDataLocked_def node_view_def Let_def split: option.splits)

lemma foldl_apply_frame [simp]:
  "tm_rules (foldl (\<lambda>m e. applySliceDataLocked (snd e) m) m es) = tm_rules m"
  "tm_rawSlices (foldl (\<lambda>m e. applySliceDataLocked (snd e) m) m es) = tm_rawSlices m"
  by (induction es arbitrary: m) simp_all

lemma foldl_apply_view:
  assumes "wf_raws es"
  shows "node_view (foldl (\<lambda>m e. applySliceDataLocked (snd e) m) m es) n s =
    (case spec_view (tm_rules m) (map_of es) n s of Some d \<Rightarrow> Some d | None \<Rightarrow> node_view m n s)"
  using assms
proof (induction es arbitrary: m)
  case Nil
  then show ?case by (simp add: spec_view_def)
next
  case (Cons e es)
  obtain k raw where e: "e = (k, raw)" by (cases e)
  from Cons.prems e have k: "raw_SliceName raw = k" "map_of es k = None" "wf_raws es"
    by (auto simp: wf_raws_def map_of_eq_None_iff)
  from Cons.IH [OF k(3), of "applySliceDataLocked raw m"] k(1,2) show ?case
    by (auto simp: e apply_view spec_view_def split: option.splits)
qed

lemma reextract_view:
  "wf_raws (tm_rawSlices m) \<Longrightarrow>
    node_view (reextractAllLocked m) n s = spec_view (tm_rules m) (map_of (tm_rawSlices m)) n s"
proof -
  assume "wf_raws (tm_rawSlices m)"
  moreover have "node_view (m\<lparr>tm_nodes := []\<rparr>) n s = None" by (simp add: node_view_def)
  ultimately show ?thesis by (simp add: reextractAllLocked_def foldl_apply_view split: option.splits)
qed

lemma reextract_frame [simp]:
  "tm_rules (reextractAllLocked m) = tm_rules m" "tm_rawSlices (reextractAllLocked m) = tm_rawSlices m"
  by (simp_all add: reextractAllLocked_def)

lemma SetRules_frame [simp]:
  "tm_rules (SetRules rules m) = rules" "tm_rawSlices (SetRules rules m) = tm_rawSlices m"
  by (simp_all add: SetRules_def)

text \<open>The events the controller applies to the model, and the slices alive after them.\<close>

datatype model_event =
    SliceUpserted "ResourceSlice option"
  | SliceDeleted "ResourceSlice option"
  | RulesChanged "TopologyRule list"

fun model_step :: "model_event \<Rightarrow> TopologyModel \<Rightarrow> TopologyModel" where
  "model_step (SliceUpserted sl) m = UpdateFromResourceSlice sl m"
| "model_step (SliceDeleted sl) m = RemoveResourceSlice sl m"
| "model_step (RulesChanged rs) m = SetRules rs m"

definition model_run :: "model_event list \<Rightarrow> TopologyModel" where
  "model_run evs = fold model_step evs NewTopologyModel"

fun live_step :: "model_event \<Rightarrow> (string \<rightharpoonup> rawSliceData) \<Rightarrow> (string \<rightharpoonup> rawSliceData)" where
  "live_step (SliceUpserted (Some sl)) f =
     (if slice_node sl = '''' then f else f(rs_Name sl \<mapsto> raw_of_slice sl))"
| "live_step (SliceDeleted (Some sl)) f = (if slice_node sl = '''' then f else f(rs_Name sl := None))"
| "live_step _ f = f"

definition live_slices :: "model_event list \<Rightarrow> (string \<rightharpoonup> rawSliceData)" where
  "live_slices evs = fold live_step evs Map.empty"

lemma model_step_live: "map_of (tm_rawSlices (model_step e m)) = live_step e (map_of (tm_rawSlices m))"
  by (cases "(e, map_of (tm_rawSlices m))" rule: live_step.cases)
    (auto simp: UpdateFromResourceSlice_def RemoveResourceSlice_def Let_def split: option.splits)

lemma set_put: "wf_map m \<Longrightarrow> set (put k v m) \<subseteq> insert (k, v) (set m)"
proof -
  assume "wf_map m"
  then have "wf_map (put k v m)" by simp
  then show ?thesis by (auto simp: wf_map_mem [OF \<open>wf_map m\<close>] wf_map_mem split: if_splits)
qed

lemma set_del: "set (del k m) \<subseteq> set m"
  by (auto simp: del_def AList.delete_eq)

lemma model_step_wf_raws: "wf_raws (tm_rawSlices m) \<Longrightarrow> wf_raws (tm_rawSlices (model_step e m))"
proof -
  assume wf: "wf_raws (tm_rawSlices m)"
  have "wf_raws (put (rs_Name sl) (raw_of_slice sl) (tm_rawSlices m))" for sl
    using wf set_put [of "tm_rawSlices m" "rs_Name sl" "raw_of_slice sl"]
    by (fastforce simp: wf_raws_def list_all_iff raw_of_slice_def)
  moreover have "wf_raws (del k (tm_rawSlices m))" for k
    using wf set_del [of k "tm_rawSlices m"] by (fastforce simp: wf_raws_def list_all_iff)
  ultimately show ?thesis
    using wf by (cases e)
      (auto simp: UpdateFromResourceSlice_def RemoveResourceSlice_def Let_def split: option.splits)
qed

lemma model_run_snoc: "model_run (evs @ [e]) = model_step e (model_run evs)"
  by (simp add: model_run_def)

lemma live_slices_snoc: "live_slices (evs @ [e]) = live_step e (live_slices evs)"
  by (simp add: live_slices_def)

lemma model_run_raws:
  "wf_raws (tm_rawSlices (model_run evs)) \<and> map_of (tm_rawSlices (model_run evs)) = live_slices evs"
proof (induction evs rule: rev_induct)
  case Nil
  show ?case by (simp add: model_run_def live_slices_def NewTopologyModel_def wf_raws_def)
next
  case (snoc e evs)
  then show ?case by (simp add: model_run_snoc live_slices_snoc model_step_live model_step_wf_raws)
qed

text \<open>After any sequence of slice updates, deletions and rule changes, \<open>SetRules\<close> (which every
  reconciliation runs first) rebuilds the per-node devices as a function of the live slices and
  the new rules alone: whatever stale entries the updates left behind are gone.\<close>

theorem SetRules_rebuilds:
  "node_view (SetRules rules (model_run evs)) n s = spec_view rules (live_slices evs) n s"
  using model_run_raws [of evs] by (simp add: SetRules_def reextract_view)

text \<open>Between reconciliations the same holds for slices that never change their node.\<close>

definition at_home :: "(string \<Rightarrow> string) \<Rightarrow> model_event \<Rightarrow> bool" where
  "at_home home e = (case e of SliceUpserted (Some sl) \<Rightarrow> slice_node sl \<in> {'''', home (rs_Name sl)}
     | SliceDeleted (Some sl) \<Rightarrow> slice_node sl \<in> {'''', home (rs_Name sl)} | _ \<Rightarrow> True)"

definition homed :: "(string \<Rightarrow> string) \<Rightarrow> (string \<rightharpoonup> rawSliceData) \<Rightarrow> bool" where
  "homed home live = (\<forall>s raw. live s = Some raw \<longrightarrow> raw_NodeName raw = home s)"

lemma live_step_homed: "homed home f \<Longrightarrow> at_home home e \<Longrightarrow> homed home (live_step e f)"
  by (cases "(e, f)" rule: live_step.cases)
    (auto simp: homed_def at_home_def raw_of_slice_def)

lemma update_view:
  assumes sync: "node_view m = spec_view (tm_rules m) (map_of (tm_rawSlices m))"
    and home: "homed home (map_of (tm_rawSlices m))"
    and sl: "slice_node sl \<noteq> ''''" "slice_node sl = home (rs_Name sl)"
  shows "node_view (UpdateFromResourceSlice (Some sl) m) =
    spec_view (tm_rules m) ((map_of (tm_rawSlices m))(rs_Name sl \<mapsto> raw_of_slice sl))"
proof (intro ext)
  fix n s
  have view: "node_view (m\<lparr>tm_rawSlices := r\<rparr>) = node_view m" for r
    by (simp add: node_view_def fun_eq_iff)
  show "node_view (UpdateFromResourceSlice (Some sl) m) n s =
    spec_view (tm_rules m) ((map_of (tm_rawSlices m))(rs_Name sl \<mapsto> raw_of_slice sl)) n s"
    using sl home
    by (auto simp: UpdateFromResourceSlice_def apply_view view sync spec_view_def raw_of_slice_def
        homed_def split: option.splits)
qed

lemma remove_view:
  assumes sync: "node_view m = spec_view (tm_rules m) (map_of (tm_rawSlices m))"
    and home: "homed home (map_of (tm_rawSlices m))"
    and sl: "slice_node sl \<noteq> ''''" "slice_node sl = home (rs_Name sl)"
  shows "node_view (RemoveResourceSlice (Some sl) m) n s =
    (if n = slice_node sl \<and> s = rs_Name sl then None else node_view m n s)"
proof (cases "map_of (tm_nodes m) (slice_node sl)")
  case None
  then show ?thesis using sl by (simp add: RemoveResourceSlice_def node_view_def Let_def)
next
  case (Some nt)
  let ?devs = "del (rs_Name sl) (nt_DevicesByDriver nt)"
  have gone: "map_of ?devs s = None" if "?devs = []" for s using that by simp
  show ?thesis
  proof (cases "?devs = []")
    case True
    have "map_of (nt_DevicesByDriver nt) s = None" if "s \<noteq> rs_Name sl"
      using gone [OF True, of s] that by (simp only: map_of_del) (simp add: fun_upd_def)
    with True Some sl show ?thesis
      by (auto simp: RemoveResourceSlice_def node_view_def Let_def)
  next
    case False
    with Some sl show ?thesis
      by (auto simp: RemoveResourceSlice_def node_view_def Let_def)
  qed
qed

lemma model_step_sync:
  assumes sync: "node_view m = spec_view (tm_rules m) (map_of (tm_rawSlices m))"
    and home: "homed home (map_of (tm_rawSlices m))" and e: "at_home home e"
    and wf: "wf_raws (tm_rawSlices m)"
  shows "node_view (model_step e m) =
    spec_view (tm_rules (model_step e m)) (map_of (tm_rawSlices (model_step e m)))"
  unfolding model_step_live
proof (cases "(e, map_of (tm_rawSlices m))" rule: live_step.cases)
  case (1 sl f)
  then show "node_view (model_step e m) = spec_view (tm_rules (model_step e m)) (live_step e (map_of (tm_rawSlices m)))"
  proof (cases "slice_node sl = ''''")
    case False
    with e 1 have "slice_node sl = home (rs_Name sl)" by (auto simp: at_home_def)
    from update_view [OF sync home False this] 1 False show ?thesis
      by (simp add: UpdateFromResourceSlice_def)
  qed (simp add: sync UpdateFromResourceSlice_def)
next
  case (2 sl f)
  then show "node_view (model_step e m) = spec_view (tm_rules (model_step e m)) (live_step e (map_of (tm_rawSlices m)))"
  proof (cases "slice_node sl = ''''")
    case False
    with e 2 have h: "slice_node sl = home (rs_Name sl)" by (auto simp: at_home_def)
    have "tm_rules (RemoveResourceSlice (Some sl) m) = tm_rules m"
      by (auto simp: RemoveResourceSlice_def Let_def split: option.splits)
    with 2 False h home show ?thesis
      by (intro ext)
        (auto simp: remove_view [OF sync home False h] sync spec_view_def homed_def split: option.splits)
  qed (simp add: sync RemoveResourceSlice_def)
qed (auto simp: sync UpdateFromResourceSlice_def RemoveResourceSlice_def SetRules_def reextract_view wf fun_eq_iff)

lemma model_run_sync:
  assumes "list_all (at_home home) evs"
  shows "node_view (model_run evs) = spec_view (tm_rules (model_run evs)) (live_slices evs)
    \<and> homed home (live_slices evs)"
  using assms
proof (induction evs rule: rev_induct)
  case Nil
  show ?case
    by (simp add: model_run_def live_slices_def NewTopologyModel_def homed_def node_view_def
        spec_view_def fun_eq_iff)
next
  case (snoc e evs)
  then have e: "at_home home e" and hyp: "homed home (live_slices evs)"
    and sync: "node_view (model_run evs) = spec_view (tm_rules (model_run evs)) (live_slices evs)"
    by auto
  note raws = model_run_raws [of evs]
  have "node_view (model_step e (model_run evs)) =
      spec_view (tm_rules (model_step e (model_run evs))) (live_step e (live_slices evs))"
    using model_step_sync [of "model_run evs" home e] raws sync hyp e by (simp add: model_step_live)
  then show ?case by (simp add: model_run_snoc live_slices_snoc live_step_homed hyp e)
qed

text \<open>C16: as long as every slice keeps its node, the incremental updates keep the model exact: after
  any sequence of events the devices stored per node and slice are those extracted, with the
  current rules, from the live slices, and nothing else is stored.\<close>

theorem model_in_sync:
  assumes "list_all (at_home home) evs"
  shows "node_view (model_run evs) n s = spec_view (tm_rules (model_run evs)) (live_slices evs) n s"
  using model_run_sync [OF assms] by simp

definition example_slice :: "string \<Rightarrow> string \<Rightarrow> string \<Rightarrow> ResourceSlice" where
  "example_slice name driver node = \<lparr> rs_Name = name, rs_Driver = driver, rs_NodeName = Some node,
     rs_PoolName = ''pool'', rs_Devices = [\<lparr> dev_Name = ''dev0'',
       dev_Attributes = [(AttrNUMANode, int_attr 1)], dev_Capacity = [], dev_ConsumesCounters = [] \<rparr>] \<rparr>"

theorem model_in_sync_witness:
  "node_view (model_run [SliceUpserted (Some (example_slice ''s1'' ''gpu'' ''node1'')),
      SliceUpserted (Some (example_slice ''s2'' ''nic'' ''node1'')),
      SliceDeleted (Some (example_slice ''s1'' ''gpu'' ''node1''))]) ''node1'' ''s2''
   = spec_view (tm_rules (model_run [SliceUpserted (Some (example_slice ''s1'' ''gpu'' ''node1'')),
      SliceUpserted (Some (example_slice ''s2'' ''nic'' ''node1'')),
      SliceDeleted (Some (example_slice ''s1'' ''gpu'' ''node1''))]))
     (live_slices [SliceUpserted (Some (example_slice ''s1'' ''gpu'' ''node1'')),
      SliceUpserted (Some (example_slice ''s2'' ''nic'' ''node1'')),
      SliceDeleted (Some (example_slice ''s1'' ''gpu'' ''node1''))]) ''node1'' ''s2''"
  by (rule model_in_sync [of "\<lambda>_. ''node1''"]) (simp add: at_home_def example_slice_def slice_node_def)

section \<open>Models are well-formed\<close>

definition wf_device :: "string \<Rightarrow> TopologyDevice \<Rightarrow> bool" where
  "wf_device node d = (td_NodeName d = node \<and> td_NUMANodes d = [] \<and> td_PCIeRoots d = [] \<and> wf_map (td_ExtendedAttributes d))"

definition wf_node :: "string \<Rightarrow> NodeTopology \<Rightarrow> bool" where
  "wf_node node nt = (node \<noteq> '''' \<and> nt_NodeName nt = node \<and> nt_DevicesByDriver nt \<noteq> [] \<and> wf_map (nt_DevicesByDriver nt) \<and>
     list_all (\<lambda>(sl, ds). list_all (wf_device node) ds) (nt_DevicesByDriver nt))"

definition wf_nodes :: "(string, NodeTopology) gomap \<Rightarrow> bool" where
  "wf_nodes nodes = (wf_map nodes \<and> list_all (\<lambda>(node, nt). wf_node node nt) nodes)"

definition wf_model :: "TopologyModel \<Rightarrow> bool" where
  "wf_model m = (wf_nodes (tm_nodes m) \<and> wf_raws (tm_rawSlices m) \<and>
     list_all (\<lambda>(sl, raw). raw_NodeName raw \<noteq> '''') (tm_rawSlices m))"

lemma wf_device_apply_rule: "wf_device node td \<Longrightarrow> wf_device node (apply_rule driver name attr td rule)"
  by (simp add: apply_rule_def wf_device_def Let_def)

lemma wf_device_extract_attr: "wf_device node td \<Longrightarrow> wf_device node (extract_attr rules driver td nattr)"
proof -
  have rules: "wf_device node td \<Longrightarrow> wf_device node (foldl (apply_rule driver name attr) td rules)" for td name attr
    by (induction rules arbitrary: td) (simp_all add: wf_device_apply_rule)
  assume wf: "wf_device node td"
  then have "wf_device node (td\<lparr>td_NUMANode := x\<rparr>)" "wf_device node (td\<lparr>td_PCIeRoot := y\<rparr>)" "wf_device node (td\<lparr>td_Socket := z\<rparr>)"
    "wf_device node (td\<lparr>td_NUMANode := x, td_Socket := z\<rparr>)" for x y z by (simp_all add: wf_device_def)
  with wf show ?thesis by (simp add: extract_attr_def Let_def rules)
qed

lemma wf_device_extract: "wf_device (raw_NodeName raw) (extract_device rules raw device)"
proof -
  have loop: "wf_device node td \<Longrightarrow> wf_device node (foldl (extract_attr rules driver) td attrs)" for node td driver attrs
    by (induction attrs arbitrary: td) (simp_all add: wf_device_extract_attr)
  have "wf_device node (extractTopologyDevice rules driver name node pool attrs)" for driver name node pool attrs
    unfolding extractTopologyDevice_def by (rule loop) (simp add: wf_device_def)
  then show ?thesis by (simp add: extract_device_def wf_device_def)
qed

lemma wf_nodes_put: "wf_nodes nodes \<Longrightarrow> wf_node node nt \<Longrightarrow> wf_nodes (put node nt nodes)"
  using set_put [of nodes node nt] by (fastforce simp: wf_nodes_def list_all_iff)

lemma wf_nodes_del: "wf_nodes nodes \<Longrightarrow> wf_nodes (del node nodes)"
  using set_del [of node nodes] by (fastforce simp: wf_nodes_def list_all_iff)

lemma wf_nodes_lookup: "wf_nodes nodes \<Longrightarrow> map_of nodes node = Some nt \<Longrightarrow> wf_node node nt"
  by (auto simp: wf_nodes_def list_all_iff dest: map_of_SomeD)

lemma wf_node_put:
  assumes "node \<noteq> ''''" and "nt_NodeName nt = node" and "wf_map (nt_DevicesByDriver nt)"
    and "list_all (\<lambda>(sl, ds). list_all (wf_device node) ds) (nt_DevicesByDriver nt)" and "list_all (wf_device node) ds"
  shows "wf_node node (nt\<lparr>nt_DevicesByDriver := put sl ds (nt_DevicesByDriver nt)\<rparr>)"
proof -
  have "put sl ds (nt_DevicesByDriver nt) \<noteq> []" by (metis fun_upd_same map_of.simps(1) map_of_put option.discI)
  moreover have "list_all (\<lambda>(sl, ds). list_all (wf_device node) ds) (put sl ds (nt_DevicesByDriver nt))"
    using assms(4,5) set_put [OF assms(3), of sl ds] by (fastforce simp: list_all_iff)
  ultimately show ?thesis using assms(1-3) by (simp add: wf_node_def)
qed

lemma wf_nodes_apply:
  assumes "wf_nodes (tm_nodes m)" and "raw_NodeName raw \<noteq> ''''"
  shows "wf_nodes (tm_nodes (applySliceDataLocked raw m))"
proof -
  let ?node = "raw_NodeName raw"
  define nt where "nt = (case map_of (tm_nodes m) ?node of Some nt \<Rightarrow> nt
      | None \<Rightarrow> \<lparr> nt_NodeName = ?node, nt_DevicesByDriver = [] \<rparr>)"
  have nt: "nt_NodeName nt = ?node" "wf_map (nt_DevicesByDriver nt)"
    "list_all (\<lambda>(sl, ds). list_all (wf_device ?node) ds) (nt_DevicesByDriver nt)"
    using wf_nodes_lookup [OF assms(1)] by (auto simp: nt_def wf_node_def split: option.splits)
  have "list_all (wf_device ?node) (extract_devices (tm_rules m) raw)"
    by (simp add: extract_devices_def list_all_iff wf_device_extract)
  from wf_nodes_put [OF assms(1) wf_node_put [OF assms(2) nt this]]
  show ?thesis by (simp add: applySliceDataLocked_def Let_def nt_def [symmetric])
qed

lemma wf_nodes_reextract:
  assumes "list_all (\<lambda>(sl, raw). raw_NodeName raw \<noteq> '''') (tm_rawSlices m)"
  shows "wf_nodes (tm_nodes (reextractAllLocked m))"
proof -
  have loop: "wf_nodes (tm_nodes m') \<Longrightarrow> list_all (\<lambda>(sl, raw). raw_NodeName raw \<noteq> '''') es \<Longrightarrow>
      wf_nodes (tm_nodes (foldl (\<lambda>m' entry. applySliceDataLocked (snd entry) m') m' es))" for m' es
    by (induction es arbitrary: m') (auto simp: wf_nodes_apply)
  show ?thesis unfolding reextractAllLocked_def by (rule loop) (use assms in \<open>simp_all add: wf_nodes_def\<close>)
qed

lemma wf_nodes_remove:
  assumes "wf_nodes (tm_nodes m)"
  shows "wf_nodes (tm_nodes (RemoveResourceSlice slo m))"
proof (cases "\<exists>sl nt. slo = Some sl \<and> slice_node sl \<noteq> '''' \<and> map_of (tm_nodes m) (slice_node sl) = Some nt")
  case True
  then obtain sl nt where sl: "slo = Some sl" "slice_node sl \<noteq> ''''" "map_of (tm_nodes m) (slice_node sl) = Some nt" by blast
  let ?devs = "del (rs_Name sl) (nt_DevicesByDriver nt)"
  have nt: "wf_node (slice_node sl) nt" by (rule wf_nodes_lookup [OF assms sl(3)])
  have "wf_node (slice_node sl) (nt\<lparr>nt_DevicesByDriver := ?devs\<rparr>)" if "?devs \<noteq> []"
    using that nt set_del [of "rs_Name sl" "nt_DevicesByDriver nt"] by (fastforce simp: wf_node_def list_all_iff)
  with sl assms show ?thesis
    by (simp add: RemoveResourceSlice_def Let_def wf_nodes_put wf_nodes_del)
qed (use assms in \<open>auto simp: RemoveResourceSlice_def Let_def split: option.splits\<close>)

lemma wf_raw_put:
  assumes "wf_map raws" and "list_all (\<lambda>(sl, raw). raw_NodeName raw \<noteq> '''') raws" and "raw_NodeName raw \<noteq> ''''"
  shows "list_all (\<lambda>(sl, raw). raw_NodeName raw \<noteq> '''') (put k raw raws)"
  using assms(2,3) set_put [OF assms(1), of k raw] by (fastforce simp: list_all_iff)

lemma wf_raw_del:
  "list_all (\<lambda>(sl, raw). raw_NodeName raw \<noteq> '''') raws \<Longrightarrow> list_all (\<lambda>(sl, raw). raw_NodeName raw \<noteq> '''') (del k raws)"
  using set_del [of k raws] by (fastforce simp: list_all_iff)

lemma raw_slices_remove:
  "tm_rawSlices (RemoveResourceSlice slo m) = (case slo of None \<Rightarrow> tm_rawSlices m
     | Some sl \<Rightarrow> if slice_node sl = '''' then tm_rawSlices m else del (rs_Name sl) (tm_rawSlices m))"
  by (auto simp: RemoveResourceSlice_def Let_def split: option.splits)

lemma wf_model_step: "wf_model m \<Longrightarrow> wf_model (model_step e m)"
proof -
  assume wf: "wf_model m"
  then have m: "wf_nodes (tm_nodes m)" "wf_raws (tm_rawSlices m)" "wf_map (tm_rawSlices m)"
    "list_all (\<lambda>(sl, raw). raw_NodeName raw \<noteq> '''') (tm_rawSlices m)"
    by (simp_all add: wf_model_def wf_raws_def)
  have raws: "wf_raws (tm_rawSlices (model_step e m))" by (rule model_step_wf_raws [OF m(2)])
  show ?thesis
  proof (cases e)
    case (SliceUpserted slo)
    show ?thesis
    proof (cases "\<exists>sl. slo = Some sl \<and> slice_node sl \<noteq> ''''")
      case True
      then obtain sl where sl: "slo = Some sl" "slice_node sl \<noteq> ''''" by blast
      have "raw_NodeName (raw_of_slice sl) \<noteq> ''''" using sl(2) by (simp add: raw_of_slice_def)
      with sl m raws SliceUpserted wf_raw_put [OF m(3,4)] show ?thesis
        by (simp add: wf_model_def UpdateFromResourceSlice_def wf_nodes_apply)
    qed (use wf SliceUpserted in \<open>auto simp: UpdateFromResourceSlice_def split: option.splits\<close>)
  next
    case (SliceDeleted slo)
    with m raws wf_raw_del [OF m(4)] show ?thesis
      by (auto simp: wf_model_def wf_nodes_remove raw_slices_remove split: option.splits)
  next
    case (RulesChanged rs)
    with m raws show ?thesis by (simp add: wf_model_def SetRules_def wf_nodes_reextract)
  qed
qed

lemma model_run_wf: "wf_model (model_run evs)"
proof (induction evs rule: rev_induct)
  case Nil
  show ?case by (simp add: model_run_def NewTopologyModel_def wf_model_def wf_nodes_def wf_raws_def)
qed (simp add: model_run_snoc wf_model_step)

text \<open>C17: every model that slice updates, deletions and rule changes can produce is well-formed: each
  node is stored under its own non-empty name, with at least one slice; no map has a key twice;
  each device carries the name of the node it is stored under, and the lists of reachable NUMA
  nodes and PCIe roots are empty (no code fills them); each raw slice is stored under its own name
  and has a node.\<close>

theorem models_well_formed: "wf_model (model_run evs)"
  by (rule model_run_wf)

end
