(* ===== verification/Counter_Groups.thy ===== *)
theory Counter_Groups
  imports Topology_Model "HOL-Library.Product_Lexorder" "HOL-Library.Monad_Syntax"
begin

text \<open>
  \<open>internal/controller/counter_groups.go\<close>: devices that draw on the same counter set are
  variants of one physical resource; they are grouped, counted once and reduced to one
  representative or to the finest partitions.  A Go panic (an index out of range) is the value
  \<open>None\<close>.  Counter totals are Go \<open>int64\<close> sums and wrap around.
\<close>

section \<open>Definitions\<close>

record PhysicalResourceGroup =
  prg_CounterSetName :: string
  prg_DriverName :: string
  prg_PoolName :: string
  prg_Devices :: "TopologyDevice list"
  prg_MaxEffective :: int

text \<open>The local struct \<open>groupKey\<close>: driver, pool and counter set, compared in this order.\<close>

type_synonym groupKey = "string \<times> string \<times> string"

definition baseDriverName :: "string \<Rightarrow> string" where
  "baseDriverName driverName = (case Index driverName ''/'' of
     Some idx \<Rightarrow> take idx driverName | None \<Rightarrow> driverName)"

abbreviation base_driver :: "TopologyDevice \<Rightarrow> string" where
  "base_driver d \<equiv> baseDriverName (td_DriverName d)"

definition counter_key :: "TopologyDevice \<Rightarrow> groupKey" where
  "counter_key d = (td_DriverName d, td_PoolName d, cc_CounterSet (hd (td_ConsumesCounters d)))"

definition group_device ::
  "TopologyDevice list \<times> (groupKey, PhysicalResourceGroup) gomap \<Rightarrow> TopologyDevice \<Rightarrow>
   TopologyDevice list \<times> (groupKey, PhysicalResourceGroup) gomap" where
  "group_device st d =
    (let nonOverlapping = fst st; groupMap = snd st in
     if td_ConsumesCounters d = [] then (nonOverlapping @ [d], groupMap)
     else
       let key = counter_key d in
       (nonOverlapping,
        case map_of groupMap key of
          Some g \<Rightarrow> put key (g\<lparr>prg_Devices := prg_Devices g @ [d]\<rparr>) groupMap
        | None \<Rightarrow> put key \<lparr> prg_CounterSetName = snd (snd key), prg_DriverName = td_DriverName d,
            prg_PoolName = td_PoolName d, prg_Devices = [d], prg_MaxEffective = 0 \<rparr> groupMap))"

definition computeMaxEffective :: "TopologyDevice list \<Rightarrow> int" where
  "computeMaxEffective devices = (if devices = [] then 0 else 1)"

definition GroupOverlappingDevices ::
  "TopologyDevice list \<Rightarrow> TopologyDevice list \<times> PhysicalResourceGroup list" where
  "GroupOverlappingDevices devices =
    (let st = foldl group_device ([], []) devices;
         nonOverlapping = fst st; groupMap = snd st;
         ks = sort (keys groupMap)
     in (nonOverlapping,
         map (\<lambda>k. let g = the (map_of groupMap k)
               in g\<lparr>prg_MaxEffective := computeMaxEffective (prg_Devices g)\<rparr>) ks))"

definition EffectiveDeviceCount :: "TopologyDevice list \<Rightarrow> (string, int) gomap" where
  "EffectiveDeviceCount devices =
    (let ng = GroupOverlappingDevices devices;
         counts = foldl (\<lambda>m d. bump (base_driver d) 1 m) [] (fst ng)
     in foldl (\<lambda>m g. bump (baseDriverName (prg_DriverName g)) (prg_MaxEffective g) m) counts (snd ng))"

definition int64 :: "int \<Rightarrow> int" where
  "int64 x = signed_take_bit 63 x"

definition totalCounterConsumption :: "DeviceCounterConsumption list \<Rightarrow> int" where
  "totalCounterConsumption consumptions =
     foldl (\<lambda>total cc. foldl (\<lambda>total counter. int64 (total + q_Value (snd counter))) total (cc_Counters cc))
       0 consumptions"

abbreviation device_total :: "TopologyDevice \<Rightarrow> int" where
  "device_total d \<equiv> totalCounterConsumption (td_ConsumesCounters d)"

definition selectRepresentative :: "TopologyDevice list \<Rightarrow> TopologyDevice option" where
  "selectRepresentative devices = (case devices of [] \<Rightarrow> None
     | [d] \<Rightarrow> Some d
     | best # rest \<Rightarrow>
         Some (fst (foldl (\<lambda>(best, bestTotal) d.
             let total = device_total d in
             if total > bestTotal then (d, total) else (best, bestTotal))
           (best, device_total best) rest)))"

definition FilterToEffectiveDevices :: "TopologyDevice list \<Rightarrow> TopologyDevice list option" where
  "FilterToEffectiveDevices devices =
    (let ng = GroupOverlappingDevices devices in
     do {
       reps \<leftarrow> those (map (\<lambda>g. selectRepresentative (prg_Devices g)) (snd ng));
       Some (fst ng @ reps)
     })"

definition selectSmallestPartitions :: "TopologyDevice list \<Rightarrow> TopologyDevice list" where
  "selectSmallestPartitions devices =
    (if length devices \<le> 1 then devices
     else
       let minTotal = foldl (\<lambda>m d. let total = device_total d in if total < m then total else m)
             (device_total (hd devices)) (tl devices)
       in filter (\<lambda>d. device_total d = minTotal) devices)"

definition SmallestPartitionDevices :: "TopologyDevice list \<Rightarrow> TopologyDevice list" where
  "SmallestPartitionDevices devices =
    (let ng = GroupOverlappingDevices devices
     in fst ng @ concat (map (\<lambda>g. selectSmallestPartitions (prg_Devices g)) (snd ng)))"

section \<open>Counter totals\<close>

lemma int64_add [simp]: "int64 (int64 a + b) = int64 (a + b)"
  by (metis int64_def signed_take_bit_add signed_take_bit_signed_take_bit min.idem)

lemma int64_range: "- (2 ^ 63) \<le> int64 x \<and> int64 x < 2 ^ 63"
  using signed_take_bit_int_greater_eq_minus_exp [of 63 x] signed_take_bit_int_less_exp [of 63 x]
  by (simp only: int64_def)

lemma int64_id: "- (2 ^ 63) \<le> x \<Longrightarrow> x < 2 ^ 63 \<Longrightarrow> int64 x = x"
  by (simp add: int64_def signed_take_bit_int_eq_self)

lemma int64_int64 [simp]: "int64 (int64 x) = int64 x"
  by (simp add: int64_def)

definition counter_sum :: "DeviceCounterConsumption list \<Rightarrow> int" where
  "counter_sum ccs = sum_list (concat (map (\<lambda>cc. map (\<lambda>e. q_Value (snd e)) (cc_Counters cc)) ccs))"

lemma inner_total:
  "foldl (\<lambda>total e. int64 (total + q_Value (snd e))) (int64 t) es =
    int64 (t + sum_list (map (\<lambda>e. q_Value (snd e)) es))"
  by (induction es arbitrary: t) (simp_all add: add.assoc)

lemma totalCounterConsumption_sum: "totalCounterConsumption ccs = int64 (counter_sum ccs)"
proof -
  have "foldl (\<lambda>total cc. foldl (\<lambda>total e. int64 (total + q_Value (snd e))) total (cc_Counters cc)) (int64 t) ccs
      = int64 (t + counter_sum ccs)" for t
    by (induction ccs arbitrary: t) (simp_all add: counter_sum_def inner_total add.assoc)
  from this [of 0] show ?thesis by (simp add: totalCounterConsumption_def int64_def)
qed

section \<open>Grouping\<close>

definition overlapping :: "TopologyDevice \<Rightarrow> bool" where
  "overlapping d = (td_ConsumesCounters d \<noteq> [])"

definition mk_group :: "groupKey \<Rightarrow> TopologyDevice list \<Rightarrow> int \<Rightarrow> PhysicalResourceGroup" where
  "mk_group k ds n = \<lparr> prg_CounterSetName = snd (snd k), prg_DriverName = fst k,
     prg_PoolName = fst (snd k), prg_Devices = ds, prg_MaxEffective = n \<rparr>"

lemma mk_group_sel [simp]:
  "prg_Devices (mk_group k ds n) = ds" "prg_MaxEffective (mk_group k ds n) = n"
  "prg_DriverName (mk_group k ds n) = fst k"
  "prg_MaxEffective_update f (mk_group k ds n) = mk_group k ds (f n)"
  "prg_Devices_update g (mk_group k ds n) = mk_group k (g ds) n"
  by (simp_all add: mk_group_def)

lemma mk_group_new:
  "\<lparr> prg_CounterSetName = snd (snd (counter_key d)), prg_DriverName = td_DriverName d,
     prg_PoolName = td_PoolName d, prg_Devices = [d], prg_MaxEffective = 0 \<rparr> = mk_group (counter_key d) [d] 0"
  by (simp add: mk_group_def counter_key_def)

lemma put_map_snd: "put k (f k v) (map (\<lambda>(k, v). (k, f k v)) m) = map (\<lambda>(k, v). (k, f k v)) (put k v m)"
  by (induction m) (auto simp: put_def)

lemma map_of_map_snd: "map_of (map (\<lambda>(k, v). (k, f k v)) m) k = map_option (f k) (map_of m k)"
  by (induction m) auto

lemma group_device_foldl:
  "foldl group_device ([], []) devices =
    (filter (\<lambda>d. \<not> overlapping d) devices,
     map (\<lambda>(k, ds). (k, mk_group k ds 0)) (group_by counter_key (filter overlapping devices)))"
proof (induction devices rule: rev_induct)
  case (snoc d devices)
  let ?gm = "group_by counter_key (filter overlapping devices)"
  have upd: "put (counter_key d) (mk_group (counter_key d) (get_list ?gm (counter_key d) @ [d]) 0)
        (map (\<lambda>(k, ds). (k, mk_group k ds 0)) ?gm) =
      map (\<lambda>(k, ds). (k, mk_group k ds 0)) (push (counter_key d) d ?gm)"
    by (simp add: push_def put_map_snd [of _ "\<lambda>k ds. mk_group k ds 0"])
  have look: "map_of (map (\<lambda>(k, ds). (k, mk_group k ds 0)) ?gm) k =
      map_option (\<lambda>ds. mk_group k ds 0) (map_of ?gm k)" for k
    by (rule map_of_map_snd)
  show ?case
  proof (cases "overlapping d")
    case False
    then show ?thesis using snoc by (simp add: group_device_def overlapping_def)
  next
    case True
    then have ne: "td_ConsumesCounters d \<noteq> []" by (simp add: overlapping_def)
    have "group_device (filter (\<lambda>d. \<not> overlapping d) devices,
          map (\<lambda>(k, ds). (k, mk_group k ds 0)) ?gm) d =
        (filter (\<lambda>d. \<not> overlapping d) devices,
         put (counter_key d) (mk_group (counter_key d) (get_list ?gm (counter_key d) @ [d]) 0)
          (map (\<lambda>(k, ds). (k, mk_group k ds 0)) ?gm))"
      using ne by (cases "map_of ?gm (counter_key d)")
        (simp_all add: group_device_def Let_def look get_or_def mk_group_new)
    with True snoc upd show ?thesis by simp
  qed
qed simp

definition counter_keys :: "TopologyDevice list \<Rightarrow> groupKey list" where
  "counter_keys devices = sort (remdups (map counter_key (filter overlapping devices)))"

definition variants :: "TopologyDevice list \<Rightarrow> groupKey \<Rightarrow> TopologyDevice list" where
  "variants devices k = filter (\<lambda>d. overlapping d \<and> counter_key d = k) devices"

lemma variants_fibre: "variants devices = (\<lambda>k. filter (\<lambda>d. counter_key d = k) (filter overlapping devices))"
  by (simp add: variants_def fun_eq_iff conj_commute)

lemma variants_nonempty: "k \<in> set (counter_keys devices) \<Longrightarrow> variants devices k \<noteq> []"
  by (auto simp: counter_keys_def variants_def filter_empty_conv)

lemma GroupOverlappingDevices_eq:
  "GroupOverlappingDevices devices =
    (filter (\<lambda>d. \<not> overlapping d) devices,
     map (\<lambda>k. mk_group k (variants devices k) 1) (counter_keys devices))"
proof -
  let ?gm = "group_by counter_key (filter overlapping devices)"
  have ks: "sort (keys ?gm) = counter_keys devices"
    unfolding counter_keys_def by (rule sort_set_cong) (simp_all add: keys_group_by)
  have "the (map_of (map (\<lambda>(k, ds). (k, mk_group k ds 0)) ?gm) k) = mk_group k (variants devices k) 0"
    if "k \<in> set (counter_keys devices)" for k
  proof -
    have "map_of ?gm k = Some (variants devices k)"
      using that by (simp add: map_of_group_by counter_keys_def variants_def conj_commute)
    then have "(k, variants devices k) \<in> set ?gm" by (rule map_of_SomeD)
    then have "(k, mk_group k (variants devices k) 0) \<in> set (map (\<lambda>(k, ds). (k, mk_group k ds 0)) ?gm)"
      by force
    moreover have "wf_map (map (\<lambda>(k, ds). (k, mk_group k ds 0)) ?gm)"
      by (simp add: comp_def case_prod_unfold)
    ultimately show ?thesis by simp
  qed
  moreover have "computeMaxEffective (variants devices k) = 1" if "k \<in> set (counter_keys devices)" for k
    using variants_nonempty [OF that] by (simp add: computeMaxEffective_def)
  ultimately show ?thesis
    by (simp add: GroupOverlappingDevices_def group_device_foldl ks comp_def case_prod_unfold Let_def)
qed

text \<open>C19: \<open>GroupOverlappingDevices\<close> splits a device list without loss or duplication into the devices
  that consume no counters and groups of devices that agree on driver, pool and primary counter
  set; no group is empty, each stands for one effective device, and the groups come out strictly
  sorted by driver, pool and counter set, one per physical resource.\<close>

theorem GroupOverlappingDevices_partition:
  "(case GroupOverlappingDevices devices of (nonOverlapping, groups) \<Rightarrow>
     mset nonOverlapping + mset (concat (map prg_Devices groups)) = mset devices
     \<and> list_all (\<lambda>d. td_ConsumesCounters d = []) nonOverlapping
     \<and> list_all (\<lambda>g. prg_Devices g \<noteq> [] \<and> prg_MaxEffective g = 1 \<and>
          list_all (\<lambda>d. td_ConsumesCounters d \<noteq> [] \<and>
            counter_key d = (prg_DriverName g, prg_PoolName g, prg_CounterSetName g)) (prg_Devices g)) groups
     \<and> sorted_wrt (<) (map (\<lambda>g. (prg_DriverName g, prg_PoolName g, prg_CounterSetName g)) groups))"
proof -
  have ks: "distinct (counter_keys devices)" "sorted (counter_keys devices)"
    "set (counter_keys devices) = counter_key ` set (filter overlapping devices)"
    by (simp_all add: counter_keys_def)
  have "mset (concat (map (variants devices) (counter_keys devices))) = mset (filter overlapping devices)"
    using gb.buckets_mset_keys [of "counter_keys devices" counter_key "filter overlapping devices"] ks
    by (simp add: gb.buckets_along_keys variants_fibre)
  moreover have "map (\<lambda>g. (prg_DriverName g, prg_PoolName g, prg_CounterSetName g))
      (map (\<lambda>k. mk_group k (variants devices k) 1) (counter_keys devices)) = counter_keys devices"
    by (simp add: mk_group_def comp_def)
  moreover have "mset (filter (\<lambda>d. \<not> overlapping d) devices) + mset (filter overlapping devices) = mset devices"
    by (metis add.commute multiset_partition mset_filter)
  ultimately show ?thesis
    using ks variants_nonempty [of _ devices]
    by (simp add: GroupOverlappingDevices_eq comp_def list_all_iff strict_sorted_iff)
      (auto simp: mk_group_def variants_def overlapping_def)
qed

section \<open>Representatives\<close>

lemma best_foldl:
  "\<exists>m pre post. foldl (\<lambda>(best, bestTotal) d. let total = device_total d in
       if total > bestTotal then (d, total) else (best, bestTotal)) (b, device_total b) rest = (m, device_total m)
    \<and> b # rest = pre @ m # post \<and> list_all (\<lambda>d. device_total d < device_total m) pre
    \<and> list_all (\<lambda>d. device_total d \<le> device_total m) post"
proof (induction rest rule: rev_induct)
  case Nil
  then show ?case by (intro exI [of _ b] exI [of _ "[]"]) simp
next
  case (snoc d rest)
  then obtain m pre post where
    f: "foldl (\<lambda>(best, bestTotal) d. let total = device_total d in
       if total > bestTotal then (d, total) else (best, bestTotal)) (b, device_total b) rest = (m, device_total m)"
    and eq: "b # rest = pre @ m # post" and pre: "list_all (\<lambda>d. device_total d < device_total m) pre"
    and post: "list_all (\<lambda>d. device_total d \<le> device_total m) post" by blast
  have eq': "b # rest @ [d] = (b # rest) @ [d]" by simp
  show ?case
  proof (cases "device_total d > device_total m")
    case True
    with pre post have "list_all (\<lambda>x. device_total x < device_total d) (b # rest)"
      unfolding eq by (auto simp: list_all_iff)
    with True f show ?thesis
      by (intro exI [of _ d] exI [of _ "b # rest"] exI [of _ "[]"]) simp
  next
    case False
    with pre post f show ?thesis unfolding eq' eq
      by (intro exI [of _ m] exI [of _ pre] exI [of _ "post @ [d]"]) simp
  qed
qed

lemma selectRepresentative_best:
  assumes "devices \<noteq> []"
  shows "\<exists>m pre post. selectRepresentative devices = Some m \<and> devices = pre @ m # post
    \<and> list_all (\<lambda>d. device_total d < device_total m) pre
    \<and> list_all (\<lambda>d. device_total d \<le> device_total m) post"
proof -
  obtain b rest where d: "devices = b # rest" using assms by (cases devices) auto
  show ?thesis
  proof (cases rest)
    case Nil
    then show ?thesis using d by (intro exI [of _ b] exI [of _ "[]"]) (simp add: selectRepresentative_def)
  next
    case (Cons c cs)
    have "selectRepresentative devices = Some (fst (foldl (\<lambda>(best, bestTotal) d.
        let total = device_total d in if total > bestTotal then (d, total) else (best, bestTotal))
        (b, device_total b) rest))" by (simp add: d Cons selectRepresentative_def)
    moreover obtain m pre post where "foldl (\<lambda>(best, bestTotal) d.
        let total = device_total d in if total > bestTotal then (d, total) else (best, bestTotal))
        (b, device_total b) rest = (m, device_total m)"
      and "devices = pre @ m # post" "list_all (\<lambda>d. device_total d < device_total m) pre"
        "list_all (\<lambda>d. device_total d \<le> device_total m) post"
      using best_foldl [of b rest] unfolding d by blast
    ultimately show ?thesis by (intro exI [of _ m] exI [of _ pre] exI [of _ post]) (simp only: fst_conv)
  qed
qed

text \<open>\<open>selectRepresentative\<close> returns, for every non-empty group, the first device with the
  largest counter total of the group; it has no result (the Go code panics) only for an empty
  group.\<close>

theorem selectRepresentative_first_max:
  "(case selectRepresentative devices of None \<Rightarrow> devices = []
    | Some m \<Rightarrow> \<exists>pre post. devices = pre @ m # post
        \<and> list_all (\<lambda>d. device_total d < device_total m) pre
        \<and> list_all (\<lambda>d. device_total d \<le> device_total m) post)"
proof (cases "devices = []")
  case True
  then show ?thesis by (simp add: selectRepresentative_def)
next
  case False
  from selectRepresentative_best [OF this] obtain m where
    "selectRepresentative devices = Some m"
    "\<exists>pre post. devices = pre @ m # post \<and> list_all (\<lambda>d. device_total d < device_total m) pre
      \<and> list_all (\<lambda>d. device_total d \<le> device_total m) post" by blast
  then show ?thesis by (simp only: option.case)
qed

definition representative :: "TopologyDevice list \<Rightarrow> groupKey \<Rightarrow> TopologyDevice" where
  "representative devices k = the (selectRepresentative (variants devices k))"

lemma representative_in:
  assumes "k \<in> set (counter_keys devices)"
  shows "selectRepresentative (variants devices k) = Some (representative devices k)"
    and "representative devices k \<in> set (variants devices k)"
  using selectRepresentative_best [OF variants_nonempty [OF assms]]
  by (auto simp: representative_def)

lemma those_map_Some: "(\<And>x. x \<in> set xs \<Longrightarrow> f x = Some (g x)) \<Longrightarrow> those (map f xs) = Some (map g xs)"
  by (induction xs) auto

lemma FilterToEffectiveDevices_eq:
  "FilterToEffectiveDevices devices = Some (filter (\<lambda>d. \<not> overlapping d) devices
     @ map (representative devices) (counter_keys devices))"
proof -
  have "those (map (\<lambda>k. selectRepresentative (variants devices k)) (counter_keys devices)) =
      Some (map (representative devices) (counter_keys devices))"
    by (rule those_map_Some) (rule representative_in)
  then show ?thesis
    by (simp add: FilterToEffectiveDevices_def GroupOverlappingDevices_eq comp_def Let_def)
qed

lemma representative_key:
  assumes "k \<in> set (counter_keys devices)"
  shows "overlapping (representative devices k)" and "counter_key (representative devices k) = k"
    and "representative devices k \<in> set devices"
  using representative_in(2) [OF assms] by (simp_all add: variants_def)

text \<open>A list in which every physical resource occurs once, in key order after the plain devices.\<close>

lemma effective_keys:
  assumes "eff = filter (\<lambda>d. \<not> overlapping d) devices @ map (representative devices) (counter_keys devices)"
  shows "filter overlapping eff = map (representative devices) (counter_keys devices)"
    and "map counter_key (filter overlapping eff) = counter_keys devices"
    and "filter (\<lambda>d. \<not> overlapping d) eff = filter (\<lambda>d. \<not> overlapping d) devices"
proof -
  let ?reps = "map (representative devices) (counter_keys devices)"
  have reps: "filter overlapping ?reps = ?reps" "filter (\<lambda>d. \<not> overlapping d) ?reps = []"
    by (auto simp: filter_id_conv filter_empty_conv representative_key)
  show 1: "filter overlapping eff = ?reps" by (simp add: assms reps)
  have "map (counter_key \<circ> representative devices) (counter_keys devices) = map id (counter_keys devices)"
    by (rule map_cong) (simp_all add: representative_key)
  then show "map counter_key (filter overlapping eff) = counter_keys devices" by (simp add: 1)
  show "filter (\<lambda>d. \<not> overlapping d) eff = filter (\<lambda>d. \<not> overlapping d) devices"
    by (simp add: assms reps)
qed

lemma filter_inj_map:
  "distinct ks \<Longrightarrow> (\<And>k. k \<in> set ks \<Longrightarrow> g (f k) = k) \<Longrightarrow> k \<in> set ks \<Longrightarrow>
    filter (\<lambda>d. g d = k) (map f ks) = [f k]"
proof (induction ks)
  case (Cons j ks)
  then have ne: "filter (\<lambda>d. g d = k) (map f ks) = []" if "k = j" using that
    by (auto simp: filter_empty_conv)
  from Cons ne show ?case by (cases "k = j") auto
qed simp

lemma FilterToEffectiveDevices_idem:
  assumes "FilterToEffectiveDevices devices = Some eff"
  shows "FilterToEffectiveDevices eff = Some eff"
proof -
  let ?ks = "counter_keys devices"
  have eff: "eff = filter (\<lambda>d. \<not> overlapping d) devices @ map (representative devices) ?ks"
    using assms by (simp add: FilterToEffectiveDevices_eq)
  note k = effective_keys [OF eff]
  have dks: "distinct ?ks" by (simp add: counter_keys_def)
  have keys: "counter_keys eff = ?ks"
    using dks unfolding counter_keys_def [of eff] k(2)
    by (simp add: counter_keys_def sorted_sort_id)
  have "variants eff j = [representative devices j]" if "j \<in> set ?ks" for j
  proof -
    have "variants eff j = filter (\<lambda>d. counter_key d = j) (filter overlapping eff)"
      by (simp add: variants_def conj_commute)
    also have "\<dots> = [representative devices j]"
      unfolding k(1) using dks that by (intro filter_inj_map) (auto simp: representative_key)
    finally show ?thesis .
  qed
  then have "map (representative eff) ?ks = map (representative devices) ?ks"
    by (auto simp: representative_def selectRepresentative_def)
  then show ?thesis by (simp add: FilterToEffectiveDevices_eq keys k(3)) (simp add: eff)
qed

lemma foldl_bump_get:
  "get_int (foldl (\<lambda>m x. bump (f x) (n x) m) m xs) k = get_int m k + sum_list (map n (filter (\<lambda>x. f x = k) xs))"
  by (induction xs arbitrary: m) auto

lemma EffectiveDeviceCount_get:
  "get_int (EffectiveDeviceCount devices) drv =
    int (length (filter (\<lambda>d. \<not> overlapping d \<and> base_driver d = drv) devices))
    + int (length (filter (\<lambda>k. baseDriverName (fst k) = drv) (counter_keys devices)))"
proof -
  have ones: "sum_list (map (\<lambda>x. 1) xs) = int (length xs)" for xs :: "'b list" by (induction xs) auto
  show ?thesis
    by (simp add: EffectiveDeviceCount_def GroupOverlappingDevices_eq foldl_bump_get filter_map comp_def
        ones Let_def conj_commute)
qed

lemma counter_key_driver [simp]: "fst (counter_key d) = td_DriverName d"
  by (simp add: counter_key_def)

lemma EffectiveDeviceCount_effective:
  assumes "FilterToEffectiveDevices devices = Some eff"
  shows "get_int (EffectiveDeviceCount devices) drv = int (length (filter (\<lambda>d. base_driver d = drv) eff))"
proof -
  have eff: "eff = filter (\<lambda>d. \<not> overlapping d) devices @ map (representative devices) (counter_keys devices)"
    using assms by (simp add: FilterToEffectiveDevices_eq)
  have "base_driver (representative devices k) = baseDriverName (fst k)" if "k \<in> set (counter_keys devices)" for k
    using representative_key(2) [OF that] by (metis counter_key_driver)
  then have "filter (\<lambda>k. base_driver (representative devices k) = drv) (counter_keys devices) =
      filter (\<lambda>k. baseDriverName (fst k) = drv) (counter_keys devices)"
    by (intro filter_cong) auto
  then show ?thesis by (simp add: EffectiveDeviceCount_get eff filter_map comp_def conj_commute)
qed

text \<open>C20: \<open>FilterToEffectiveDevices\<close> never panics; its result is a selection of the given devices that
  has at most one device per physical resource, \<open>EffectiveDeviceCount\<close> counts exactly its
  devices per driver, and filtering it again changes nothing.\<close>

theorem FilterToEffectiveDevices_counts:
  "\<exists>eff. FilterToEffectiveDevices devices = Some eff
    \<and> set eff \<subseteq> set devices
    \<and> distinct (map counter_key (filter (\<lambda>d. td_ConsumesCounters d \<noteq> []) eff))
    \<and> counter_key ` set (filter (\<lambda>d. td_ConsumesCounters d \<noteq> []) eff) =
        counter_key ` set (filter (\<lambda>d. td_ConsumesCounters d \<noteq> []) devices)
    \<and> (\<forall>drv. get_int (EffectiveDeviceCount devices) drv = int (length (filter (\<lambda>d. base_driver d = drv) eff)))
    \<and> FilterToEffectiveDevices eff = Some eff"
proof -
  define eff where eff: "eff = filter (\<lambda>d. \<not> overlapping d) devices
     @ map (representative devices) (counter_keys devices)"
  have f: "FilterToEffectiveDevices devices = Some eff" by (simp add: FilterToEffectiveDevices_eq eff)
  have ov: "(\<lambda>d. td_ConsumesCounters d \<noteq> []) = overlapping" by (simp add: overlapping_def fun_eq_iff)
  have sub: "set eff \<subseteq> set devices" by (auto simp: eff representative_key(3))
  have keys: "map counter_key (filter overlapping eff) = counter_keys devices"
    by (rule effective_keys(2)) (rule eff)
  then have im: "counter_key ` set (filter overlapping eff) = counter_key ` set (filter overlapping devices)"
    by (metis (no_types, lifting) counter_keys_def list.set_map set_remdups set_sort)
  have "distinct (counter_keys devices)" by (simp add: counter_keys_def)
  with f sub keys im FilterToEffectiveDevices_idem [OF f] EffectiveDeviceCount_effective [OF f]
  show ?thesis unfolding ov by (intro exI [of _ eff]) simp
qed

section \<open>Smallest partitions\<close>

lemma min_foldl:
  "foldl (\<lambda>m d. let total = device_total d in if total < m then total else m) a ds =
    Min (insert a (device_total ` set ds))"
proof (induction ds arbitrary: a)
  case (Cons d ds)
  have "(let total = device_total d in if total < a then total else a) = min a (device_total d)"
    by (simp add: min_def Let_def)
  then have "foldl (\<lambda>m d. let total = device_total d in if total < m then total else m) a (d # ds) =
      Min (insert (min a (device_total d)) (device_total ` set ds))"
    using Cons.IH by (simp only: foldl_Cons)
  also have "\<dots> = Min (insert a (device_total ` set (d # ds)))"
    by (cases "ds = []") (simp_all add: min.assoc)
  finally show ?case .
qed simp

lemma selectSmallestPartitions_Min:
  "selectSmallestPartitions ds = filter (\<lambda>d. device_total d = Min (device_total ` set ds)) ds"
proof (cases "length ds \<le> 1")
  case True
  then show ?thesis by (cases ds) (auto simp: selectSmallestPartitions_def)
next
  case False
  then have "insert (device_total (hd ds)) (device_total ` set (tl ds)) = device_total ` set ds"
    by (cases ds) auto
  with False show ?thesis by (simp add: selectSmallestPartitions_def min_foldl)
qed

text \<open>\<open>SmallestPartitionDevices\<close> keeps, with multiplicity, exactly the devices without counters and
  the devices whose counter total is the minimum over all variants of their physical resource.\<close>

theorem SmallestPartitionDevices_minimal:
  "mset (SmallestPartitionDevices devices) =
    mset (filter (\<lambda>d. td_ConsumesCounters d = []
      \<or> device_total d = Min (device_total ` set (variants devices (counter_key d)))) devices)"
proof -
  let ?small = "\<lambda>d. device_total d = Min (device_total ` set (variants devices (counter_key d)))"
  let ?ov = "filter overlapping devices"
  have "selectSmallestPartitions (variants devices k) = filter (\<lambda>d. counter_key d = k) (filter ?small ?ov)" for k
    unfolding selectSmallestPartitions_Min by (auto simp: variants_def intro: filter_cong)
  then have "mset (concat (map (\<lambda>k. selectSmallestPartitions (variants devices k)) (counter_keys devices)))
      = mset (filter ?small ?ov)"
    using gb.buckets_mset_keys [of "counter_keys devices" counter_key "filter ?small ?ov"]
    by (simp add: gb.buckets_along_keys counter_keys_def) (auto intro!: imageI)
  then have "mset (SmallestPartitionDevices devices) =
      mset (filter (\<lambda>d. \<not> overlapping d) devices) + mset (filter ?small ?ov)"
    by (simp add: SmallestPartitionDevices_def GroupOverlappingDevices_eq comp_def Let_def)
  also have "\<dots> = mset (filter (\<lambda>d. td_ConsumesCounters d = [] \<or> ?small d) devices)"
    by (rule multiset_eqI) (simp add: overlapping_def)
  finally show ?thesis .
qed

end
