(* ===== verification/Grouping_Store.thy ===== *)
theory Grouping_Store
  imports Kube_Api
begin

text \<open>
  \<open>internal/controller/grouping.go\<close>: device groupings and the store that loads them from
  ConfigMaps.  The YAML decoder (\<open>sigs.k8s.io/yaml\<close>) is the argument \<open>unmarshal\<close>: it turns
  the text of the \<open>devices\<close> field into the list of devices, or fails.
\<close>

section \<open>Definitions\<close>

definition DeviceGroupingLabel :: string where
  "DeviceGroupingLabel = ''nodepartition.dra.k8s.io/device-grouping''"

record GroupingDevice =
  gd_Class :: string
  gd_Count :: int
  gd_Capacity :: "(string, string) gomap"

record DeviceGrouping =
  dg_Name :: string
  dg_Alignment :: string
  dg_Fallback :: string
  dg_Devices :: "GroupingDevice list"

type_synonym GroupingStore = "(string, DeviceGrouping) gomap"

type_synonym yaml_decoder = "string \<Rightarrow> GroupingDevice list option"

datatype grouping_error =
    NilGroupingConfigMap
  | MissingGroupingLabel
  | MissingGroupingField string
  | InvalidAlignment string
  | InvalidFallback string
  | DevicesYAML
  | EmptyDevices
  | DeviceWithoutClass nat
  | DeviceCountTooSmall nat int

definition NewGroupingStore :: GroupingStore where
  "NewGroupingStore = []"

text \<open>The loop over the decoded devices: the first offending entry decides the error.\<close>

fun check_devices :: "nat \<Rightarrow> GroupingDevice list \<Rightarrow> grouping_error option" where
  "check_devices i [] = None"
| "check_devices i (d # ds) =
    (if gd_Class d = '''' then Some (DeviceWithoutClass i)
     else if gd_Count d < 1 then Some (DeviceCountTooSmall i (gd_Count d))
     else check_devices (Suc i) ds)"

definition parseDeviceGrouping :: "yaml_decoder \<Rightarrow> ConfigMap \<Rightarrow> grouping_error + DeviceGrouping" where
  "parseDeviceGrouping unmarshal cm =
    (let name = get_str (cm_Data cm) ''name'';
         alignment = get_str (cm_Data cm) ''alignment'';
         fallback = get_str (cm_Data cm) ''fallback'';
         devicesYAML = get_str (cm_Data cm) ''devices''
     in if name = '''' then Inl (MissingGroupingField ''name'')
     else if alignment = '''' then Inl (MissingGroupingField ''alignment'')
     else if alignment \<notin> {''pcieRoot'', ''numaNode'', ''socket''} then Inl (InvalidAlignment alignment)
     else if fallback \<noteq> '''' \<and> fallback \<notin> {''pcieRoot'', ''numaNode'', ''socket''}
       then Inl (InvalidFallback fallback)
     else if devicesYAML = '''' then Inl (MissingGroupingField ''devices'')
     else case unmarshal devicesYAML of None \<Rightarrow> Inl DevicesYAML
       | Some devices \<Rightarrow>
           if devices = [] then Inl EmptyDevices
           else case check_devices 0 devices of Some e \<Rightarrow> Inl e
             | None \<Rightarrow> Inr \<lparr> dg_Name = name, dg_Alignment = alignment, dg_Fallback = fallback,
                 dg_Devices = devices \<rparr>)"

definition LoadFromConfigMap ::
  "yaml_decoder \<Rightarrow> ConfigMap option \<Rightarrow> GroupingStore \<Rightarrow> grouping_error + GroupingStore" where
  "LoadFromConfigMap unmarshal cmo s = (case cmo of None \<Rightarrow> Inl NilGroupingConfigMap
     | Some cm \<Rightarrow>
         if get_str (cm_Labels cm) DeviceGroupingLabel \<noteq> ''true'' then Inl MissingGroupingLabel
         else case parseDeviceGrouping unmarshal cm of Inl e \<Rightarrow> Inl e
           | Inr grouping \<Rightarrow> Inr (put (cm_key (cm_Namespace cm) (cm_Name cm)) grouping s))"

definition RemoveConfigMap :: "string \<Rightarrow> string \<Rightarrow> GroupingStore \<Rightarrow> GroupingStore" where
  "RemoveConfigMap namespace name s =
     (let key = cm_key namespace name in if has_key s key then del key s else s)"

definition GetGroupings :: "GroupingStore \<Rightarrow> DeviceGrouping list" where
  "GetGroupings s = map snd s"

section \<open>Accepted groupings\<close>

abbreviation alignments :: "string set" where
  "alignments \<equiv> {''pcieRoot'', ''numaNode'', ''socket''}"

definition wf_grouping :: "DeviceGrouping \<Rightarrow> bool" where
  "wf_grouping g = (dg_Name g \<noteq> '''' \<and> dg_Alignment g \<in> alignments
     \<and> dg_Fallback g \<in> insert '''' alignments \<and> dg_Devices g \<noteq> []
     \<and> list_all (\<lambda>d. gd_Class d \<noteq> '''' \<and> 1 \<le> gd_Count d) (dg_Devices g))"

definition accept_grouping :: "yaml_decoder \<Rightarrow> ConfigMap \<Rightarrow> DeviceGrouping option" where
  "accept_grouping unmarshal cm = (if get_str (cm_Labels cm) DeviceGroupingLabel \<noteq> ''true'' then None
     else case parseDeviceGrouping unmarshal cm of Inl _ \<Rightarrow> None | Inr g \<Rightarrow> Some g)"

lemma check_devices_None:
  "check_devices i ds = None \<longleftrightarrow> list_all (\<lambda>d. gd_Class d \<noteq> '''' \<and> 1 \<le> gd_Count d) ds"
  by (induction i ds rule: check_devices.induct) auto

lemma parseDeviceGrouping_wf: "parseDeviceGrouping unmarshal cm = Inr g \<Longrightarrow> wf_grouping g"
  unfolding parseDeviceGrouping_def Let_def wf_grouping_def
  by (auto simp: check_devices_None split: if_split_asm option.split_asm)

lemma parseDeviceGrouping_complete:
  assumes "get_str (cm_Data cm) ''name'' = dg_Name g" "get_str (cm_Data cm) ''alignment'' = dg_Alignment g"
    "get_str (cm_Data cm) ''fallback'' = dg_Fallback g" "get_str (cm_Data cm) ''devices'' \<noteq> ''''"
    "unmarshal (get_str (cm_Data cm) ''devices'') = Some (dg_Devices g)" "wf_grouping g"
  shows "parseDeviceGrouping unmarshal cm = Inr g"
  using assms(6) unfolding parseDeviceGrouping_def Let_def assms(1-3,5) wf_grouping_def
  by (auto simp: check_devices_None [THEN iffD2] assms(4))

interpretation groupings: config_store "LoadFromConfigMap unmarshal" RemoveConfigMap
  "accept_grouping unmarshal" wf_grouping for unmarshal
proof unfold_locales
  show "accept_grouping unmarshal cm = Some v \<Longrightarrow>
      LoadFromConfigMap unmarshal (Some cm) s = Inr (put (cm_key (cm_Namespace cm) (cm_Name cm)) v s)" for cm v s
    by (auto simp: accept_grouping_def LoadFromConfigMap_def split: if_splits sum.splits)
  show "accept_grouping unmarshal cm = None \<Longrightarrow> \<exists>e. LoadFromConfigMap unmarshal (Some cm) s = Inl e" for cm s
    by (auto simp: accept_grouping_def LoadFromConfigMap_def split: if_splits sum.splits)
  show "\<exists>e. LoadFromConfigMap unmarshal None s = Inl e" for s by (simp add: LoadFromConfigMap_def)
  show "map_of (RemoveConfigMap ns n s) = (map_of s)(cm_key ns n := None)" for ns n s
    by (auto simp: RemoveConfigMap_def Let_def fun_eq_iff map_of_eq_None_iff)
  show "wf_map s \<Longrightarrow> wf_map (RemoveConfigMap ns n s)" for ns n s
    by (simp add: RemoveConfigMap_def Let_def)
  show "accept_grouping unmarshal cm = Some v \<Longrightarrow> wf_grouping v" for cm v
    by (auto simp: accept_grouping_def dest: parseDeviceGrouping_wf split: if_splits sum.splits)
qed

text \<open>For every YAML decoder and every sequence of loads and removals, the grouping store holds
  exactly the last accepted grouping of each \<open>namespace/name\<close> not removed since, and each
  grouping handed to the builders is well-formed: a name, a known alignment and fallback, and a
  non-empty list of devices with a class and a count of at least one.\<close>

theorem grouping_store_refines:
  "map_of (store_run (LoadFromConfigMap unmarshal) RemoveConfigMap evs) =
     spec_run (accept_grouping unmarshal) evs
   \<and> list_all wf_grouping (GetGroupings (store_run (LoadFromConfigMap unmarshal) RemoveConfigMap evs))"
  using groupings.run_refines groupings.run_wf
  by (auto simp: list_all_iff GetGroupings_def)

end
