(* ===== verification/Sha256.thy ===== *)
theory Sha256
  imports Go_Strings "HOL-Library.Word"
begin

unbundle bit_operations_syntax

text \<open>
  \<open>crypto/sha256.Sum256\<close> (FIPS 180-4) and \<open>encoding/hex\<close>, as far as the program uses them:
  the name functions append \<open>hex.EncodeToString(h[:4])\<close>, the eight hexadecimal digits of the
  first four bytes of the digest, to a truncated name.
\<close>

type_synonym u32 = "32 word"

definition rotr :: "nat \<Rightarrow> u32 \<Rightarrow> u32" where
  "rotr n w = drop_bit n w OR push_bit (32 - n) w"

text \<open>
  The constants of FIPS 180-4, by their definition: the first 32 bits of the fractional parts of
  the cube roots of the first 64 primes, and of the square roots of the first 8 primes.
  \<open>int_root k n\<close> is the integer part of the \<open>k\<close>-th root, found bit by bit.
\<close>

definition int_root :: "nat \<Rightarrow> int \<Rightarrow> int" where
  "int_root k n = foldl (\<lambda>r b. if (r + 2 ^ b) ^ k \<le> n then r + 2 ^ b else r) 0 (rev [0..<40])"

definition small_primes :: "int list" where
  "small_primes = filter (\<lambda>p. list_all (\<lambda>d. p mod d \<noteq> 0) [2..p - 1]) [2..311]"

definition root_bits :: "nat \<Rightarrow> int \<Rightarrow> u32" where
  "root_bits k p = of_int (int_root k (p * 2 ^ (32 * k)))"

definition sha_K :: "u32 list" where
  "sha_K = map (root_bits 3) small_primes"

definition sha_init :: "u32 list" where
  "sha_init = map (root_bits 2) (take 8 small_primes)"

text \<open>Padding: the byte 0x80, zero bytes up to 56 modulo 64, the bit length in 8 bytes.\<close>

definition be_bytes :: "nat \<Rightarrow> int \<Rightarrow> int list" where
  "be_bytes n v = map (\<lambda>i. v div 256 ^ i mod 256) (rev [0..<n])"

definition sha_pad :: "int list \<Rightarrow> int list" where
  "sha_pad bs = bs @ [128] @ replicate ((119 - length bs mod 64) mod 64) 0 @
     be_bytes 8 (8 * int (length bs))"

fun be_words :: "int list \<Rightarrow> u32 list" where
  "be_words (a # b # c # d # bs) =
     of_int (((a * 256 + b) * 256 + c) * 256 + d) # be_words bs"
| "be_words _ = []"

text \<open>The message schedule: the word list is kept newest first.\<close>

definition sigma0 :: "u32 \<Rightarrow> u32" where
  "sigma0 x = rotr 7 x XOR rotr 18 x XOR drop_bit 3 x"

definition sigma1 :: "u32 \<Rightarrow> u32" where
  "sigma1 x = rotr 17 x XOR rotr 19 x XOR drop_bit 10 x"

fun sha_schedule :: "nat \<Rightarrow> u32 list \<Rightarrow> u32 list" where
  "sha_schedule 0 ws = rev ws"
| "sha_schedule (Suc n) ws =
     sha_schedule n ((sigma1 (ws ! 1) + ws ! 6 + sigma0 (ws ! 14) + ws ! 15) # ws)"

fun sha_round :: "u32 list \<Rightarrow> u32 \<times> u32 \<Rightarrow> u32 list" where
  "sha_round [a, b, c, d, e, f, g, h] (k, w) =
     (let t1 = h + (rotr 6 e XOR rotr 11 e XOR rotr 25 e) + ((e AND f) XOR (NOT e AND g)) + k + w;
          t2 = (rotr 2 a XOR rotr 13 a XOR rotr 22 a) + ((a AND b) XOR (a AND c) XOR (b AND c))
      in [t1 + t2, a, b, c, d + t1, e, f, g])"
| "sha_round hs _ = hs"

definition sha_block :: "u32 list \<Rightarrow> u32 list \<Rightarrow> u32 list" where
  "sha_block hs ws =
     map2 (+) hs (foldl sha_round hs (zip sha_K (sha_schedule 48 (rev ws))))"

fun sha_blocks :: "nat \<Rightarrow> u32 list \<Rightarrow> u32 list \<Rightarrow> u32 list" where
  "sha_blocks 0 hs ws = hs"
| "sha_blocks (Suc n) hs ws = sha_blocks n (sha_block hs (take 16 ws)) (drop 16 ws)"

definition sha256 :: "int list \<Rightarrow> u32 list" where
  "sha256 bs = (let ws = be_words (sha_pad bs) in sha_blocks (length ws div 16) sha_init ws)"

definition hex_digit :: "int \<Rightarrow> char" where
  "hex_digit d = ''0123456789abcdef'' ! nat (d mod 16)"

definition hex_u32 :: "u32 \<Rightarrow> string" where
  "hex_u32 w = map (\<lambda>i. hex_digit (uint w div 16 ^ i)) (rev [0..<8])"

text \<open>\<open>hex.EncodeToString(h[:4])\<close> for \<open>h := sha256.Sum256([]byte(s))\<close>.\<close>

definition hash8 :: "string \<Rightarrow> string" where
  "hash8 s = hex_u32 (sha256 (map of_char s) ! 0)"

lemma length_hash8 [simp]: "length (hash8 s) = 8"
  by (simp add: hash8_def hex_u32_def)

lemma hash8_chars: "c \<in> set (hash8 s) \<Longrightarrow> is_digit c \<or> is_lower c"
proof -
  have "\<forall>d<16. is_digit (''0123456789abcdef'' ! d) \<or> is_lower (''0123456789abcdef'' ! d)"
    by (simp add: All_less_Suc eval_nat_numeral is_digit_def is_lower_def)
  then have "is_digit (hex_digit n) \<or> is_lower (hex_digit n)" for n
    by (simp add: hex_digit_def nat_less_iff)
  moreover assume "c \<in> set (hash8 s)"
  ultimately show ?thesis by (auto simp: hash8_def hex_u32_def)
qed

end
