(* ===== verification/Names.thy ===== *)
theory Names
  imports Sha256 "HOL-Library.While_Combinator"
begin

text \<open>
  Object, label and request names (\<open>internal/controller/deviceclass_manager.go\<close>,
  \<open>grouping_builder.go\<close>, \<open>internal/webhook/webhook.go\<close>): the sanitizers that turn driver
  and class names into DNS labels, the truncation to Kubernetes' 63 characters, and the
  escaping of JSON pointers.

  The three sanitizers \<open>sanitizeDNSLabel\<close>, \<open>deviceClassName\<close> and
  \<open>sanitizeDeviceClassName\<close> repeat the same loop, which is \<open>sanitize_core\<close> here.  Go maps
  runes and the model maps bytes: a rune outside ASCII becomes one dash there and several
  here, and the loop that collapses dashes makes both the same.
\<close>

section \<open>Definitions\<close>

definition dns_char :: "char \<Rightarrow> char" where
  "dns_char c = (if is_lower c \<or> is_digit c \<or> c = CHR ''-'' then c
     else if is_upper c then lower_char c else CHR ''-'')"

lemma ReplaceAll_length: "length (ReplaceAll s ''--'' ''-'') \<le> length s"
  by (induction s "''--''" "''-''" rule: ReplaceAll.induct) auto

lemma ReplaceAll_shrinks:
  "sublist ''--'' s \<Longrightarrow> length (ReplaceAll s ''--'' ''-'') < length s"
proof (induction s "''--''" "''-''" rule: ReplaceAll.induct)
  case 1
  then show ?case by simp
next
  case (2 c cs)
  show ?case
  proof (cases "prefix ''--'' (c # cs)")
    case True
    then obtain r where "c # cs = ''--'' @ r" by (auto simp: prefix_def)
    then show ?thesis using ReplaceAll_length [of r] by simp
  next
    case False
    with "2.prems" have "sublist ''--'' cs" by (auto simp: sublist_Cons_right)
    with False "2.hyps"(2) show ?thesis by auto
  qed
qed

text \<open>\<open>for strings.Contains(s, "--") { s = strings.ReplaceAll(s, "--", "-") }\<close>\<close>

function collapse_dashes :: "string \<Rightarrow> string" where
  "collapse_dashes s =
     (if Contains s ''--'' then collapse_dashes (ReplaceAll s ''--'' ''-'') else s)"
  by pat_completeness auto
termination
  by (relation "measure length") (auto simp: ReplaceAll_shrinks)

declare collapse_dashes.simps [simp del]

definition sanitize_core :: "string \<Rightarrow> string \<Rightarrow> string" where
  "sanitize_core dflt s =
     (let t = Trim (collapse_dashes (map dns_char s)) (CHR ''-'') in if t = [] then dflt else t)"

definition sanitizeDNSLabel :: "string \<Rightarrow> string" where
  "sanitizeDNSLabel s =
     (let t = sanitize_core ''default'' s
      in if length t > 63 then take 54 t @ ''-'' @ hash8 t else t)"

definition deviceClassName :: "string \<Rightarrow> string \<Rightarrow> string" where
  "deviceClassName profile partType =
     (let t = sanitize_core ''default'' profile;
          suffix = ''-'' @ partType;
          maxProfileLen = 63 - length suffix;
          t' = (if length t > maxProfileLen then take (maxProfileLen - 9) t @ ''-'' @ hash8 t else t)
      in t' @ suffix)"

definition truncateLabel :: "string \<Rightarrow> string" where
  "truncateLabel s = (if length s \<le> 63 then s else take 54 s @ ''-'' @ hash8 s)"

definition sanitizeDeviceClassName :: "string \<Rightarrow> string" where
  "sanitizeDeviceClassName name = sanitize_core ''sub'' name"

definition sanitizeForName :: "string \<Rightarrow> string" where
  "sanitizeForName s = ToLower (replace_bytes ''/.:'' (CHR ''-'') s)"

definition sanitizeForRequestName :: "string \<Rightarrow> string" where
  "sanitizeForRequestName s = replace_bytes ''/.'' (CHR ''-'') (ToLower s)"

definition escapeJSONPointer :: "string \<Rightarrow> string" where
  "escapeJSONPointer s = ReplaceAll (ReplaceAll s ''~'' ''~0'') ''/'' ''~1''"

section \<open>The dash loop computes one pass of squeezing\<close>

fun squeeze :: "string \<Rightarrow> string" where
  "squeeze [] = []"
| "squeeze [c] = [c]"
| "squeeze (c # d # cs) =
     (if c = CHR ''-'' \<and> d = CHR ''-'' then squeeze (d # cs) else c # squeeze (d # cs))"

lemma ReplaceAll_Nil_iff: "ReplaceAll s ''--'' ''-'' = [] \<longleftrightarrow> s = []"
  by (cases s) auto

lemma ReplaceAll_hd: "s \<noteq> [] \<Longrightarrow> hd (ReplaceAll s ''--'' ''-'') = hd s"
  by (cases s) (auto simp: prefix_def)

lemma squeeze_Cons:
  "squeeze (c # t) = (if c = CHR ''-'' \<and> t \<noteq> [] \<and> hd t = CHR ''-'' then squeeze t else c # squeeze t)"
  by (cases t) auto

lemma squeeze_ReplaceAll: "squeeze (ReplaceAll s ''--'' ''-'') = squeeze s"
proof (induction s "''--''" "''-''" rule: ReplaceAll.induct)
  case 1
  then show ?case by simp
next
  case (2 c cs)
  show ?case
  proof (cases "prefix ''--'' (c # cs)")
    case True
    then obtain r where r: "c # cs = ''--'' @ r" by (auto simp: prefix_def)
    with "2.hyps"(1) True have "squeeze (ReplaceAll r ''--'' ''-'') = squeeze r" by simp
    then show ?thesis
      using r ReplaceAll_hd [of r] ReplaceAll_Nil_iff [of r] by (auto simp: squeeze_Cons)
  next
    case False
    then have "ReplaceAll (c # cs) ''--'' ''-'' = c # ReplaceAll cs ''--'' ''-''"
      by (simp only: ReplaceAll.simps simp_thms if_False)
    moreover have "squeeze (ReplaceAll cs ''--'' ''-'') = squeeze cs"
      using "2.hyps"(2) False by blast
    ultimately show ?thesis
      using ReplaceAll_hd [of cs] ReplaceAll_Nil_iff [of cs]
      by (simp only: squeeze_Cons) metis
  qed
qed

lemma squeeze_no_dashes: "\<not> sublist ''--'' s \<Longrightarrow> squeeze s = s"
  by (induction s rule: squeeze.induct) (auto simp: sublist_Cons_right)

lemma collapse_dashes_squeeze: "collapse_dashes s = squeeze s"
proof (induction s rule: collapse_dashes.induct)
  case (1 s)
  then show ?case
    by (subst collapse_dashes.simps) (auto simp: squeeze_ReplaceAll squeeze_no_dashes)
qed

lemma set_squeeze [simp]: "set (squeeze s) = set s"
  by (induction s rule: squeeze.induct) auto

lemma squeeze_Nil_iff [simp]: "squeeze s = [] \<longleftrightarrow> s = []"
  by (induction s rule: squeeze.induct) auto

lemma hd_squeeze: "s \<noteq> [] \<Longrightarrow> hd (squeeze s) = hd s"
  by (induction s rule: squeeze.induct) auto

lemma squeeze_clean: "\<not> sublist ''--'' (squeeze s)"
proof (induction s rule: squeeze.induct)
  case (3 c d cs)
  then show ?case
    using hd_squeeze [of "d # cs"]
    by (cases "squeeze (d # cs)") (auto simp: sublist_Cons_right)
qed (auto simp: sublist_Cons_right)

text \<open>
  C37: The loop \<open>for strings.Contains(s, "--") { s = strings.ReplaceAll(s, "--", "-") }\<close> of the
  sanitizers ends on every string, and it ends with the string in which every run of dashes is
  one dash.  The loop is written with the while combinator of the library, whose value is
  \<open>None\<close> for a loop that does not end; one pass alone is not enough, since it leaves two of three
  dashes, so a loop it has to be.
\<close>

theorem collapse_loop_terminates:
  "while_option (\<lambda>s. Contains s ''--'') (\<lambda>s. ReplaceAll s ''--'' ''-'') s = Some (collapse_dashes s)
     \<and> collapse_dashes s = squeeze s \<and> \<not> Contains (collapse_dashes s) ''--''
     \<and> Contains (ReplaceAll ''---'' ''--'' ''-'') ''--''"
proof (intro conjI)
  show "while_option (\<lambda>s. Contains s ''--'') (\<lambda>s. ReplaceAll s ''--'' ''-'') s = Some (collapse_dashes s)"
    by (induction s rule: collapse_dashes.induct)
      (subst while_option_unfold, subst collapse_dashes.simps, simp)
  show "collapse_dashes s = squeeze s" by (rule collapse_dashes_squeeze)
  show "\<not> Contains (collapse_dashes s) ''--''" by (simp add: collapse_dashes_squeeze squeeze_clean)
  show "Contains (ReplaceAll ''---'' ''--'' ''-'') ''--''" by code_simp
qed

section \<open>DNS labels\<close>

definition dns_byte :: "char \<Rightarrow> bool" where
  "dns_byte c = (is_lower c \<or> is_digit c \<or> c = CHR ''-'')"

text \<open>An RFC 1123 label without its length bound; \<open>dns_clean\<close> adds that no two dashes meet.\<close>

definition dns_label :: "string \<Rightarrow> bool" where
  "dns_label s = (s \<noteq> [] \<and> list_all dns_byte s \<and> hd s \<noteq> CHR ''-'' \<and> last s \<noteq> CHR ''-'')"

definition dns_clean :: "string \<Rightarrow> bool" where
  "dns_clean s = (dns_label s \<and> \<not> sublist ''--'' s)"

lemma is_upper_iff: "is_upper c \<longleftrightarrow> 65 \<le> (of_char c :: int) \<and> of_char c \<le> (90 :: int)"
proof -
  have "is_upper c \<longleftrightarrow> 65 \<le> (of_char c :: nat) \<and> of_char c \<le> (90 :: nat)"
    by (simp add: is_upper_def less_eq_char_def)
  moreover have "(of_char c :: int) = int (of_char c)" by (simp add: of_nat_of_char)
  ultimately show ?thesis by linarith
qed

lemma is_lower_iff: "is_lower c \<longleftrightarrow> 97 \<le> (of_char c :: int) \<and> of_char c \<le> (122 :: int)"
proof -
  have "is_lower c \<longleftrightarrow> 97 \<le> (of_char c :: nat) \<and> of_char c \<le> (122 :: nat)"
    by (simp add: is_lower_def less_eq_char_def)
  moreover have "(of_char c :: int) = int (of_char c)" by (simp add: of_nat_of_char)
  ultimately show ?thesis by linarith
qed

lemma is_lower_lower_char: "is_upper c \<Longrightarrow> is_lower (lower_char c)"
proof -
  assume up: "is_upper c"
  then have "(of_char (lower_char c) :: int) = of_char c + 32"
    by (simp add: lower_char_def is_upper_iff of_char_of)
  with up show ?thesis by (simp add: is_upper_iff is_lower_iff)
qed

lemma lower_char_id: "\<not> is_upper c \<Longrightarrow> lower_char c = c"
  by (simp add: lower_char_def)

lemma not_upper_dns: "dns_byte c \<Longrightarrow> \<not> is_upper c"
  by (auto simp: dns_byte_def is_upper_def is_lower_def is_digit_def less_eq_char_def)

lemma dns_byte_dns_char [simp]: "dns_byte (dns_char c)"
  by (auto simp: dns_byte_def dns_char_def is_lower_lower_char)

lemma dns_char_id: "dns_byte c \<Longrightarrow> dns_char c = c"
  by (auto simp: dns_byte_def dns_char_def)

lemma Trim_suffix_prefix: "\<exists>a b. s = a @ Trim s c @ b"
proof -
  let ?t = "dropWhile (\<lambda>x. x = c) s"
  have s: "s = takeWhile (\<lambda>x. x = c) s @ ?t" by simp
  have "rev ?t = takeWhile (\<lambda>x. x = c) (rev ?t) @ dropWhile (\<lambda>x. x = c) (rev ?t)" by simp
  then have "?t = Trim s c @ rev (takeWhile (\<lambda>x. x = c) (rev ?t))"
    unfolding Trim_def by (metis rev_append rev_rev_ident)
  with s show ?thesis by metis
qed

lemma sublist_Trim: "sublist (Trim s c) s"
  using Trim_suffix_prefix [of s c] by (auto simp: sublist_def)

lemma set_Trim: "x \<in> set (Trim s c) \<Longrightarrow> x \<in> set s"
  using Trim_suffix_prefix [of s c] by (metis UnCI set_append)

lemma last_Trim: "Trim s c \<noteq> [] \<Longrightarrow> last (Trim s c) \<noteq> c"
  using hd_dropWhile [of "\<lambda>x. x = c" "rev (dropWhile (\<lambda>x. x = c) s)"]
  by (simp only: Trim_def last_rev rev_is_Nil_conv) blast

lemma hd_Trim:
  assumes "Trim s c \<noteq> []"
  shows "hd (Trim s c) \<noteq> c"
proof -
  let ?t = "dropWhile (\<lambda>x. x = c) s"
  have "rev ?t = takeWhile (\<lambda>x. x = c) (rev ?t) @ dropWhile (\<lambda>x. x = c) (rev ?t)" by simp
  then have t: "?t = Trim s c @ rev (takeWhile (\<lambda>x. x = c) (rev ?t))"
    unfolding Trim_def by (metis rev_append rev_rev_ident)
  from assms have "hd (Trim s c @ r) = hd (Trim s c)" "Trim s c @ r \<noteq> []" for r
    by simp_all
  with t have "hd ?t = hd (Trim s c)" and "?t \<noteq> []"
    by metis+
  with hd_dropWhile [of "\<lambda>x. x = c" s] show ?thesis by metis
qed

lemma Trim_id: "s = [] \<or> (hd s \<noteq> c \<and> last s \<noteq> c) \<Longrightarrow> Trim s c = s"
proof (cases "s = []")
  case False
  assume "s = [] \<or> (hd s \<noteq> c \<and> last s \<noteq> c)"
  with False have "hd s \<noteq> c" "hd (rev s) \<noteq> c" by (simp_all add: hd_rev)
  with False have "dropWhile (\<lambda>x. x = c) s = s" "dropWhile (\<lambda>x. x = c) (rev s) = rev s"
    by (simp_all add: dropWhile_eq_self_iff)
  then show ?thesis by (simp add: Trim_def)
qed (simp add: Trim_def)

lemma sanitize_core_label: "dns_clean dflt \<Longrightarrow> dns_clean (sanitize_core dflt s)"
proof -
  let ?t = "Trim (squeeze (map dns_char s)) (CHR ''-'')"
  assume d: "dns_clean dflt"
  have "dns_clean ?t" if ne: "?t \<noteq> []"
  proof -
    have "list_all dns_byte ?t"
      by (auto simp: list_all_iff dest!: set_Trim)
    moreover have "\<not> sublist ''--'' ?t"
      using sublist_Trim squeeze_clean sublist_order.order_trans by blast
    ultimately show ?thesis
      using ne hd_Trim [OF ne] last_Trim [OF ne] by (simp add: dns_clean_def dns_label_def)
  qed
  with d show ?thesis by (simp add: sanitize_core_def collapse_dashes_squeeze Let_def)
qed

lemma sanitize_core_fixes: "dns_clean s \<Longrightarrow> sanitize_core dflt s = s"
proof -
  assume c: "dns_clean s"
  then have "map dns_char s = s"
    by (auto simp: dns_clean_def dns_label_def list_all_iff dns_char_id intro: map_idI)
  with c show ?thesis
    by (simp add: sanitize_core_def collapse_dashes_squeeze dns_clean_def dns_label_def
        squeeze_no_dashes Trim_id)
qed

lemma dns_clean_defaults: "dns_clean ''default''" "dns_clean ''sub''"
  by (simp_all add: dns_clean_def dns_label_def dns_byte_def is_lower_def sublist_Cons_right)

section \<open>The contract of a sanitizer\<close>

text \<open>
  The clients of a sanitizer (object names, request names) rely on two laws: whatever the
  input, the result is a DNS label, and a short input that already is one without double
  dashes comes back unchanged.
\<close>

locale dns_sanitizer =
  fixes sanitize :: "string \<Rightarrow> string"
  assumes sanitize_label: "dns_label (sanitize s)"
    and sanitize_fixes: "dns_clean s \<Longrightarrow> length s \<le> 63 \<Longrightarrow> sanitize s = s"
begin

lemma sanitize_nonempty: "sanitize s \<noteq> []"
  using sanitize_label [of s] by (simp add: dns_label_def)

lemma sanitize_bytes: "c \<in> set (sanitize s) \<Longrightarrow> dns_byte c"
  using sanitize_label [of s] by (simp add: dns_label_def list_all_iff)

lemma sanitize_inj_clean:
  "dns_clean s \<Longrightarrow> dns_clean t \<Longrightarrow> length s \<le> 63 \<Longrightarrow> length t \<le> 63 \<Longrightarrow>
    sanitize s = sanitize t \<Longrightarrow> s = t"
  by (simp add: sanitize_fixes)

lemma sanitize_no_slash: "CHR ''/'' \<notin> set (sanitize s)"
  using sanitize_bytes [of "CHR ''/''" s]
  by (auto simp: dns_byte_def is_lower_def is_digit_def)

end

lemma dns_label_hash:
  assumes "dns_label t" and "0 < n"
  shows "dns_label (take n t @ ''-'' @ hash8 t)"
proof -
  have h: "hash8 t \<noteq> []" by (metis length_hash8 list.size(3) zero_neq_numeral)
  have ok: "dns_byte c \<and> c \<noteq> CHR ''-''" if "c \<in> set (hash8 t)" for c
    using hash8_chars [OF that] by (auto simp: dns_byte_def is_digit_def is_lower_def)
  have "last (hash8 t) \<noteq> CHR ''-''" using ok h last_in_set by blast
  moreover have "dns_byte (CHR ''-'')" by (simp add: dns_byte_def)
  ultimately show ?thesis
    using assms h ok by (auto simp: dns_label_def list_all_iff dest: in_set_takeD)
qed

lemma sanitize_core_default: "dns_clean (sanitize_core ''default'' s)"
  by (rule sanitize_core_label) (rule dns_clean_defaults)

interpretation dns: dns_sanitizer sanitizeDNSLabel
proof unfold_locales
  show "dns_label (sanitizeDNSLabel s)" for s
    using sanitize_core_default [of s]
    by (simp add: sanitizeDNSLabel_def Let_def dns_label_hash dns_clean_def del: append.simps)
  show "dns_clean s \<Longrightarrow> length s \<le> 63 \<Longrightarrow> sanitizeDNSLabel s = s" for s
    by (simp add: sanitizeDNSLabel_def sanitize_core_fixes)
qed

interpretation cls: dns_sanitizer sanitizeDeviceClassName
  by unfold_locales
    (simp_all add: sanitizeDeviceClassName_def sanitize_core_fixes
      sanitize_core_label [OF dns_clean_defaults(2), unfolded dns_clean_def])

section \<open>Properties of the name functions\<close>

text \<open>\<open>sanitizeDNSLabel\<close> returns a valid RFC 1123 DNS label for every input: non-empty, at
  most 63 bytes of lower-case letters, digits and dashes, no dash at either end.\<close>

theorem sanitizeDNSLabel_valid:
  "dns_label (sanitizeDNSLabel s) \<and> length (sanitizeDNSLabel s) \<le> 63"
  using dns.sanitize_label [of s] by (simp add: sanitizeDNSLabel_def Let_def)



lemma truncateLabel_length: "length (truncateLabel s) \<le> 63"
  by (simp add: truncateLabel_def)

lemma truncateLabel_short [simp]: "length s \<le> 63 \<Longrightarrow> truncateLabel s = s"
  by (simp add: truncateLabel_def)

text \<open>
  The API server reads a patch path with \<open>~1\<close> for a slash and \<open>~0\<close> for a tilde (RFC 6901,
  one left-to-right pass).
\<close>

fun unescapeJSONPointer :: "string \<Rightarrow> string" where
  "unescapeJSONPointer [] = []"
| "unescapeJSONPointer [c] = [c]"
| "unescapeJSONPointer (c # d # cs) =
     (if c = CHR ''~'' \<and> d = CHR ''1'' then CHR ''/'' # unescapeJSONPointer cs
      else if c = CHR ''~'' \<and> d = CHR ''0'' then CHR ''~'' # unescapeJSONPointer cs
      else c # unescapeJSONPointer (d # cs))"

lemma ReplaceAll_byte: "ReplaceAll s [c] new = concat (map (\<lambda>x. if x = c then new else [x]) s)"
  by (induction s) auto

lemma escapeJSONPointer_bytes:
  "escapeJSONPointer s =
     concat (map (\<lambda>c. if c = CHR ''~'' then ''~0'' else if c = CHR ''/'' then ''~1'' else [c]) s)"
  unfolding escapeJSONPointer_def ReplaceAll_byte by (induction s) auto

lemma unescape_other:
  "c \<noteq> CHR ''~'' \<Longrightarrow> unescapeJSONPointer (c # s) = c # unescapeJSONPointer s"
  by (cases s) auto

text \<open>An annotation key escaped by \<open>escapeJSONPointer\<close> is read back unchanged from the patch
  path by RFC 6901 decoding, and the escaped token holds no slash, so it stays one path
  segment.\<close>

theorem escapeJSONPointer_roundtrip:
  "unescapeJSONPointer (escapeJSONPointer s) = s \<and> CHR ''/'' \<notin> set (escapeJSONPointer s)"
  unfolding escapeJSONPointer_bytes by (induction s) (auto simp: unescape_other)

lemma dns_char_lower:
  assumes "dns_byte c \<or> is_upper c \<or> c \<in> set ''./''"
  shows "(if lower_char c \<in> set ''/.'' then CHR ''-'' else lower_char c) = dns_char c"
proof (cases "is_upper c")
  case True
  then have "is_lower (lower_char c)" by (rule is_lower_lower_char)
  moreover have "\<not> dns_byte c" using True not_upper_dns by blast
  ultimately show ?thesis using True by (auto simp: dns_char_def dns_byte_def is_lower_def)
next
  case False
  with assms show ?thesis
    by (auto simp: lower_char_id dns_char_def dns_byte_def is_lower_def is_digit_def)
qed

lemma sanitizeForRequestName_map:
  "list_all (\<lambda>c. dns_byte c \<or> is_upper c \<or> c \<in> set ''./'') s \<Longrightarrow>
    sanitizeForRequestName s = map dns_char s"
  unfolding sanitizeForRequestName_def replace_bytes_def ToLower_def map_map comp_def
  by (rule map_cong [OF refl]) (simp only: list_all_iff dns_char_lower)

lemma map_dns_char_idem: "map dns_char (map dns_char s) = map dns_char s"
  by (simp add: dns_char_id)

text \<open>
  \<open>sanitizeForRequestName\<close> (the VMI path) and \<open>sanitizeDeviceClassName\<close> (the claim path)
  name the same sub-request exactly for class names whose dotted form needs no trimming and
  no collapsing.
\<close>

lemma request_names_agree:
  assumes "list_all (\<lambda>c. dns_byte c \<or> is_upper c \<or> c \<in> set ''./'') s"
  shows "sanitizeForRequestName s = sanitizeDeviceClassName s \<longleftrightarrow> dns_clean (map dns_char s)"
proof
  assume "sanitizeForRequestName s = sanitizeDeviceClassName s"
  then have "map dns_char s = sanitize_core ''sub'' s"
    using sanitizeForRequestName_map [OF assms] by (simp add: sanitizeDeviceClassName_def)
  then show "dns_clean (map dns_char s)"
    using sanitize_core_label [OF dns_clean_defaults(2)] by metis
next
  assume "dns_clean (map dns_char s)"
  then have "sanitize_core ''sub'' (map dns_char s) = map dns_char s" by (rule sanitize_core_fixes)
  then have "sanitize_core ''sub'' s = map dns_char s"
    by (simp only: sanitize_core_def map_dns_char_idem)
  then show "sanitizeForRequestName s = sanitizeDeviceClassName s"
    using sanitizeForRequestName_map [OF assms] by (simp add: sanitizeDeviceClassName_def)
qed

end
