(* ===== verification/Partition_Builder.thy ===== *)
theory Partition_Builder
  imports Counter_Groups Grouping_Store Names
begin

text \<open>
  \<open>internal/controller/partition_builder.go\<close>: partitions of a node at three sizes (one per
  PCIe root, one per NUMA node, the whole node) and the discovery of device pairs that share a
  PCIe root.  The quantity library is the argument \<open>Q\<close>.  Log messages are left out.
\<close>

section \<open>Types\<close>

abbreviation (input) PartitionPCIeRoot :: string where "PartitionPCIeRoot \<equiv> ''pcieroot''"
abbreviation (input) PartitionNUMA :: string where "PartitionNUMA \<equiv> ''numa''"
abbreviation (input) PartitionFull :: string where "PartitionFull \<equiv> ''full''"

record PartitionDevice =
  pd_Name :: string
  pd_NodeName :: string
  pd_Type :: string
  pd_NUMANodes :: "int list"
  pd_PCIeRoots :: "string list"
  pd_Sockets :: "int list"
  pd_DeviceCounts :: "(string, int) gomap"
  pd_DeviceCapacity :: "(string, (string, string) gomap) gomap"
  pd_Devices :: "TopologyDevice list"
  pd_CPUCount :: int
  pd_MemoryBytes :: int
  pd_ExtendedAttributes :: "(string, DeviceAttributeValue) gomap"
  pd_Profile :: string

record PartitionResult =
  pr_NodeName :: string
  pr_Profile :: string
  pr_Partitions :: "PartitionDevice list"

section \<open>Grouping helpers\<close>

definition groupDevicesByAttribute ::
  "TopologyDevice list \<Rightarrow> (TopologyDevice \<Rightarrow> string) \<Rightarrow> (string, TopologyDevice list) gomap" where
  "groupDevicesByAttribute devices keyFn = foldl (\<lambda>groups d. push (keyFn d) d groups) [] devices"

definition groupDevicesByExtendedAttribute ::
  "TopologyDevice list \<Rightarrow> string \<Rightarrow> (string, TopologyDevice list) gomap" where
  "groupDevicesByExtendedAttribute devices attribute =
    foldl (\<lambda>groups d. case map_of (td_ExtendedAttributes d) attribute of
        None \<Rightarrow> push ''none'' d groups
      | Some val \<Rightarrow> push (attr_String val) d groups) [] devices"

text \<open>The loop of \<open>devicesShareAttribute\<close>, with the first value seen.\<close>

fun share_from :: "string option \<Rightarrow> TopologyDevice list \<Rightarrow> string \<Rightarrow> bool" where
  "share_from firstVal [] attribute = True"
| "share_from firstVal (d # ds) attribute =
    (case map_of (td_ExtendedAttributes d) attribute of
       None \<Rightarrow> share_from firstVal ds attribute
     | Some val \<Rightarrow>
         (case firstVal of
            None \<Rightarrow> share_from (Some (attr_String val)) ds attribute
          | Some s \<Rightarrow> if attr_String val \<noteq> s then False else share_from firstVal ds attribute))"

definition devicesShareAttribute :: "TopologyDevice list \<Rightarrow> string \<Rightarrow> bool" where
  "devicesShareAttribute devices attribute = share_from None devices attribute"

definition validateGroupingAlignment :: "TopologyDevice list \<Rightarrow> TopologyRule \<Rightarrow> bool" where
  "validateGroupingAlignment devices rule =
    (let byNUMA = foldl (\<lambda>m d. case td_NUMANode d of
           Some n \<Rightarrow> if base_driver d = tr_Driver rule then push n d m else m
         | None \<Rightarrow> m) [] devices
     in list_all (\<lambda>(n, group). devicesShareAttribute group (tr_Attribute rule)) byNUMA)"

definition divideQuantity :: "quantity_lib \<Rightarrow> string \<Rightarrow> int \<Rightarrow> string" where
  "divideQuantity Q qty divisor =
    (if divisor \<le> 0 then ''''
     else case ParseQuantity Q qty of None \<Rightarrow> ''''
       | Some q \<Rightarrow>
           let divided = quot (q_Value q) divisor in
           if divided \<le> 0 then '''' else q_String (NewQuantity Q divided (q_Format q)))"

definition inferProfile :: "(string, int) gomap \<Rightarrow> string" where
  "inferProfile driverDeviceCounts =
    (let parts = sort (keys driverDeviceCounts)
     in if parts = [] then ''unknown'' else Join parts ''_'')"

definition pcie_key :: "TopologyDevice \<Rightarrow> string" where
  "pcie_key d = (case td_PCIeRoot d of Some r \<Rightarrow> r | None \<Rightarrow> '''')"

definition numa_key :: "TopologyDevice \<Rightarrow> string" where
  "numa_key d = (case td_NUMANode d of Some n \<Rightarrow> itoa n | None \<Rightarrow> '''')"

section \<open>Building partitions\<close>

definition buildPartitionFromDevices ::
  "string \<Rightarrow> string \<Rightarrow> string \<Rightarrow> string \<Rightarrow> TopologyDevice list \<Rightarrow> PartitionDevice" where
  "buildPartitionFromDevices name nodeName profile partType devices =
    \<lparr> pd_Name = name, pd_NodeName = nodeName, pd_Type = partType,
      pd_NUMANodes = sort (collect_set td_NUMANode devices),
      pd_PCIeRoots = sort (collect_set td_PCIeRoot devices),
      pd_Sockets = sort (collect_set td_Socket devices),
      pd_DeviceCounts = EffectiveDeviceCount devices,
      pd_DeviceCapacity = [],
      pd_Devices = devices, pd_CPUCount = 0, pd_MemoryBytes = 0,
      pd_ExtendedAttributes = foldl (\<lambda>m d. merge_new m (td_ExtendedAttributes d)) [] devices,
      pd_Profile = profile \<rparr>"

text \<open>One grouping rule applied to the groups: a group whose devices disagree on the attribute is
  split by its value.\<close>

definition split_groups ::
  "TopologyRule \<Rightarrow> (string, TopologyDevice list) gomap \<Rightarrow> (string, TopologyDevice list) gomap" where
  "split_groups rule validGroups =
    foldl (\<lambda>splitGroups (key, devices).
        if \<not> devicesShareAttribute devices (tr_Attribute rule)
        then foldl (\<lambda>sg (subKey, subDevices). put (key @ ''-'' @ subKey) subDevices sg) splitGroups
               (groupDevicesByExtendedAttribute devices (tr_Attribute rule))
        else put key devices splitGroups) [] validGroups"

definition enrich_capacity :: "TopologyDevice list \<Rightarrow> PartitionDevice \<Rightarrow> PartitionDevice" where
  "enrich_capacity devices p = foldl (\<lambda>p d.
      if td_Capacity d \<noteq> [] then p\<lparr>pd_DeviceCapacity := put_new (base_driver d) (td_Capacity d) (pd_DeviceCapacity p)\<rparr>
      else p) p devices"

definition group_partition ::
  "string \<Rightarrow> string \<Rightarrow> string \<Rightarrow> (string, TopologyDevice list) gomap \<Rightarrow> nat \<Rightarrow> string \<Rightarrow> PartitionDevice" where
  "group_partition nodeName profile partType validGroups i key =
    (let devices = get_list validGroups key in
     enrich_capacity devices
       (buildPartitionFromDevices (nodeName @ ''-'' @ partType @ ''-'' @ itoa (int i))
          nodeName profile partType devices))"

definition buildPartitionsFromGroups ::
  "string \<Rightarrow> string \<Rightarrow> string \<Rightarrow> (string, TopologyDevice list) gomap \<Rightarrow> TopologyRule list \<Rightarrow>
     PartitionDevice list" where
  "buildPartitionsFromGroups nodeName profile partType groups groupingRules =
    (let validGroups = filter (\<lambda>(key, devices). key \<noteq> '''') groups in
     if length validGroups \<le> 1 then []
     else
       let validGroups = foldl (\<lambda>vg rule. split_groups rule vg) validGroups groupingRules
       in map (\<lambda>(i, key). group_partition nodeName profile partType validGroups i key)
            (enumerate 0 (sort (keys validGroups))))"

text \<open>\<open>numaPCIeRoots\<close>: the PCIe roots seen on each NUMA node.\<close>

definition numa_pcie_roots :: "TopologyDevice list \<Rightarrow> (string, string list) gomap" where
  "numa_pcie_roots allDevices = foldl (\<lambda>m d.
      case (td_NUMANode d, td_PCIeRoot d) of
        (Some n, Some r) \<Rightarrow> put (itoa n) (set_add r (get_list m (itoa n))) m
      | _ \<Rightarrow> m) [] allDevices"

text \<open>The share of one NUMA device's capacity added to a PCIe root partition.\<close>

definition divide_capacity :: "quantity_lib \<Rightarrow> int \<Rightarrow> (string, string) gomap \<Rightarrow> (string, string) gomap" where
  "divide_capacity Q numRoots cap = foldl (\<lambda>m (capName, capVal).
      let dv = divideQuantity Q capVal numRoots in if dv \<noteq> '''' then put capName dv m else m) [] cap"

definition add_share :: "quantity_lib \<Rightarrow> int \<Rightarrow> PartitionDevice \<Rightarrow> TopologyDevice \<Rightarrow> PartitionDevice" where
  "add_share Q numRoots p d =
    (let driver = base_driver d in
     if td_Capacity d \<noteq> [] \<and> get_int (pd_DeviceCounts p) driver = 0 then
       let capPerPartition = divide_capacity Q numRoots (td_Capacity d) in
       if capPerPartition \<noteq> []
       then p\<lparr>pd_DeviceCapacity := put driver capPerPartition (pd_DeviceCapacity p),
              pd_DeviceCounts := put driver 1 (pd_DeviceCounts p),
              pd_Devices := pd_Devices p @ [d]\<rparr>
       else p
     else p)"

text \<open>\<open>parentNUMA\<close>: the NUMA key of the first device of the root that has one.\<close>

definition parent_numa :: "TopologyDevice list \<Rightarrow> string" where
  "parent_numa devices = (case find (\<lambda>d. td_NUMANode d \<noteq> None) devices of
     Some d \<Rightarrow> numa_key d | None \<Rightarrow> '''')"

text \<open>The body of the loop over the sorted PCIe root keys.\<close>

definition pcie_partition ::
  "quantity_lib \<Rightarrow> string \<Rightarrow> string \<Rightarrow> (string, TopologyDevice list) gomap \<Rightarrow>
     (string, TopologyDevice list) gomap \<Rightarrow> (string, string list) gomap \<Rightarrow> nat \<Rightarrow> string \<Rightarrow> PartitionDevice" where
  "pcie_partition Q nodeName profile byNUMA byPCIeRoot numaPCIeRoots idx pcieKey =
    (let devices = get_list byPCIeRoot pcieKey;
         p = buildPartitionFromDevices (nodeName @ ''-pcieRoot-'' @ itoa (int idx))
               nodeName profile PartitionPCIeRoot devices;
         parentNUMA = parent_numa devices
     in if parentNUMA \<noteq> '''' then
          let numRoots = int (length (get_list numaPCIeRoots parentNUMA)) in
          if numRoots > 0 then foldl (add_share Q numRoots) p (get_list byNUMA parentNUMA) else p
        else p)"

definition buildPCIeRootPartitions ::
  "quantity_lib \<Rightarrow> string \<Rightarrow> string \<Rightarrow> (string, TopologyDevice list) gomap \<Rightarrow>
     (string, TopologyDevice list) gomap \<Rightarrow> TopologyDevice list \<Rightarrow> PartitionDevice list" where
  "buildPCIeRootPartitions Q nodeName profile byNUMA byPCIeRoot allDevices =
    (let numaPCIeRoots = numa_pcie_roots allDevices;
         pcieKeys = sort (filter (\<lambda>k. k \<noteq> '''') (keys byPCIeRoot))
     in map (\<lambda>(idx, pcieKey). pcie_partition Q nodeName profile byNUMA byPCIeRoot numaPCIeRoots idx pcieKey)
          (enumerate 0 pcieKeys))"

definition buildFullPartition ::
  "string \<Rightarrow> string \<Rightarrow> TopologyDevice list \<Rightarrow> PartitionDevice option" where
  "buildFullPartition nodeName profile devices =
    (if devices = [] then None
     else Some (buildPartitionFromDevices (nodeName @ ''-full-0'') nodeName profile PartitionFull devices))"

definition buildNodePartitions ::
  "quantity_lib \<Rightarrow> string \<Rightarrow> NodeTopology \<Rightarrow> TopologyRule list \<Rightarrow> PartitionResult option" where
  "buildNodePartitions Q nodeName nodeTopo groupingRules =
    (let allDevices = AllDevices nodeTopo in
     if allDevices = [] then Some \<lparr> pr_NodeName = nodeName, pr_Profile = '''', pr_Partitions = [] \<rparr>
     else
       let ng = GroupOverlappingDevices allDevices in
       do {
         reps \<leftarrow> those (map (\<lambda>g. selectRepresentative (prg_Devices g)) (snd ng));
         let effectiveDevices = fst ng @ reps;
         let driverDeviceCounts =
           foldl (\<lambda>m g. bump (baseDriverName (prg_DriverName g)) (prg_MaxEffective g) m)
             (foldl (\<lambda>m d. bump (base_driver d) 1 m) [] (fst ng)) (snd ng);
         let byPCIeRoot = groupDevicesByAttribute effectiveDevices pcie_key;
         let byNUMA = groupDevicesByAttribute effectiveDevices numa_key;
         let profile = inferProfile driverDeviceCounts;
         Some \<lparr> pr_NodeName = nodeName, pr_Profile = profile,
           pr_Partitions =
             buildPCIeRootPartitions Q nodeName profile byNUMA byPCIeRoot effectiveDevices
             @ buildPartitionsFromGroups nodeName profile PartitionNUMA byNUMA groupingRules
             @ (case buildFullPartition nodeName profile effectiveDevices of Some p \<Rightarrow> [p] | None \<Rightarrow> []) \<rparr>
       })"

definition BuildPartitions ::
  "quantity_lib \<Rightarrow> TopologyModel \<Rightarrow> TopologyRuleStore \<Rightarrow> PartitionResult list option" where
  "BuildPartitions Q model rules =
    do {
      results \<leftarrow> those (map (\<lambda>(nodeName, nodeTopo).
        buildNodePartitions Q nodeName nodeTopo (GetGroupingRules rules)) (GetNodeTopologies model));
      Some (filter (\<lambda>r. pr_Partitions r \<noteq> []) results)
    }"

section \<open>Pairings\<close>

text \<open>The pairs \<open>(drivers[i], drivers[j])\<close> with \<open>i < j\<close> in the order of the two nested loops.\<close>

fun driver_pairs :: "string list \<Rightarrow> (string \<times> string) list" where
  "driver_pairs [] = []"
| "driver_pairs (a # ds) = map (\<lambda>b. (a, b)) ds @ driver_pairs ds"

definition pairing :: "TopologyRuleStore \<Rightarrow> string \<times> string \<Rightarrow> DeviceGrouping" where
  "pairing rules ab =
    (let classA = GetDeviceClassForDriver rules (fst ab); classB = GetDeviceClassForDriver rules (snd ab)
     in \<lparr> dg_Name = sanitizeDNSLabel (sanitizeForName classA @ ''-'' @ sanitizeForName classB @ ''-pair''),
          dg_Alignment = ''pcieRoot'', dg_Fallback = ''numaNode'',
          dg_Devices = [\<lparr> gd_Class = classA, gd_Count = 1, gd_Capacity = [] \<rparr>,
                        \<lparr> gd_Class = classB, gd_Count = 1, gd_Capacity = [] \<rparr>] \<rparr>)"

definition add_pairing ::
  "TopologyRuleStore \<Rightarrow> (string \<times> string) list \<times> DeviceGrouping list \<Rightarrow> string \<times> string \<Rightarrow>
     (string \<times> string) list \<times> DeviceGrouping list" where
  "add_pairing rules st pair =
    (if pair \<in> set (fst st) then st else (fst st @ [pair], snd st @ [pairing rules pair]))"

definition root_drivers :: "TopologyDevice list \<Rightarrow> (string, int) gomap" where
  "root_drivers devices = foldl (\<lambda>m d.
      if td_Capacity d \<noteq> [] \<and> td_PCIeRoot d = None then m else bump (base_driver d) 1 m) [] devices"

definition DetectPCIeRootPairings :: "TopologyModel \<Rightarrow> TopologyRuleStore \<Rightarrow> DeviceGrouping list" where
  "DetectPCIeRootPairings model rules =
    snd (foldl (\<lambda>st (nodeName, nodeTopo).
        foldl (\<lambda>st (rootKey, devices).
            if rootKey = '''' then st
            else
              let pciDrivers = root_drivers devices in
              if length pciDrivers < 2 then st
              else foldl (add_pairing rules) st (driver_pairs (sort (keys pciDrivers))))
          st (groupDevicesByAttribute (AllDevices nodeTopo) pcie_key))
      ([], []) (GetNodeTopologies model))"

section \<open>Buckets\<close>

definition ext_key :: "string \<Rightarrow> TopologyDevice \<Rightarrow> string" where
  "ext_key attribute d = (case map_of (td_ExtendedAttributes d) attribute of
     None \<Rightarrow> ''none'' | Some val \<Rightarrow> attr_String val)"

lemma groupDevicesByAttribute_group_by: "groupDevicesByAttribute devices keyFn = group_by keyFn devices"
  by (simp add: groupDevicesByAttribute_def group_by_def)

lemma groupDevicesByExtendedAttribute_group_by:
  "groupDevicesByExtendedAttribute devices attribute = group_by (ext_key attribute) devices"
proof -
  have "(\<lambda>groups d. case map_of (td_ExtendedAttributes d) attribute of
        None \<Rightarrow> push ''none'' d groups | Some val \<Rightarrow> push (attr_String val) d groups) =
      (\<lambda>groups d. push (ext_key attribute d) d groups)"
    by (simp add: ext_key_def fun_eq_iff split: option.splits)
  then show ?thesis by (simp add: groupDevicesByExtendedAttribute_def group_by_def)
qed

interpretation attr: bucketing keyFn "\<lambda>devices. groupDevicesByAttribute devices keyFn" for keyFn
  by unfold_locales (simp_all add: groupDevicesByAttribute_group_by group_simps)

interpretation ext: bucketing "ext_key attribute" "\<lambda>devices. groupDevicesByExtendedAttribute devices attribute"
  for attribute
  by unfold_locales (simp_all add: groupDevicesByExtendedAttribute_group_by group_simps)

definition ext_values :: "TopologyDevice list \<Rightarrow> string \<Rightarrow> string set" where
  "ext_values devices attribute =
     {attr_String v | d v. d \<in> set devices \<and> map_of (td_ExtendedAttributes d) attribute = Some v}"

lemma ext_values_Cons:
  "ext_values (d # ds) attribute = (case map_of (td_ExtendedAttributes d) attribute of
     None \<Rightarrow> ext_values ds attribute | Some v \<Rightarrow> insert (attr_String v) (ext_values ds attribute))"
  by (auto simp: ext_values_def split: option.splits)

lemma share_from_Some: "share_from (Some s) devices attribute \<longleftrightarrow> ext_values devices attribute \<subseteq> {s}"
  by (induction devices) (auto simp: ext_values_Cons ext_values_def [of "[]"] split: option.splits)

lemma devicesShareAttribute_iff:
  "devicesShareAttribute devices attribute \<longleftrightarrow> (\<exists>s. ext_values devices attribute \<subseteq> {s})"
proof (induction devices)
  case Nil
  show ?case by (simp add: devicesShareAttribute_def ext_values_def)
next
  case (Cons d ds)
  then show ?case
    by (auto simp: devicesShareAttribute_def share_from_Some ext_values_Cons split: option.splits)
qed

text \<open>After one split by an attribute every group agrees on it, unless a missing value and the
  literal value \<open>none\<close> meet, which still counts as agreement.\<close>

lemma split_group_shares:
  assumes "(subKey, sub) \<in> set (groupDevicesByExtendedAttribute devices attribute)"
  shows "devicesShareAttribute sub attribute"
proof -
  have "ext_values sub attribute \<subseteq> {subKey}"
    using ext.bucket_homogeneous [OF assms] by (fastforce simp: ext_values_def ext_key_def)
  then show ?thesis by (auto simp: devicesShareAttribute_iff)
qed

section \<open>Dividing capacity\<close>

text \<open>
  What the code relies on of \<open>resource.Quantity\<close>: the text of a positive quantity made by
  \<open>NewQuantity\<close> is not empty and parses back to the same value.
\<close>

definition quantity_laws :: "quantity_lib \<Rightarrow> bool" where
  "quantity_laws Q = (\<forall>v fmt. 0 < v \<longrightarrow> q_String (NewQuantity Q v fmt) \<noteq> '''' \<and>
     (\<exists>q. ParseQuantity Q (q_String (NewQuantity Q v fmt)) = Some q \<and> q_Value q = v))"

definition qty_value :: "quantity_lib \<Rightarrow> string \<Rightarrow> int" where
  "qty_value Q s = (case ParseQuantity Q s of Some q \<Rightarrow> q_Value q | None \<Rightarrow> 0)"

lemma divideQuantity_nonempty:
  assumes "divideQuantity Q qty n \<noteq> ''''" and "quantity_laws Q"
  shows "0 < n" and "qty_value Q (divideQuantity Q qty n) = qty_value Q qty div n"
    and "0 < qty_value Q qty div n"
proof -
  from assms(1) obtain q where q: "ParseQuantity Q qty = Some q" "0 < n" "0 < quot (q_Value q) n"
    "divideQuantity Q qty n = q_String (NewQuantity Q (quot (q_Value q) n) (q_Format q))"
    by (auto simp: divideQuantity_def Let_def split: if_splits option.splits)
  have "0 \<le> q_Value q" using q(2,3) quot_neg [of "q_Value q" n] by linarith
  then have eq: "quot (q_Value q) n = q_Value q div n" using q(2) by (simp add: quot_nonneg)
  show "0 < n" by (rule q(2))
  show "0 < qty_value Q qty div n" using q eq by (simp add: qty_value_def)
  show "qty_value Q (divideQuantity Q qty n) = qty_value Q qty div n"
  proof -
    obtain q' where "ParseQuantity Q (divideQuantity Q qty n) = Some q'" "q_Value q' = q_Value q div n"
      using assms(2) q(3) unfolding q(4) eq quantity_laws_def by blast
    with q(1) show ?thesis by (simp add: qty_value_def)
  qed
qed

lemma divideQuantity_bound:
  assumes "quantity_laws Q" and "0 \<le> qty_value Q qty" and "divideQuantity Q qty n \<noteq> ''''"
  shows "n * qty_value Q (divideQuantity Q qty n) \<le> qty_value Q qty"
  using divideQuantity_nonempty [OF assms(3,1)]
  by (simp add: mult.commute [of n] minus_mod_eq_mult_div [symmetric] flip: minus_mod_eq_div_mult)

text \<open>The decimal instance of the library, for concrete inputs.\<close>

definition decimal_lib :: quantity_lib where
  "decimal_lib = \<lparr> ParseQuantity = (\<lambda>s. if s \<noteq> '''' \<and> list_all is_digit s
       then Some \<lparr> q_Value = int (nat_value s), q_String = s, q_Format = DecimalSI \<rparr> else None),
     NewQuantity = (\<lambda>v fmt. \<lparr> q_Value = v, q_String = itoa v, q_Format = fmt \<rparr>) \<rparr>"

lemma decimal_lib_laws: "quantity_laws decimal_lib"
  by (auto simp: quantity_laws_def decimal_lib_def itoa_def list_all_iff dest: show_nat_digits)

text \<open>Dividing a capacity among \<open>n\<close> partitions never over-commits: the text \<open>divideQuantity\<close>
  returns, when it is not empty, parses to the exact floor of the \<open>n\<close>-th part, which is positive,
  so \<open>n\<close> shares fit into the total and less than one unit per share is lost.\<close>

theorem divideQuantity_floor:
  assumes "quantity_laws Q" and "divideQuantity Q qty n \<noteq> ''''"
  shows "0 < qty_value Q (divideQuantity Q qty n)
    \<and> n * qty_value Q (divideQuantity Q qty n) \<le> qty_value Q qty
    \<and> qty_value Q qty < n * (qty_value Q (divideQuantity Q qty n) + 1)"
proof -
  note d = divideQuantity_nonempty [OF assms(2,1)]
  have "n * (qty_value Q qty div n) + qty_value Q qty mod n = qty_value Q qty" by simp
  moreover have "0 \<le> qty_value Q qty mod n" "qty_value Q qty mod n < n" using d(1) by simp_all
  ultimately show ?thesis using d(3) unfolding d(2) distrib_left mult_1_right by linarith
qed

theorem divideQuantity_floor_witness:
  "0 < qty_value decimal_lib (divideQuantity decimal_lib ''128'' 3)
    \<and> 3 * qty_value decimal_lib (divideQuantity decimal_lib ''128'' 3) \<le> qty_value decimal_lib ''128''
    \<and> qty_value decimal_lib ''128'' < 3 * (qty_value decimal_lib (divideQuantity decimal_lib ''128'' 3) + 1)"
proof (rule divideQuantity_floor [OF decimal_lib_laws])
  show "divideQuantity decimal_lib ''128'' 3 \<noteq> ''''"
    by (simp add: divideQuantity_def decimal_lib_def is_digit_iff nat_value_def quot_def)
qed

section \<open>Shares of the parent NUMA node\<close>

lemma numa_pcie_roots_set:
  "set (get_list (numa_pcie_roots devices) n) =
    {r. \<exists>d \<in> set devices. \<exists>m. td_NUMANode d = Some m \<and> itoa m = n \<and> td_PCIeRoot d = Some r}"
proof (induction devices rule: rev_induct)
  case (snoc d devices)
  have "numa_pcie_roots (devices @ [d]) = (case (td_NUMANode d, td_PCIeRoot d) of
      (Some n, Some r) \<Rightarrow> put (itoa n) (set_add r (get_list (numa_pcie_roots devices) (itoa n)))
        (numa_pcie_roots devices)
      | _ \<Rightarrow> numa_pcie_roots devices)"
    by (simp add: numa_pcie_roots_def split: option.splits)
  with snoc show ?case by (cases "td_NUMANode d"; cases "td_PCIeRoot d") auto
qed (simp add: numa_pcie_roots_def)

lemma divide_capacity_entry:
  assumes "map_of (divide_capacity Q k cap) c = Some s"
  shows "s \<noteq> '''' \<and> (\<exists>v. (c, v) \<in> set cap \<and> s = divideQuantity Q v k)"
  using assms
proof (induction cap arbitrary: s rule: rev_induct)
  case (snoc e cap)
  obtain n v where e: "e = (n, v)" by (cases e)
  have "divide_capacity Q k (cap @ [e]) = (if divideQuantity Q v k \<noteq> ''''
      then put n (divideQuantity Q v k) (divide_capacity Q k cap) else divide_capacity Q k cap)"
    by (simp add: divide_capacity_def e Let_def)
  with snoc show ?case by (auto simp: e split: if_splits)
qed (simp add: divide_capacity_def)

lemma add_share_cases:
  "add_share Q k p d = p \<or> (td_Capacity d \<noteq> [] \<and>
    add_share Q k p d = p\<lparr>pd_DeviceCapacity := put (base_driver d) (divide_capacity Q k (td_Capacity d)) (pd_DeviceCapacity p),
      pd_DeviceCounts := put (base_driver d) 1 (pd_DeviceCounts p), pd_Devices := pd_Devices p @ [d]\<rparr>)"
  by (simp add: add_share_def Let_def)

lemma shares_frame:
  "pd_Name (foldl (add_share Q k) p ds) = pd_Name p \<and> pd_Type (foldl (add_share Q k) p ds) = pd_Type p
   \<and> pd_PCIeRoots (foldl (add_share Q k) p ds) = pd_PCIeRoots p
   \<and> (\<exists>extra. pd_Devices (foldl (add_share Q k) p ds) = pd_Devices p @ extra \<and> set extra \<subseteq> set ds)"
proof (induction ds rule: rev_induct)
  case (snoc d ds)
  then show ?case
    using add_share_cases [of Q k "foldl (add_share Q k) p ds" d] by auto
qed simp

lemma shares_capacity:
  assumes "map_of (pd_DeviceCapacity (foldl (add_share Q k) p ds)) drv = Some cap"
  shows "map_of (pd_DeviceCapacity p) drv = Some cap \<or>
    (\<exists>d \<in> set ds. base_driver d = drv \<and> td_Capacity d \<noteq> [] \<and> cap = divide_capacity Q k (td_Capacity d))"
  using assms
proof (induction ds rule: rev_induct)
  case (snoc d ds)
  then show ?case
    using add_share_cases [of Q k "foldl (add_share Q k) p ds" d] by (auto split: if_splits)
qed simp

lemma parent_numa_append: "parent_numa ds \<noteq> '''' \<Longrightarrow> parent_numa (ds @ es) = parent_numa ds"
proof -
  have "find P (ds @ es) = (case find P ds of Some d \<Rightarrow> Some d | None \<Rightarrow> find P es)" for P
    by (induction ds) auto
  then show "parent_numa ds \<noteq> '''' \<Longrightarrow> ?thesis" by (auto simp: parent_numa_def split: option.splits)
qed

lemma parent_numa_device:
  assumes "parent_numa ds \<noteq> ''''"
  shows "\<exists>d \<in> set ds. \<exists>m. td_NUMANode d = Some m \<and> parent_numa ds = itoa m"
proof -
  from assms obtain d where d: "find (\<lambda>d. td_NUMANode d \<noteq> None) ds = Some d" "parent_numa ds = numa_key d"
    by (auto simp: parent_numa_def simp del: not_None_eq split: option.splits)
  then have "d \<in> set ds" "td_NUMANode d \<noteq> None" by (auto simp: find_Some_iff)
  with d(2) show ?thesis by (auto simp: numa_key_def)
qed

text \<open>What a partition grants of a named capacity of a driver.\<close>

definition granted :: "quantity_lib \<Rightarrow> PartitionDevice \<Rightarrow> string \<Rightarrow> string \<Rightarrow> int" where
  "granted Q p driver c = (case map_of (pd_DeviceCapacity p) driver of None \<Rightarrow> 0
     | Some cap \<Rightarrow> (case map_of cap c of None \<Rightarrow> 0 | Some s \<Rightarrow> qty_value Q s))"

abbreviation pcie_part :: "quantity_lib \<Rightarrow> string \<Rightarrow> string \<Rightarrow> TopologyDevice list \<Rightarrow> nat \<Rightarrow> string \<Rightarrow> PartitionDevice" where
  "pcie_part Q node profile devices \<equiv> pcie_partition Q node profile
     (groupDevicesByAttribute devices numa_key) (groupDevicesByAttribute devices pcie_key)
     (numa_pcie_roots devices)"

lemma pcie_partition_shape:
  "pd_Name (pcie_part Q node profile devices i k) = node @ ''-pcieRoot-'' @ itoa (int i)
   \<and> pd_Type (pcie_part Q node profile devices i k) = PartitionPCIeRoot
   \<and> (\<exists>extra. pd_Devices (pcie_part Q node profile devices i k) =
        filter (\<lambda>d. pcie_key d = k) devices @ extra \<and> set extra \<subseteq> set devices)
   \<and> parent_numa (pd_Devices (pcie_part Q node profile devices i k)) =
        parent_numa (filter (\<lambda>d. pcie_key d = k) devices)"
proof -
  let ?ds = "filter (\<lambda>d. pcie_key d = k) devices"
  let ?p = "buildPartitionFromDevices (node @ ''-pcieRoot-'' @ itoa (int i)) node profile PartitionPCIeRoot ?ds"
  let ?n = "int (length (get_list (numa_pcie_roots devices) (parent_numa ?ds)))"
  let ?nd = "filter (\<lambda>d. numa_key d = parent_numa ?ds) devices"
  have b: "pd_Name ?p = node @ ''-pcieRoot-'' @ itoa (int i)" "pd_Type ?p = PartitionPCIeRoot" "pd_Devices ?p = ?ds"
    by (simp_all add: buildPartitionFromDevices_def)
  have eq: "pcie_part Q node profile devices i k =
      (if parent_numa ?ds \<noteq> '''' \<and> ?n > 0 then foldl (add_share Q ?n) ?p ?nd else ?p)"
    by (simp add: pcie_partition_def attr.bucket_get Let_def)
  show ?thesis
  proof (cases "parent_numa ?ds \<noteq> '''' \<and> ?n > 0")
    case True
    from shares_frame [of Q ?n ?p ?nd] obtain extra where
      e: "pd_Devices (foldl (add_share Q ?n) ?p ?nd) = ?ds @ extra" "set extra \<subseteq> set ?nd"
      using b by auto
    then have sub: "set extra \<subseteq> set devices" by auto
    from True have "parent_numa (?ds @ extra) = parent_numa ?ds" by (simp add: parent_numa_append)
    then show ?thesis unfolding eq if_P [OF True]
      using shares_frame [of Q ?n ?p ?nd] b e(1) sub by (auto simp only: append.assoc)
  next
    case False
    show ?thesis unfolding eq if_not_P [OF False] b by simp
  qed
qed

lemma pcie_partition_granted:
  assumes "map_of (pd_DeviceCapacity (pcie_part Q node profile devices i k)) drv = Some cap"
    and n: "n = parent_numa (filter (\<lambda>d. pcie_key d = k) devices)"
  shows "\<exists>d \<in> set devices. numa_key d = n \<and> base_driver d = drv \<and> td_Capacity d \<noteq> [] \<and>
    cap = divide_capacity Q (int (length (get_list (numa_pcie_roots devices) n))) (td_Capacity d)"
proof -
  let ?p = "buildPartitionFromDevices (node @ ''-pcieRoot-'' @ itoa (int i)) node profile PartitionPCIeRoot
    (filter (\<lambda>d. pcie_key d = k) devices)"
  let ?n = "int (length (get_list (numa_pcie_roots devices) n))"
  have "map_of (pd_DeviceCapacity (foldl (add_share Q ?n) ?p (filter (\<lambda>d. numa_key d = n) devices))) drv = Some cap"
    using assms(1) unfolding n
    by (simp add: pcie_partition_def attr.bucket_get Let_def buildPartitionFromDevices_def split: if_splits)
  from shares_capacity [OF this] show ?thesis by (auto simp: buildPartitionFromDevices_def)
qed

lemma granted_bound:
  assumes laws: "quantity_laws Q"
    and only: "filter (\<lambda>d. numa_key d = n \<and> base_driver d = drv \<and> td_Capacity d \<noteq> []) devices = [dev]"
    and cap: "wf_map (td_Capacity dev)" "map_of (td_Capacity dev) c = Some tot"
    and par: "parent_numa (filter (\<lambda>d. pcie_key d = k) devices) = n"
  shows "granted Q (pcie_part Q node profile devices i k) drv c \<in>
    insert 0 (if divideQuantity Q tot (int (length (get_list (numa_pcie_roots devices) n))) = '''' then {}
      else {qty_value Q (divideQuantity Q tot (int (length (get_list (numa_pcie_roots devices) n))))})"
proof -
  let ?m = "int (length (get_list (numa_pcie_roots devices) n))"
  have uniq: "d = dev" if "d \<in> set devices" "numa_key d = n" "base_driver d = drv" "td_Capacity d \<noteq> []" for d
  proof -
    have "d \<in> set (filter (\<lambda>d. numa_key d = n \<and> base_driver d = drv \<and> td_Capacity d \<noteq> []) devices)"
      using that by simp
    then show ?thesis unfolding only by simp
  qed
  show ?thesis
  proof (cases "map_of (pd_DeviceCapacity (pcie_part Q node profile devices i k)) drv")
    case None
    then show ?thesis by (simp add: granted_def)
  next
    case (Some cap')
    from pcie_partition_granted [OF this par [symmetric]] obtain d where
      "d \<in> set devices" "numa_key d = n" "base_driver d = drv" "td_Capacity d \<noteq> []"
      "cap' = divide_capacity Q ?m (td_Capacity d)" by (elim bexE conjE)
    with uniq [of d] have cap': "cap' = divide_capacity Q ?m (td_Capacity dev)" by simp
    show ?thesis
    proof (cases "map_of cap' c")
      case None
      with Some show ?thesis by (simp add: granted_def)
    next
      case (Some s)
      with cap' have "map_of (divide_capacity Q ?m (td_Capacity dev)) c = Some s" by simp
      from divide_capacity_entry [OF this]
      obtain v where v: "s \<noteq> ''''" "(c, v) \<in> set (td_Capacity dev)" "s = divideQuantity Q v ?m"
        by (elim exE conjE)
      with cap have "s \<noteq> ''''" "s = divideQuantity Q tot ?m" by simp_all
      with Some \<open>map_of (pd_DeviceCapacity _) drv = Some cap'\<close> show ?thesis by (simp add: granted_def)
    qed
  qed
qed

lemma roots_of_parent:
  assumes "n \<noteq> ''''" and "distinct ks" and "'''' \<notin> set ks"
  shows "length (filter (\<lambda>k. parent_numa (filter (\<lambda>d. pcie_key d = k) devices) = n) ks)
    \<le> length (get_list (numa_pcie_roots devices) n)"
proof -
  let ?ks = "filter (\<lambda>k. parent_numa (filter (\<lambda>d. pcie_key d = k) devices) = n) ks"
  have "set ?ks \<subseteq> set (get_list (numa_pcie_roots devices) n)"
  proof
    fix k assume k: "k \<in> set ?ks"
    then obtain d m where d: "d \<in> set devices" "pcie_key d = k" "td_NUMANode d = Some m" "itoa m = n"
      using parent_numa_device [of "filter (\<lambda>d. pcie_key d = k) devices"] assms(1) by auto
    moreover have "k \<noteq> ''''" using k assms(3) by auto
    ultimately have "td_PCIeRoot d = Some k" by (auto simp: pcie_key_def split: option.splits)
    with d show "k \<in> set (get_list (numa_pcie_roots devices) n)" by (auto simp: numa_pcie_roots_set)
  qed
  then have "card (set ?ks) \<le> card (set (get_list (numa_pcie_roots devices) n))" by (intro card_mono) simp_all
  also have "\<dots> \<le> length (get_list (numa_pcie_roots devices) n)" by (rule card_length)
  finally show ?thesis using assms(2) distinct_card [of ?ks] by (simp only: distinct_filter)
qed

lemma sum_list_bounded: "(\<And>x. x \<in> set xs \<Longrightarrow> f x \<le> (b :: int)) \<Longrightarrow> sum_list (map f xs) \<le> int (length xs) * b"
  by (induction xs) (auto simp: algebra_simps intro: add_mono)

abbreviation pcie_partitions :: "quantity_lib \<Rightarrow> string \<Rightarrow> string \<Rightarrow> TopologyDevice list \<Rightarrow> PartitionDevice list" where
  "pcie_partitions Q node profile devices \<equiv> buildPCIeRootPartitions Q node profile
     (groupDevicesByAttribute devices numa_key) (groupDevicesByAttribute devices pcie_key) devices"

definition pcie_roots :: "TopologyDevice list \<Rightarrow> string list" where
  "pcie_roots devices = sort (filter (\<lambda>k. k \<noteq> '''') (remdups (map pcie_key devices)))"

lemma pcie_roots_props [simp]:
  "distinct (pcie_roots devices)" "'''' \<notin> set (pcie_roots devices)" "sorted (pcie_roots devices)"
  "set (pcie_roots devices) = pcie_key ` set devices - {''''}"
  by (auto simp: pcie_roots_def)

lemma pcie_partitions_eq:
  "pcie_partitions Q node profile devices =
    map (\<lambda>(i, k). pcie_part Q node profile devices i k) (enumerate 0 (pcie_roots devices))"
proof -
  have "sort (filter (\<lambda>k. k \<noteq> '''') (keys (groupDevicesByAttribute devices pcie_key))) = pcie_roots devices"
    unfolding pcie_roots_def
    by (rule sort_set_cong) (simp_all add: attr.group_wf, auto simp flip: attr.bucket_keys)
  then show ?thesis by (simp only: buildPCIeRootPartitions_def Let_def)
qed


text \<open>Devices of a small node: a GPU on each of two PCIe roots and a CPU device they share.\<close>

definition example_device :: "string \<Rightarrow> string \<Rightarrow> string option \<Rightarrow> int \<Rightarrow> (string, string) gomap \<Rightarrow> TopologyDevice" where
  "example_device driver name root numa cap = \<lparr> td_DriverName = driver, td_DeviceName = name,
     td_NodeName = ''node1'', td_PoolName = ''pool'', td_NUMANode = Some numa, td_NUMANodes = [],
     td_PCIeRoot = root, td_PCIeRoots = [], td_Socket = None, td_ExtendedAttributes = [],
     td_Capacity = cap, td_ConsumesCounters = [] \<rparr>"

definition example_devices :: "TopologyDevice list" where
  "example_devices = [example_device ''gpu'' ''gpu0'' (Some ''pci0'') 0 [],
     example_device ''gpu'' ''gpu1'' (Some ''pci1'') 0 [],
     example_device ''cpu'' ''cpu0'' None 0 [(''cores'', ''128'')]]"


section \<open>The partitions of a node\<close>

lemma enrich_capacity_frame [simp]:
  "pd_Name (enrich_capacity ds p) = pd_Name p" "pd_Type (enrich_capacity ds p) = pd_Type p"
  "pd_Devices (enrich_capacity ds p) = pd_Devices p"
  by (induction ds arbitrary: p) (simp_all add: enrich_capacity_def)

lemma buildPartitionFromDevices_sel [simp]:
  "pd_Name (buildPartitionFromDevices nm node profile ty ds) = nm"
  "pd_Type (buildPartitionFromDevices nm node profile ty ds) = ty"
  "pd_Devices (buildPartitionFromDevices nm node profile ty ds) = ds"
  "pd_DeviceCounts (buildPartitionFromDevices nm node profile ty ds) = EffectiveDeviceCount ds"
  by (simp_all add: buildPartitionFromDevices_def)

lemma buildNodePartitions_eq:
  assumes "AllDevices nt \<noteq> []" and "FilterToEffectiveDevices (AllDevices nt) = Some eff"
    and prof: "prof = inferProfile (EffectiveDeviceCount (AllDevices nt))"
  shows "eff \<noteq> [] \<and> buildNodePartitions Q node nt rules = Some \<lparr> pr_NodeName = node, pr_Profile = prof,
     pr_Partitions = pcie_partitions Q node prof eff
       @ buildPartitionsFromGroups node prof PartitionNUMA (groupDevicesByAttribute eff numa_key) rules
       @ [buildPartitionFromDevices (node @ ''-full-0'') node prof PartitionFull eff] \<rparr>"
proof -
  let ?ng = "GroupOverlappingDevices (AllDevices nt)"
  from assms(2) obtain reps where
    reps: "those (map (\<lambda>g. selectRepresentative (prg_Devices g)) (snd ?ng)) = Some reps" "eff = fst ?ng @ reps"
    by (auto simp: FilterToEffectiveDevices_def Let_def bind_eq_Some_conv)
  have ne: "eff \<noteq> []"
  proof
    assume "eff = []"
    with assms(2) have "filter (\<lambda>d. \<not> overlapping d) (AllDevices nt) = []" "counter_keys (AllDevices nt) = []"
      by (simp_all add: FilterToEffectiveDevices_eq)
    moreover have "set (counter_keys (AllDevices nt)) = counter_key ` set (filter overlapping (AllDevices nt))"
      by (simp add: counter_keys_def)
    ultimately have "filter (\<lambda>d. \<not> overlapping d) (AllDevices nt) = []" "filter overlapping (AllDevices nt) = []"
      by simp_all
    with assms(1) show False by (cases "AllDevices nt") (auto split: if_splits)
  qed
  then show ?thesis using assms(1) reps unfolding prof
    by (simp add: buildNodePartitions_def buildFullPartition_def EffectiveDeviceCount_def Let_def)
qed

lemma map_index_enumerate: "map (\<lambda>(i, k). f i) (enumerate 0 ks) = map f [0..<length ks]"
proof -
  have "map (\<lambda>(i, k). f i) (enumerate 0 ks) = map f (map fst (enumerate 0 ks))"
    by (simp only: map_map comp_def case_prod_unfold)
  then show ?thesis by (simp only: map_fst_enumerate add_0)
qed

lemma numa_partition_names:
  "map pd_Name (buildPartitionsFromGroups node prof ty groups rules) =
    map (\<lambda>i. node @ ''-'' @ ty @ ''-'' @ itoa (int i)) [0..<length (buildPartitionsFromGroups node prof ty groups rules)]
   \<and> list_all (\<lambda>p. pd_Type p = ty) (buildPartitionsFromGroups node prof ty groups rules)"
proof (cases "length (filter (\<lambda>(key, devices). key \<noteq> '''') groups) \<le> 1")
  case True
  then show ?thesis by (simp add: buildPartitionsFromGroups_def Let_def)
next
  case False
  define vg where "vg = foldl (\<lambda>vg rule. split_groups rule vg)
    (filter (\<lambda>(key, devices). key \<noteq> '''') groups) rules"
  have eq: "buildPartitionsFromGroups node prof ty groups rules =
      map (\<lambda>(i, k). group_partition node prof ty vg i k) (enumerate 0 (sort (keys vg)))"
    using False by (simp add: buildPartitionsFromGroups_def vg_def Let_def)
  have "map pd_Name (map (\<lambda>(i, k). group_partition node prof ty vg i k) (enumerate 0 (sort (keys vg)))) =
      map (\<lambda>(i, k). node @ ''-'' @ ty @ ''-'' @ itoa (int i)) (enumerate 0 (sort (keys vg)))"
    by (simp add: group_partition_def Let_def case_prod_unfold)
  then show ?thesis unfolding eq map_index_enumerate
    by (simp add: list_all_iff group_partition_def Let_def case_prod_unfold)
qed

lemma pcie_partition_names:
  "map pd_Name (pcie_partitions Q node prof eff) =
    map (\<lambda>i. node @ ''-pcieRoot-'' @ itoa (int i)) [0..<length (pcie_roots eff)]"
proof -
  have "map pd_Name (pcie_partitions Q node prof eff) =
      map (\<lambda>(i, k). node @ ''-pcieRoot-'' @ itoa (int i)) (enumerate 0 (pcie_roots eff))"
    by (simp add: pcie_partitions_eq pcie_partition_shape case_prod_unfold)
  then show ?thesis by (simp only: map_index_enumerate)
qed

lemma node_names_distinct:
  "distinct (map (\<lambda>i. node @ ''-pcieRoot-'' @ itoa (int i)) [0..<a]
     @ map (\<lambda>i. node @ ''-'' @ ''numa'' @ ''-'' @ itoa (int i)) [0..<b] @ [node @ ''-full-0''])"
  by (auto simp: distinct_map inj_on_def)

lemma pcie_partitions_devices:
  "list_all2 (\<lambda>r p. pd_Type p = PartitionPCIeRoot \<and>
      (\<exists>shared. pd_Devices p = filter (\<lambda>d. pcie_key d = r) eff @ shared \<and> set shared \<subseteq> set eff))
    (pcie_roots eff) (pcie_partitions Q node prof eff)"
  using pcie_partition_shape [of Q node prof eff]
  by (fastforce simp: pcie_partitions_eq list_all2_conv_all_nth nth_enumerate_eq)

text \<open>C18: \<open>buildNodePartitions\<close> never panics, and what it builds from the effective devices of a node
  is: one partition per PCIe root in sorted order, holding all devices of the root followed by
  shared devices of the node; NUMA partitions; and one full partition with every effective
  device, whose counts are the numbers of effective devices per driver.  All partition names of
  a node are distinct.\<close>

theorem buildNodePartitions_spec:
  "\<exists>res eff pcie numa full. buildNodePartitions Q node nt rules = Some res
     \<and> FilterToEffectiveDevices (AllDevices nt) = Some eff
     \<and> distinct (map pd_Name (pr_Partitions res))
     \<and> pr_Partitions res = pcie @ numa @ full
     \<and> list_all2 (\<lambda>r p. pd_Type p = PartitionPCIeRoot \<and>
          (\<exists>shared. pd_Devices p = filter (\<lambda>d. pcie_key d = r) eff @ shared \<and> set shared \<subseteq> set eff))
         (pcie_roots eff) pcie
     \<and> list_all (\<lambda>p. pd_Type p = PartitionNUMA) numa
     \<and> (if eff = [] then full = []
        else \<exists>f. full = [f] \<and> pd_Type f = PartitionFull \<and> pd_Devices f = eff \<and>
          (\<forall>drv. get_int (pd_DeviceCounts f) drv = int (length (filter (\<lambda>d. base_driver d = drv) eff))))"
proof (cases "AllDevices nt = []")
  case True
  have "FilterToEffectiveDevices [] = Some []"
    by (simp add: FilterToEffectiveDevices_eq counter_keys_def)
  then show ?thesis using True
    by (intro exI [of _ "[]"] exI [of _ "\<lparr> pr_NodeName = node, pr_Profile = '''', pr_Partitions = [] \<rparr>"])
      (simp add: buildNodePartitions_def Let_def pcie_roots_def)
next
  case False
  define prof where prof: "prof = inferProfile (EffectiveDeviceCount (AllDevices nt))"
  obtain eff where eff: "FilterToEffectiveDevices (AllDevices nt) = Some eff"
    by (simp add: FilterToEffectiveDevices_eq)
  note n = buildNodePartitions_eq [OF False eff prof, of Q node rules]
  let ?numa = "buildPartitionsFromGroups node prof PartitionNUMA (groupDevicesByAttribute eff numa_key) rules"
  let ?full = "buildPartitionFromDevices (node @ ''-full-0'') node prof PartitionFull eff"
  have "distinct (map pd_Name (pcie_partitions Q node prof eff @ ?numa @ [?full]))"
    using node_names_distinct [of node "length (pcie_roots eff)" "length ?numa"]
    by (simp only: map_append pcie_partition_names numa_partition_names list.map buildPartitionFromDevices_sel)
  moreover have "get_int (pd_DeviceCounts ?full) drv = int (length (filter (\<lambda>d. base_driver d = drv) eff))" for drv
    using EffectiveDeviceCount_effective [OF FilterToEffectiveDevices_idem [OF eff]] by simp
  ultimately show ?thesis
    using n eff pcie_partitions_devices [of eff Q node prof]
      numa_partition_names [of node prof PartitionNUMA "groupDevicesByAttribute eff numa_key" rules]
    by (intro exI [of _ "pcie_partitions Q node prof eff"] exI [of _ ?numa] exI [of _ "[?full]"] exI [of _ eff]
        exI [of _ "\<lparr> pr_NodeName = node, pr_Profile = prof,
          pr_Partitions = pcie_partitions Q node prof eff @ ?numa @ [?full] \<rparr>"]) simp
qed

section \<open>NUMA partitions and grouping rules\<close>

definition split_entries ::
  "TopologyRule \<Rightarrow> string \<times> TopologyDevice list \<Rightarrow> (string \<times> TopologyDevice list) list" where
  "split_entries rule e =
    (if \<not> devicesShareAttribute (snd e) (tr_Attribute rule)
     then map (\<lambda>s. (fst e @ ''-'' @ fst s, snd s)) (groupDevicesByExtendedAttribute (snd e) (tr_Attribute rule))
     else [e])"

lemma foldl_put_append:
  "distinct (map fst (m @ es)) \<Longrightarrow> foldl (\<lambda>m e. put (fst e) (snd e) m) m es = m @ es"
proof (induction es arbitrary: m)
  case (Cons e es)
  have "put k v m = m @ [(k, v)]" if "k \<notin> fst ` set m" for k v
    using that by (induction m) (auto simp: put_def)
  from this [of "fst e" "snd e"] Cons show ?case by simp
qed simp

lemma split_groups_entries:
  "split_groups rule vg = foldl (\<lambda>m e. put (fst e) (snd e) m) [] (concat (map (split_entries rule) vg))"
proof -
  have "foldl (\<lambda>sg (key, devices).
        if \<not> devicesShareAttribute devices (tr_Attribute rule)
        then foldl (\<lambda>sg (subKey, subDevices). put (key @ ''-'' @ subKey) subDevices sg) sg
               (groupDevicesByExtendedAttribute devices (tr_Attribute rule))
        else put key devices sg) m vg =
      foldl (\<lambda>m e. put (fst e) (snd e) m) m (concat (map (split_entries rule) vg))" for m
    by (induction vg arbitrary: m) (auto simp: split_entries_def foldl_map case_prod_unfold)
  then show ?thesis by (simp only: split_groups_def)
qed

lemma split_entries_mset: "mset (concat (map snd (split_entries rule e))) = mset (snd e)"
  using ext.buckets_mset [of "snd e" "tr_Attribute rule"]
  by (simp add: split_entries_def comp_def)

lemma split_entries_key:
  assumes "e' \<in> set (split_entries rule e)" and "CHR ''-'' \<notin> set (fst e)"
  shows "takeWhile (\<lambda>c. c \<noteq> CHR ''-'') (fst e') = fst e"
    and "set (snd e') \<subseteq> set (snd e)" and "devicesShareAttribute (snd e') (tr_Attribute rule)"
proof -
  have tw: "takeWhile (\<lambda>c. c \<noteq> CHR ''-'') (fst e @ rest) = fst e" if "rest = [] \<or> hd rest = CHR ''-''" for rest
    using assms(2) that by (cases rest) (auto simp: takeWhile_append)
  consider (keep) "e' = e" "devicesShareAttribute (snd e) (tr_Attribute rule)"
    | (sub) s sd where "(s, sd) \<in> set (groupDevicesByExtendedAttribute (snd e) (tr_Attribute rule))"
        "e' = (fst e @ ''-'' @ s, sd)"
    using assms(1) by (auto simp: split_entries_def split: if_splits)
  then show "takeWhile (\<lambda>c. c \<noteq> CHR ''-'') (fst e') = fst e"
    and "set (snd e') \<subseteq> set (snd e)" and "devicesShareAttribute (snd e') (tr_Attribute rule)"
  proof (atomize (full), cases)
    case keep
    then show "takeWhile (\<lambda>c. c \<noteq> CHR ''-'') (fst e') = fst e \<and> set (snd e') \<subseteq> set (snd e)
        \<and> devicesShareAttribute (snd e') (tr_Attribute rule)"
      using tw [of "[]"] by simp
  next
    case (sub s sd)
    then show "takeWhile (\<lambda>c. c \<noteq> CHR ''-'') (fst e') = fst e \<and> set (snd e') \<subseteq> set (snd e)
        \<and> devicesShareAttribute (snd e') (tr_Attribute rule)"
      using tw [of "''-'' @ s"] ext.bucket_homogeneous [OF sub(1)] split_group_shares [OF sub(1)] by auto
  qed
qed

lemma split_entries_distinct: "distinct (map fst (split_entries rule e))"
proof -
  let ?g = "groupDevicesByExtendedAttribute (snd e) (tr_Attribute rule)"
  have "inj (\<lambda>s. fst e @ ''-'' @ s)" by (simp add: inj_on_def)
  then have "distinct (map (\<lambda>s. fst e @ ''-'' @ s) (keys ?g))"
    using ext.group_wf [of "snd e" "tr_Attribute rule"] by (metis distinct_map inj_on_subset subset_UNIV)
  then show ?thesis by (simp add: split_entries_def comp_def)
qed

lemma split_all_distinct:
  assumes "wf_map vg" and "list_all (\<lambda>e. CHR ''-'' \<notin> set (fst e)) vg"
  shows "distinct (map fst (concat (map (split_entries rule) vg)))"
  using assms
proof (induction vg)
  case (Cons e vg)
  have "x \<notin> fst ` set (split_entries rule e')" if "x \<in> fst ` set (split_entries rule e)" "e' \<in> set vg" for x e'
  proof
    assume "x \<in> fst ` set (split_entries rule e')"
    with that obtain a b where ab: "a \<in> set (split_entries rule e)" "b \<in> set (split_entries rule e')"
      "fst a = x" "fst b = x" by auto
    moreover have "CHR ''-'' \<notin> set (fst e)" "CHR ''-'' \<notin> set (fst e')"
      using Cons.prems(2) that(2) by (auto simp: list_all_iff)
    ultimately have "fst e' = fst e" using split_entries_key(1) by metis
    with that(2) have "fst e \<in> set (map fst vg)" by (metis image_eqI list.set_map)
    with Cons.prems(1) show False by simp
  qed
  with Cons split_entries_distinct [of rule e] show ?case by auto
qed simp

lemma split_groups_exact:
  assumes "wf_map vg" and "list_all (\<lambda>e. CHR ''-'' \<notin> set (fst e)) vg"
  shows "split_groups rule vg = concat (map (split_entries rule) vg)"
  unfolding split_groups_entries
  using foldl_put_append [of "[]" "concat (map (split_entries rule) vg)"] split_all_distinct [OF assms, of rule]
  by (simp only: append_Nil)

lemma split_once:
  assumes "wf_map vg" and nd: "list_all (\<lambda>e. CHR ''-'' \<notin> set (fst e)) vg"
  shows "wf_map (split_groups r vg) \<and> mset (concat (map snd (split_groups r vg))) = mset (concat (map snd vg)) \<and>
    (\<forall>e \<in> set (split_groups r vg). (\<exists>e0 \<in> set vg. set (snd e) \<subseteq> set (snd e0)) \<and>
        devicesShareAttribute (snd e) (tr_Attribute r))"
  unfolding split_groups_exact [OF assms]
proof (intro conjI ballI)
  have "mset (concat (map snd (concat (map (split_entries r) vs)))) = mset (concat (map snd vs))" for vs
    by (induction vs) (simp_all add: split_entries_mset)
  then show "mset (concat (map snd (concat (map (split_entries r) vg)))) = mset (concat (map snd vg))" .
  fix e assume "e \<in> set (concat (map (split_entries r) vg))"
  then obtain e0 where e0: "e0 \<in> set vg" "e \<in> set (split_entries r e0)" by auto
  with nd have "CHR ''-'' \<notin> set (fst e0)" by (simp add: list_all_iff)
  from split_entries_key(2,3) [OF e0(2) this] e0(1)
  show "\<exists>e0 \<in> set vg. set (snd e) \<subseteq> set (snd e0)" "devicesShareAttribute (snd e) (tr_Attribute r)" by auto
qed (rule split_all_distinct [OF assms])

lemma partitions_devices:
  assumes "wf_map vg"
  shows "mset (concat (map (get_list vg) (sort (keys vg)))) = mset (concat (map snd vg))"
proof -
  have "map (get_list vg) (keys vg) = map snd vg" using assms by (auto simp: get_or_mem)
  then have "concat (map (get_list vg) (keys vg)) = concat (map snd vg)" by (rule arg_cong)
  moreover have "mset (concat (map (get_list vg) (sort (keys vg)))) = mset (concat (map (get_list vg) (keys vg)))"
    by (simp only: mset_concat) (metis mset_map mset_sort sum_mset_sum_list)
  ultimately show ?thesis by (simp only:)
qed

lemma in_enumerate: "(i, k) \<in> set (enumerate 0 xs) \<Longrightarrow> k \<in> set xs"
  by (metis image_eqI list.set_map map_snd_enumerate snd_conv)

lemma numa_groups:
  assumes vg_def: "vg = filter (\<lambda>(key, ds). key \<noteq> '''') (groupDevicesByAttribute devices numa_key)"
  shows "wf_map vg"
    and "mset (concat (map snd vg)) = mset (filter (\<lambda>d. td_NUMANode d \<noteq> None) devices)"
    and "e \<in> set vg \<Longrightarrow> \<exists>n. fst e = itoa n \<and> (\<exists>d \<in> set devices. td_NUMANode d = Some n) \<and>
      list_all (\<lambda>d. td_NUMANode d = Some n) (snd e)"
proof -
  let ?g = "groupDevicesByAttribute devices numa_key"
  have key: "numa_key d \<noteq> '''' \<longleftrightarrow> td_NUMANode d \<noteq> None" for d
    by (simp add: numa_key_def split: option.splits)
  show "wf_map vg" unfolding vg_def using attr.group_wf [of devices numa_key] by (rule distinct_map_filter)
  have "concat (map snd vg) = filter (\<lambda>d. numa_key d \<noteq> '''') (concat (map snd ?g))"
    unfolding vg_def by (rule attr.buckets_filter [symmetric])
  then show "mset (concat (map snd vg)) = mset (filter (\<lambda>d. td_NUMANode d \<noteq> None) devices)"
    unfolding key by (simp only: mset_filter attr.buckets_mset)
  assume "e \<in> set vg"
  then have e: "fst e \<noteq> ''''" "(fst e, snd e) \<in> set ?g" by (auto simp: vg_def)
  then obtain d where d: "d \<in> set devices" "numa_key d = fst e"
    using attr.bucket_iff [of "fst e" "snd e" devices numa_key] by auto
  then obtain n where n: "td_NUMANode d = Some n" "fst e = itoa n"
    using e(1) by (auto simp: numa_key_def split: option.splits)
  have "td_NUMANode d' = Some n" if "d' \<in> set (snd e)" for d'
    using attr.bucket_homogeneous [OF e(2) that] n(2) itoa_nonempty [of n, symmetric]
    by (auto simp: numa_key_def split: option.splits)
  with n d show "\<exists>n. fst e = itoa n \<and> (\<exists>d \<in> set devices. td_NUMANode d = Some n) \<and>
      list_all (\<lambda>d. td_NUMANode d = Some n) (snd e)" by (auto simp: list_all_iff)
qed

lemma two_groups:
  assumes "d1 \<in> set devices" "d2 \<in> set devices" "td_NUMANode d1 = Some n1" "td_NUMANode d2 = Some n2" "n1 \<noteq> n2"
  shows "\<not> length (filter (\<lambda>(key, ds). key \<noteq> '''') (groupDevicesByAttribute devices numa_key)) \<le> 1"
proof -
  let ?vg = "filter (\<lambda>(key, ds). key \<noteq> '''') (groupDevicesByAttribute devices numa_key)"
  have "itoa n \<in> fst ` set ?vg" if "d \<in> set devices" "td_NUMANode d = Some n" for d n
    using attr.bucket_cover [OF that(1), of numa_key] that by (force simp: numa_key_def)
  then have "{itoa n1, itoa n2} \<subseteq> fst ` set ?vg" using assms by blast
  then have "card {itoa n1, itoa n2} \<le> card (fst ` set ?vg)" by (intro card_mono) simp_all
  also have "\<dots> \<le> length ?vg" using card_image_le [OF finite_set, of fst ?vg] card_length [of ?vg] by linarith
  finally show ?thesis using assms(5) by simp
qed



definition tagged_device :: "string \<Rightarrow> int \<Rightarrow> (string \<times> string) list \<Rightarrow> TopologyDevice" where
  "tagged_device name numa tags = (example_device ''gpu'' name None numa [])
     \<lparr>td_ExtendedAttributes := map (\<lambda>(a, v). (a, \<lparr> dav_IntValue = None, dav_StringValue = Some v,
        dav_BoolValue = None \<rparr>)) tags\<rparr>"

text \<open>With two grouping rules the names of the split groups can collide (\<open>key + "-" + subKey\<close> is
  ambiguous when a value contains a dash), one group overwrites the other, and a device of the
  node is in no NUMA partition.\<close>

theorem split_key_collision_drops_device:
  "map (map td_DeviceName \<circ> pd_Devices) (buildPartitionsFromGroups ''node1'' ''p'' PartitionNUMA
      (groupDevicesByAttribute
        [tagged_device ''d0'' 0 [(''a'', ''x''), (''b'', ''y'')], tagged_device ''d1'' 0 [(''a'', ''x''), (''b'', ''z'')],
         tagged_device ''d2'' 0 [(''a'', ''x-y''), (''b'', ''w'')], tagged_device ''d3'' 1 []] numa_key)
      [(example_rule ''r1'' ''gpu'' '''')\<lparr>tr_Attribute := ''a''\<rparr>,
       (example_rule ''r2'' ''gpu'' '''')\<lparr>tr_Attribute := ''b''\<rparr>])
   = [[''d2''], [''d1''], [''d3'']]"
  by code_simp

section \<open>Pairings are complete and unique\<close>

lemma add_pairing_foldl:
  assumes "snd st = map (pairing rules) (fst st)" and "distinct (fst st)"
  shows "snd (foldl (add_pairing rules) st ps) = map (pairing rules) (fst (foldl (add_pairing rules) st ps))
    \<and> distinct (fst (foldl (add_pairing rules) st ps))
    \<and> set (fst (foldl (add_pairing rules) st ps)) = set (fst st) \<union> set ps"
  using assms
proof (induction ps arbitrary: st)
  case (Cons p ps)
  have "snd (add_pairing rules st p) = map (pairing rules) (fst (add_pairing rules st p))"
    "distinct (fst (add_pairing rules st p))" "set (fst (add_pairing rules st p)) = insert p (set (fst st))"
    using Cons.prems by (auto simp: add_pairing_def)
  with Cons.IH [of "add_pairing rules st p"] show ?case by auto
qed simp

lemma set_driver_pairs:
  "sorted ds \<Longrightarrow> distinct ds \<Longrightarrow> set (driver_pairs ds) = {(a, b). a \<in> set ds \<and> b \<in> set ds \<and> a < b}"
  by (induction ds) (auto simp: less_le_not_le order.strict_implies_not_eq)

lemma driver_pairs_short: "length ds < 2 \<Longrightarrow> driver_pairs ds = []"
  by (cases ds rule: driver_pairs.cases) auto

lemma root_drivers_props:
  "wf_map (root_drivers devices)"
  "fst ` set (root_drivers devices) = base_driver ` {d \<in> set devices. td_Capacity d = [] \<or> td_PCIeRoot d \<noteq> None}"
proof -
  have snoc: "root_drivers (ds @ [d]) = (if td_Capacity d \<noteq> [] \<and> td_PCIeRoot d = None then root_drivers ds
      else bump (base_driver d) 1 (root_drivers ds))" for ds d
    by (simp add: root_drivers_def)
  show "wf_map (root_drivers devices)"
    by (induction devices rule: rev_induct) (auto simp: snoc, simp add: root_drivers_def)
  show "fst ` set (root_drivers devices) = base_driver ` {d \<in> set devices. td_Capacity d = [] \<or> td_PCIeRoot d \<noteq> None}"
    by (induction devices rule: rev_induct) (auto simp: snoc, simp add: root_drivers_def)
qed

definition root_pairs :: "string \<times> TopologyDevice list \<Rightarrow> (string \<times> string) list" where
  "root_pairs e = (if fst e = '''' then [] else driver_pairs (sort (keys (root_drivers (snd e)))))"

lemma foldl_concat_map: "foldl (\<lambda>st x. foldl f st (g x)) st xs = foldl f st (concat (map g xs))"
  by (induction xs arbitrary: st) simp_all

lemma DetectPCIeRootPairings_flat:
  "DetectPCIeRootPairings model rules = snd (foldl (add_pairing rules) ([], [])
     (concat (map (\<lambda>e. concat (map root_pairs (groupDevicesByAttribute (AllDevices (snd e)) pcie_key))) (tm_nodes model))))"
proof -
  have root: "(if rootKey = '''' then st
        else let pciDrivers = root_drivers devices in
          if length pciDrivers < 2 then st
          else foldl (add_pairing rules) st (driver_pairs (sort (keys pciDrivers)))) =
      foldl (add_pairing rules) st (root_pairs (rootKey, devices))" for st rootKey devices
    by (auto simp: root_pairs_def Let_def driver_pairs_short)
  have "(\<lambda>st (rootKey, devices). if rootKey = '''' then st
        else let pciDrivers = root_drivers devices in
          if length pciDrivers < 2 then st
          else foldl (add_pairing rules) st (driver_pairs (sort (keys pciDrivers)))) =
      (\<lambda>st e. foldl (add_pairing rules) st (root_pairs e))"
    by (intro ext) (simp only: case_prod_unfold root prod.collapse)
  then show ?thesis
    unfolding DetectPCIeRootPairings_def GetNodeTopologies_def foldl_concat_map [symmetric]
    by (simp only: case_prod_unfold)
qed

lemma set_root_pairs:
  assumes "(r, ds) \<in> set (groupDevicesByAttribute devices pcie_key)"
  shows "(a, b) \<in> set (root_pairs (r, ds)) \<longleftrightarrow> r \<noteq> '''' \<and> a < b \<and>
    (\<exists>d d'. d \<in> set devices \<and> d' \<in> set devices \<and> td_PCIeRoot d = Some r \<and> td_PCIeRoot d' = Some r \<and>
      base_driver d = a \<and> base_driver d' = b)"
proof (cases "r = ''''")
  case True
  then show ?thesis by (simp add: root_pairs_def)
next
  case False
  have ds: "d \<in> set ds \<longleftrightarrow> d \<in> set devices \<and> td_PCIeRoot d = Some r" for d
    using assms False by (auto simp: attr.bucket_iff pcie_key_def split: option.splits)
  have "{d \<in> set ds. td_Capacity d = [] \<or> td_PCIeRoot d \<noteq> None} = set ds" using ds by auto
  then have "set (driver_pairs (sort (keys (root_drivers ds)))) =
      {(a, b). a \<in> base_driver ` set ds \<and> b \<in> base_driver ` set ds \<and> a < b}"
    using root_drivers_props [of ds] by (simp add: set_driver_pairs)
  then have "(a, b) \<in> set (root_pairs (r, ds)) \<longleftrightarrow>
      (\<exists>d. d \<in> set ds \<and> base_driver d = a) \<and> (\<exists>d'. d' \<in> set ds \<and> base_driver d' = b) \<and> a < b"
    using False by (auto simp: root_pairs_def)
  with False show ?thesis unfolding ds by blast
qed

text \<open>C25: \<open>DetectPCIeRootPairings\<close> finds every pair exactly once: its groupings are one for each pair of
  different drivers (in name order) that have devices on a common non-empty PCIe root of some
  node, and none for any other pair.\<close>

theorem DetectPCIeRootPairings_complete:
  "\<exists>pairs. DetectPCIeRootPairings model rules = map (pairing rules) pairs \<and> distinct pairs
    \<and> set pairs = {(a, b). a < b \<and> (\<exists>n nt r d d'. (n, nt) \<in> set (tm_nodes model) \<and> r \<noteq> ''''
        \<and> d \<in> set (AllDevices nt) \<and> d' \<in> set (AllDevices nt) \<and> td_PCIeRoot d = Some r
        \<and> td_PCIeRoot d' = Some r \<and> base_driver d = a \<and> base_driver d' = b)}"
proof -
  let ?ps = "concat (map (\<lambda>e. concat (map root_pairs (groupDevicesByAttribute (AllDevices (snd e)) pcie_key))) (tm_nodes model))"
  let ?S = "\<lambda>nt r a b. r \<noteq> '''' \<and> a < b \<and> (\<exists>d d'. d \<in> set (AllDevices nt) \<and> d' \<in> set (AllDevices nt)
     \<and> td_PCIeRoot d = Some r \<and> td_PCIeRoot d' = Some r \<and> base_driver d = a \<and> base_driver d' = b)"
  have node: "(\<exists>e \<in> set (groupDevicesByAttribute (AllDevices nt) pcie_key). (a, b) \<in> set (root_pairs e)) \<longleftrightarrow>
      (\<exists>r. ?S nt r a b)" for nt a b
  proof
    assume "\<exists>e \<in> set (groupDevicesByAttribute (AllDevices nt) pcie_key). (a, b) \<in> set (root_pairs e)"
    then show "\<exists>r. ?S nt r a b" using set_root_pairs by fastforce
  next
    assume "\<exists>r. ?S nt r a b"
    then obtain r where r: "?S nt r a b" by blast
    then obtain d where "d \<in> set (AllDevices nt)" "td_PCIeRoot d = Some r" by blast
    with r have s: "?S nt r a b" "d \<in> set (AllDevices nt)" "pcie_key d = r"
      by (simp_all only: pcie_key_def option.case simp_thms)
    from attr.bucket_cover [OF s(2), of pcie_key] s(3) obtain ds where
      "(r, ds) \<in> set (groupDevicesByAttribute (AllDevices nt) pcie_key)" by auto
    with set_root_pairs [OF this, of a b] s(1)
    show "\<exists>e \<in> set (groupDevicesByAttribute (AllDevices nt) pcie_key). (a, b) \<in> set (root_pairs e)" by blast
  qed
  have "(a, b) \<in> set ?ps \<longleftrightarrow> (\<exists>n nt. (n, nt) \<in> set (tm_nodes model) \<and> (\<exists>r. ?S nt r a b))" for a b
    unfolding node [symmetric] by force
  then have "set ?ps = {(a, b). \<exists>n nt. (n, nt) \<in> set (tm_nodes model) \<and> (\<exists>r. ?S nt r a b)}"
    by (simp only: set_eq_iff split_paired_All mem_Collect_eq case_prod_conv simp_thms)
  also have "\<dots> = {(a, b). a < b \<and> (\<exists>n nt r d d'. (n, nt) \<in> set (tm_nodes model) \<and> r \<noteq> ''''
        \<and> d \<in> set (AllDevices nt) \<and> d' \<in> set (AllDevices nt) \<and> td_PCIeRoot d = Some r
        \<and> td_PCIeRoot d' = Some r \<and> base_driver d = a \<and> base_driver d' = b)}" by blast
  finally show ?thesis
    using add_pairing_foldl [of "([], [])" rules ?ps] unfolding DetectPCIeRootPairings_flat by auto
qed

lemma pairing_wf:
  "GetDeviceClassForDriver rules a \<noteq> '''' \<Longrightarrow> GetDeviceClassForDriver rules b \<noteq> '''' \<Longrightarrow>
    wf_grouping (pairing rules (a, b))"
  using dns.sanitize_nonempty by (simp add: pairing_def wf_grouping_def Let_def)

end
