(* ===== verification/Grouping_Builder.thy ===== *)
theory Grouping_Builder
  imports Partition_Builder
begin

text \<open>
  \<open>internal/controller/grouping_builder.go\<close>: instances of a device grouping on the nodes.  A
  Go panic is \<open>None\<close>.  A slice expression on a slice is checked against its capacity, not its
  length, and reads zero values in between; the capacity that \<open>append\<close> gives a slice of \<open>n\<close>
  elements is left to the Go runtime, here the argument \<open>cap\<close>.
\<close>

section \<open>Definitions\<close>

record GroupingInstance =
  gi_Name :: string
  gi_NodeName :: string
  gi_GroupingName :: string
  gi_Alignment :: string
  gi_NUMANodes :: "int list"
  gi_PCIeRoots :: "string list"
  gi_Sockets :: "int list"
  gi_DeviceCounts :: "(string, int) gomap"
  gi_DeviceCapacity :: "(string, (string, string) gomap) gomap"
  gi_Devices :: "TopologyDevice list"
  gi_ExtendedAttributes :: "(string, DeviceAttributeValue) gomap"
  gi_RailIndex :: int

record GroupingResult =
  gr_NodeName :: string
  gr_Instances :: "GroupingInstance list"

definition zero_device :: TopologyDevice where
  "zero_device = \<lparr> td_DriverName = '''', td_DeviceName = '''', td_NodeName = '''', td_PoolName = '''',
     td_NUMANode = None, td_NUMANodes = [], td_PCIeRoot = None, td_PCIeRoots = [], td_Socket = None,
     td_ExtendedAttributes = [], td_Capacity = [], td_ConsumesCounters = [] \<rparr>"

text \<open>\<open>xs[lo:hi]\<close> on a slice grown by \<open>append\<close>.\<close>

definition reslice :: "(nat \<Rightarrow> nat) \<Rightarrow> int \<Rightarrow> int \<Rightarrow> TopologyDevice list \<Rightarrow> TopologyDevice list option" where
  "reslice cap lo hi xs =
    (if 0 \<le> lo \<and> lo \<le> hi \<and> hi \<le> int (cap (length xs))
     then Some (take (nat (hi - lo)) (drop (nat lo) (xs @ replicate (cap (length xs) - length xs) zero_device)))
     else None)"

definition device_class :: "TopologyRuleStore \<Rightarrow> TopologyDevice \<Rightarrow> string" where
  "device_class rules d = GetDeviceClassForDriver rules (base_driver d)"

definition nodeHasRequiredClasses :: "TopologyRuleStore \<Rightarrow> TopologyDevice list \<Rightarrow> DeviceGrouping \<Rightarrow> bool" where
  "nodeHasRequiredClasses rules devices grouping =
    (let effectiveCounts = EffectiveDeviceCount devices;
         classCounts = foldl (\<lambda>m (driver, count). bump (GetDeviceClassForDriver rules driver) count m) [] effectiveCounts
     in list_all (\<lambda>gd. \<not> get_int classCounts (gd_Class gd) < gd_Count gd) (dg_Devices grouping))"

definition align_key :: "string \<Rightarrow> TopologyDevice \<Rightarrow> string" where
  "align_key alignment d =
    (if alignment = ''pcieRoot'' then (case td_PCIeRoot d of Some r \<Rightarrow> r | None \<Rightarrow> '''')
     else if alignment = ''numaNode'' then (case td_NUMANode d of Some n \<Rightarrow> itoa n | None \<Rightarrow> '''')
     else if alignment = ''socket'' then (case td_Socket d of Some n \<Rightarrow> itoa n | None \<Rightarrow> '''')
     else '''')"

definition groupByAlignment :: "TopologyDevice list \<Rightarrow> string \<Rightarrow> (string, TopologyDevice list) gomap" where
  "groupByAlignment devices alignment = groupDevicesByAttribute devices (align_key alignment)"

definition buildInstance ::
  "TopologyRuleStore \<Rightarrow> string \<Rightarrow> string \<Rightarrow> DeviceGrouping \<Rightarrow> string \<Rightarrow> TopologyDevice list \<Rightarrow> GroupingInstance" where
  "buildInstance rules name nodeName grouping alignment devices =
    \<lparr> gi_Name = name, gi_NodeName = nodeName, gi_GroupingName = dg_Name grouping, gi_Alignment = alignment,
      gi_NUMANodes = sort (collect_set td_NUMANode devices),
      gi_PCIeRoots = sort (collect_set td_PCIeRoot devices),
      gi_Sockets = sort (collect_set td_Socket devices),
      gi_DeviceCounts = foldl (\<lambda>m d. bump (device_class rules d) 1 m) [] devices,
      gi_DeviceCapacity = foldl (\<lambda>m gd. if gd_Capacity gd \<noteq> [] then put (gd_Class gd) (gd_Capacity gd) m else m)
        [] (dg_Devices grouping),
      gi_Devices = devices,
      gi_ExtendedAttributes = foldl (\<lambda>m d. merge_new m (td_ExtendedAttributes d)) [] devices,
      gi_RailIndex = 0 \<rparr>"

text \<open>The number of instances a group can satisfy; the division panics on a zero count.\<close>

fun max_instances :: "(string, int) gomap \<Rightarrow> int \<Rightarrow> GroupingDevice list \<Rightarrow> int option" where
  "max_instances classCounts maxInstances [] = Some maxInstances"
| "max_instances classCounts maxInstances (gd # gds) =
    (if gd_Count gd = 0 then None
     else let possible = quot (get_int classCounts (gd_Class gd)) (gd_Count gd)
       in max_instances classCounts
            (if maxInstances < 0 \<or> possible < maxInstances then possible else maxInstances) gds)"

text \<open>The devices of one instance, taken class by class after those already consumed.\<close>

fun take_devices ::
  "(nat \<Rightarrow> nat) \<Rightarrow> (string, TopologyDevice list) gomap \<Rightarrow> GroupingDevice list \<Rightarrow> (string, int) gomap \<Rightarrow>
     TopologyDevice list \<Rightarrow> ((string, int) gomap \<times> TopologyDevice list) option" where
  "take_devices cap devicesByClass [] consumed acc = Some (consumed, acc)"
| "take_devices cap devicesByClass (gd # gds) consumed acc =
    (let start = get_int consumed (gd_Class gd); end = start + gd_Count gd in
     do {
       xs \<leftarrow> reslice cap start end (get_list devicesByClass (gd_Class gd));
       take_devices cap devicesByClass gds (put (gd_Class gd) end consumed) (acc @ xs)
     })"

fun make_instances ::
  "(nat \<Rightarrow> nat) \<Rightarrow> TopologyRuleStore \<Rightarrow> string \<Rightarrow> DeviceGrouping \<Rightarrow> string \<Rightarrow>
     (string, TopologyDevice list) gomap \<Rightarrow> nat \<Rightarrow> (string, int) gomap \<Rightarrow> nat \<Rightarrow> GroupingInstance list option" where
  "make_instances cap rules nodeName grouping alignment devicesByClass 0 consumed idx = Some []"
| "make_instances cap rules nodeName grouping alignment devicesByClass (Suc n) consumed idx =
    do {
      (consumed', instanceDevices) \<leftarrow> take_devices cap devicesByClass (dg_Devices grouping) consumed [];
      let inst = buildInstance rules
        (nodeName @ ''-'' @ dg_Name grouping @ ''-'' @ sanitizeForName alignment @ ''-'' @ itoa (int idx))
        nodeName grouping alignment instanceDevices;
      rest \<leftarrow> make_instances cap rules nodeName grouping alignment devicesByClass n consumed' (Suc idx);
      Some (inst\<lparr>gi_RailIndex := int idx\<rparr> # rest)
    }"

text \<open>The loop over the sorted group keys.\<close>

fun instances_of_groups ::
  "(nat \<Rightarrow> nat) \<Rightarrow> TopologyRuleStore \<Rightarrow> string \<Rightarrow> DeviceGrouping \<Rightarrow> string \<Rightarrow>
     (string, TopologyDevice list) gomap \<Rightarrow> string list \<Rightarrow> nat \<Rightarrow> GroupingInstance list option" where
  "instances_of_groups cap rules nodeName grouping alignment groups [] idx = Some []"
| "instances_of_groups cap rules nodeName grouping alignment groups (key # ks) idx =
    do {
      effectiveGroupDevices \<leftarrow> FilterToEffectiveDevices (get_list groups key);
      let classCounts = count_by (device_class rules) effectiveGroupDevices;
      maxInstances \<leftarrow> max_instances classCounts (- 1) (dg_Devices grouping);
      if maxInstances \<le> 0 then instances_of_groups cap rules nodeName grouping alignment groups ks idx
      else do {
        let devicesByClass = group_by (device_class rules) effectiveGroupDevices;
        insts \<leftarrow> make_instances cap rules nodeName grouping alignment devicesByClass (nat maxInstances) [] idx;
        rest \<leftarrow> instances_of_groups cap rules nodeName grouping alignment groups ks (idx + nat maxInstances);
        Some (insts @ rest)
      }
    }"

definition findInstances ::
  "(nat \<Rightarrow> nat) \<Rightarrow> TopologyRuleStore \<Rightarrow> string \<Rightarrow> TopologyDevice list \<Rightarrow> DeviceGrouping \<Rightarrow> string \<Rightarrow>
     GroupingInstance list option" where
  "findInstances cap rules nodeName devices grouping alignment =
    (let groups = groupByAlignment devices alignment; ks = sort (keys groups)
     in instances_of_groups cap rules nodeName grouping alignment groups ks 0)"

definition used_key :: "TopologyDevice \<Rightarrow> string" where
  "used_key d = td_DriverName d @ ''/'' @ td_DeviceName d"

definition collectUsedDevices :: "GroupingInstance list \<Rightarrow> string list" where
  "collectUsedDevices instances =
     foldl (\<lambda>used inst. foldl (\<lambda>used d. set_add (used_key d) used) used (gi_Devices inst)) [] instances"

definition filterOutDevices :: "TopologyDevice list \<Rightarrow> string list \<Rightarrow> TopologyDevice list" where
  "filterOutDevices devices used = filter (\<lambda>d. used_key d \<notin> set used) devices"

definition evaluateGrouping ::
  "(nat \<Rightarrow> nat) \<Rightarrow> TopologyRuleStore \<Rightarrow> string \<Rightarrow> TopologyDevice list \<Rightarrow> DeviceGrouping \<Rightarrow>
     GroupingInstance list option" where
  "evaluateGrouping cap rules nodeName allDevices grouping =
    (if \<not> nodeHasRequiredClasses rules allDevices grouping then Some []
     else do {
       instances \<leftarrow> findInstances cap rules nodeName allDevices grouping (dg_Alignment grouping);
       if dg_Fallback grouping \<noteq> '''' then
         let remainingDevices = filterOutDevices allDevices (collectUsedDevices instances) in
         if remainingDevices \<noteq> [] then do {
           fallbackInstances \<leftarrow> findInstances cap rules nodeName remainingDevices grouping (dg_Fallback grouping);
           Some (instances @ fallbackInstances)
         } else Some instances
       else Some instances
     })"

definition buildNodeGroupings ::
  "(nat \<Rightarrow> nat) \<Rightarrow> TopologyRuleStore \<Rightarrow> string \<Rightarrow> NodeTopology \<Rightarrow> DeviceGrouping list \<Rightarrow> GroupingResult option" where
  "buildNodeGroupings cap rules nodeName nodeTopo groupings =
    (let allDevices = AllDevices nodeTopo in
     if allDevices = [] then Some \<lparr> gr_NodeName = nodeName, gr_Instances = [] \<rparr>
     else do {
       instances \<leftarrow> those (map (evaluateGrouping cap rules nodeName allDevices) groupings);
       Some \<lparr> gr_NodeName = nodeName, gr_Instances = concat instances \<rparr>
     })"

definition BuildGroupings ::
  "(nat \<Rightarrow> nat) \<Rightarrow> TopologyModel \<Rightarrow> TopologyRuleStore \<Rightarrow> DeviceGrouping list \<Rightarrow> GroupingResult list option" where
  "BuildGroupings cap model rules groupings =
    do {
      results \<leftarrow> those (map (\<lambda>(nodeName, nodeTopo).
        buildNodeGroupings cap rules nodeName nodeTopo groupings) (GetNodeTopologies model));
      Some (filter (\<lambda>r. gr_Instances r \<noteq> []) results)
    }"

definition numaKey :: "int list \<Rightarrow> string" where
  "numaKey numaNodes = (if numaNodes = [] then '''' else Join (map itoa numaNodes) ''-'')"

section \<open>Effective devices are a sub-multiset\<close>

lemma sum_list_mset_mono:
  "(\<And>x. x \<in> set xs \<Longrightarrow> f x \<subseteq># g x) \<Longrightarrow> sum_list (map f xs) \<subseteq># (sum_list (map g xs) :: 'a multiset)"
  by (induction xs) (auto intro: subset_mset.add_mono)

lemma effective_subset:
  assumes "FilterToEffectiveDevices devices = Some eff"
  shows "mset eff \<subseteq># mset devices"
proof -
  let ?ks = "counter_keys devices"
  have "mset (map (representative devices) ks) = sum_list (map (\<lambda>k. {#representative devices k#}) ks)" for ks
    by (induction ks) simp_all
  then have "mset (map (representative devices) ?ks) \<subseteq># sum_list (map (\<lambda>k. mset (variants devices k)) ?ks)"
    by (simp only:) (rule sum_list_mset_mono, simp add: representative_in(2))
  also have "\<dots> = mset (concat (map (variants devices) ?ks))" by (simp add: mset_concat comp_def)
  also have "\<dots> = mset (filter overlapping devices)"
    using gb.buckets_mset_keys [of ?ks counter_key "filter overlapping devices"]
    by (simp add: gb.buckets_along_keys variants_fibre counter_keys_def)
  finally have reps: "mset (map (representative devices) ?ks) \<subseteq># mset (filter overlapping devices)" .
  have "mset eff = mset (filter (\<lambda>d. \<not> overlapping d) devices) + mset (map (representative devices) ?ks)"
    using assms by (auto simp: FilterToEffectiveDevices_eq)
  also have "\<dots> \<subseteq># mset (filter (\<lambda>d. \<not> overlapping d) devices) + mset (filter overlapping devices)"
    using reps by (rule subset_mset.add_left_mono)
  also have "\<dots> = mset devices" by (metis add.commute multiset_partition mset_filter)
  finally show ?thesis .
qed

section \<open>Taking the devices of an instance\<close>

text \<open>What the code relies on of \<open>append\<close>: the capacity is at least the length.\<close>

definition cap_law :: "(nat \<Rightarrow> nat) \<Rightarrow> bool" where
  "cap_law cap = (\<forall>n. n \<le> cap n)"

lemma reslice_inside:
  assumes "cap_law cap" and "lo + c \<le> length xs"
  shows "reslice cap (int lo) (int lo + int c) xs = Some (take c (drop lo xs))"
proof -
  have "lo + c \<le> cap (length xs)" using assms by (metis cap_law_def order.trans)
  with assms(2) show ?thesis by (simp add: reslice_def)
qed

text \<open>The \<open>i\<close>-th block of a class.\<close>

definition block :: "(string \<Rightarrow> TopologyDevice list) \<Rightarrow> nat \<Rightarrow> GroupingDevice \<Rightarrow> TopologyDevice list" where
  "block L i gd = take (nat (gd_Count gd)) (drop (i * nat (gd_Count gd)) (L (gd_Class gd)))"

definition enough :: "(string \<Rightarrow> TopologyDevice list) \<Rightarrow> nat \<Rightarrow> GroupingDevice list \<Rightarrow> bool" where
  "enough L n gds = list_all (\<lambda>gd. n * nat (gd_Count gd) \<le> length (L (gd_Class gd))) gds"

lemma take_devices_block:
  assumes "cap_law cap" and "distinct (map gd_Class gds)" and "list_all (\<lambda>gd. 1 \<le> gd_Count gd) gds"
    and "enough (get_list dbc) (Suc i) gds"
    and "list_all (\<lambda>gd. get_int consumed (gd_Class gd) = int (i * nat (gd_Count gd))) gds"
  shows "\<exists>consumed'. take_devices cap dbc gds consumed acc = Some (consumed', acc @ concat (map (block (get_list dbc) i) gds))
    \<and> list_all (\<lambda>gd. get_int consumed' (gd_Class gd) = int (Suc i * nat (gd_Count gd))) gds
    \<and> (\<forall>c. c \<notin> gd_Class ` set gds \<longrightarrow> get_int consumed' c = get_int consumed c)"
  using assms(2-5)
proof (induction gds arbitrary: consumed acc)
  case (Cons gd gds)
  let ?c = "nat (gd_Count gd)" and ?xs = "get_list dbc (gd_Class gd)"
  have cnt: "gd_Count gd = int ?c" and len: "i * ?c + ?c \<le> length ?xs"
    and start: "get_int consumed (gd_Class gd) = int (i * ?c)"
    using Cons.prems by (auto simp: enough_def)
  have rs: "reslice cap (int (i * ?c)) (int (i * ?c) + gd_Count gd) ?xs = Some (block (get_list dbc) i gd)"
    using reslice_inside [OF assms(1) len] cnt by (simp add: block_def)
  let ?cons = "put (gd_Class gd) (int (i * ?c) + gd_Count gd) consumed"
  have ne: "gd_Class g \<noteq> gd_Class gd" if "g \<in> set gds" for g
    using Cons.prems(1) that by (metis distinct.simps(2) image_eqI list.set_map list.simps(9))
  have tl: "distinct (map gd_Class gds)" "list_all (\<lambda>gd. 1 \<le> gd_Count gd) gds" "enough (get_list dbc) (Suc i) gds"
    using Cons.prems(1-3) by (simp_all add: enough_def)
  have cons: "list_all (\<lambda>g. get_int ?cons (gd_Class g) = int (i * nat (gd_Count g))) gds"
    using Cons.prems(4) ne unfolding list_all_iff by (simp del: of_nat_mult)
  obtain consumed' where
    c': "take_devices cap dbc gds ?cons (acc @ block (get_list dbc) i gd) =
      Some (consumed', (acc @ block (get_list dbc) i gd) @ concat (map (block (get_list dbc) i) gds))"
    "list_all (\<lambda>gd. get_int consumed' (gd_Class gd) = int (Suc i * nat (gd_Count gd))) gds"
    "\<forall>c. c \<notin> gd_Class ` set gds \<longrightarrow> get_int consumed' c = get_int ?cons c"
    using Cons.IH [OF tl cons, of "acc @ block (get_list dbc) i gd"] by blast
  have "gd_Class gd \<notin> gd_Class ` set gds" using Cons.prems(1) by simp
  then have "get_int consumed' (gd_Class gd) = int (i * ?c) + gd_Count gd" using c'(3) by simp
  also have "\<dots> = int (Suc i * ?c)" using Cons.prems(2) by (simp add: algebra_simps)
  finally have hd: "get_int consumed' (gd_Class gd) = int (Suc i * ?c)" .
  have "take_devices cap dbc (gd # gds) consumed acc =
      Some (consumed', acc @ concat (map (block (get_list dbc) i) (gd # gds)))"
    using c'(1) rs by (simp add: start Let_def del: of_nat_mult)
  with hd c'(2,3) ne show ?case by (intro exI [of _ consumed']) (simp del: of_nat_mult mult_Suc)
qed simp

lemma max_instances_bound:
  assumes "list_all (\<lambda>gd. 1 \<le> gd_Count gd) gds" and "\<And>c. 0 \<le> get_int counts c"
  shows "\<exists>m. max_instances counts m0 gds = Some m \<and> (m0 \<ge> 0 \<longrightarrow> 0 \<le> m \<and> m \<le> m0) \<and> (gds \<noteq> [] \<longrightarrow> 0 \<le> m) \<and>
    list_all (\<lambda>gd. m * gd_Count gd \<le> get_int counts (gd_Class gd)) gds"
  using assms(1)
proof (induction gds arbitrary: m0)
  case (Cons gd gds)
  let ?a = "get_int counts (gd_Class gd)"
  let ?p = "quot ?a (gd_Count gd)"
  let ?m1 = "if m0 < 0 \<or> ?p < m0 then ?p else m0"
  have cnt: "1 \<le> gd_Count gd" using Cons.prems by simp
  have p: "?p = ?a div gd_Count gd" "0 \<le> ?p" using assms(2) [of "gd_Class gd"] cnt
    by (simp_all add: quot_nonneg pos_imp_zdiv_nonneg_iff)
  obtain m where m: "max_instances counts ?m1 gds = Some m" "?m1 \<ge> 0 \<longrightarrow> 0 \<le> m \<and> m \<le> ?m1"
    "list_all (\<lambda>gd. m * gd_Count gd \<le> get_int counts (gd_Class gd)) gds"
    using Cons.IH [of ?m1] Cons.prems by auto
  have b: "0 \<le> m" "m \<le> ?p" "m0 \<ge> 0 \<longrightarrow> m \<le> m0" using m(2) p(2) by (auto split: if_splits)
  have "m * gd_Count gd \<le> (?a div gd_Count gd) * gd_Count gd" using b(2) cnt unfolding p(1) by (intro mult_right_mono) simp_all
  also have "\<dots> \<le> ?a" using cnt by (simp add: minus_mod_eq_div_mult [symmetric])
  finally have "m * gd_Count gd \<le> ?a" .
  moreover have "max_instances counts m0 (gd # gds) = Some m" using m(1) cnt by (simp add: Let_def)
  ultimately show ?case using b m(3) by (intro exI [of _ m]) simp
qed simp

definition instance_at ::
  "TopologyRuleStore \<Rightarrow> string \<Rightarrow> DeviceGrouping \<Rightarrow> string \<Rightarrow> (string \<Rightarrow> TopologyDevice list) \<Rightarrow> nat \<Rightarrow> nat \<Rightarrow> GroupingInstance" where
  "instance_at rules node g alignment L i idx =
    (buildInstance rules (node @ ''-'' @ dg_Name g @ ''-'' @ sanitizeForName alignment @ ''-'' @ itoa (int idx))
       node g alignment (concat (map (block L i) (dg_Devices g))))\<lparr>gi_RailIndex := int idx\<rparr>"

lemma instance_at_sel [simp]:
  "gi_Devices (instance_at rules node g al L i idx) = concat (map (block L i) (dg_Devices g))"
  "gi_RailIndex (instance_at rules node g al L i idx) = int idx"
  "gi_Name (instance_at rules node g al L i idx) =
     node @ ''-'' @ dg_Name g @ ''-'' @ sanitizeForName al @ ''-'' @ itoa (int idx)"
  by (simp_all add: instance_at_def buildInstance_def)

lemma make_instances_blocks:
  assumes "cap_law cap" and "distinct (map gd_Class (dg_Devices g))"
    and "list_all (\<lambda>gd. 1 \<le> gd_Count gd) (dg_Devices g)"
    and "enough (get_list dbc) (i + n) (dg_Devices g)"
    and "list_all (\<lambda>gd. get_int consumed (gd_Class gd) = int (i * nat (gd_Count gd))) (dg_Devices g)"
  shows "make_instances cap rules node g al dbc n consumed idx =
    Some (map (\<lambda>j. instance_at rules node g al (get_list dbc) (i + j) (idx + j)) [0..<n])"
  using assms(4,5)
proof (induction n arbitrary: i consumed idx)
  case (Suc n)
  have "enough (get_list dbc) (Suc i) (dg_Devices g)"
    using Suc.prems(1) by (auto simp: enough_def list_all_iff intro: order.trans [rotated])
  from take_devices_block [OF assms(1-3) this Suc.prems(2), of "[]"] obtain consumed' where
    c: "take_devices cap dbc (dg_Devices g) consumed [] =
      Some (consumed', concat (map (block (get_list dbc) i) (dg_Devices g)))"
    "list_all (\<lambda>gd. get_int consumed' (gd_Class gd) = int (Suc i * nat (gd_Count gd))) (dg_Devices g)" by auto
  have rest: "make_instances cap rules node g al dbc n consumed' (Suc idx) =
      Some (map (\<lambda>j. instance_at rules node g al (get_list dbc) (Suc i + j) (Suc idx + j)) [0..<n])"
    using Suc.IH [of "Suc i" consumed' "Suc idx"] Suc.prems(1) c(2) by (simp only: add_Suc add_Suc_right)
  have "[0..<Suc n] = 0 # map Suc [0..<n]" by (simp only: map_Suc_upt upt_conv_Cons zero_less_Suc)
  then show ?case using c(1) rest by (simp add: instance_at_def comp_def add.left_commute del: upt_Suc)
qed simp

section \<open>What the instances hold\<close>

lemma blocks_concat: "concat (map (\<lambda>i. take c (drop (i * c) xs)) [0..<n]) = take (n * c) xs"
proof (induction n)
  case (Suc n)
  then show ?case by (simp add: take_add add.commute [of c])
qed simp

lemma mset_concat_append:
  "mset (concat (map (\<lambda>i. f i @ g i) is)) = mset (concat (map f is)) + mset (concat (map g is))"
  by (induction "is") simp_all

lemma instances_mset:
  "mset (concat (map (\<lambda>i. concat (map (block L i) gds)) [0..<n])) =
    sum_list (map (\<lambda>gd. mset (take (n * nat (gd_Count gd)) (L (gd_Class gd)))) gds)"
  by (induction gds) (simp_all add: mset_concat_append block_def blocks_concat)

lemma instances_fit:
  assumes "distinct (map gd_Class gds)" and L: "L = (\<lambda>c. filter (\<lambda>d. cls d = c) eff)"
  shows "mset (concat (map (\<lambda>i. concat (map (block L i) gds)) [0..<n])) \<subseteq># mset eff"
proof -
  have "sum_list (map (\<lambda>gd. mset (take (n * nat (gd_Count gd)) (L (gd_Class gd)))) gds)
      \<subseteq># sum_list (map (\<lambda>gd. mset (L (gd_Class gd))) gds)"
    by (rule sum_list_mset_mono) (metis append_take_drop_id mset_append mset_subset_eq_add_left)
  also have "\<dots> = mset (concat (map (\<lambda>k. filter (\<lambda>d. cls d = k) eff) (map gd_Class gds)))"
    by (simp add: mset_concat comp_def L)
  also have "\<dots> \<subseteq># mset eff"
    unfolding mset_filter_keys [OF assms(1), of cls eff] by simp
  finally show ?thesis by (simp only: instances_mset)
qed

lemma block_class:
  assumes "L = (\<lambda>c. filter (\<lambda>d. cls d = c) eff)"
  shows "d \<in> set (block L i gd) \<Longrightarrow> cls d = gd_Class gd \<and> d \<in> set eff"
  using assms by (auto simp: block_def dest!: in_set_takeD in_set_dropD)

lemma block_length:
  assumes "enough L n gds" and "i < n" and "gd \<in> set gds"
  shows "length (block L i gd) = nat (gd_Count gd)"
proof -
  have "n * nat (gd_Count gd) \<le> length (L (gd_Class gd))" using assms by (simp add: enough_def list_all_iff)
  moreover have "Suc i * nat (gd_Count gd) \<le> n * nat (gd_Count gd)" using assms(2) by (intro mult_right_mono) simp_all
  ultimately show ?thesis by (simp add: block_def)
qed

lemma blocks_of_class:
  assumes "distinct (map gd_Class gds)" and "\<And>g d. d \<in> set (B g) \<Longrightarrow> cls d = gd_Class g" and "gd \<in> set gds"
  shows "filter (\<lambda>d. cls d = gd_Class gd) (concat (map B gds)) = B gd"
  using assms(1,3)
proof (induction gds)
  case (Cons g gds)
  have other: "filter (\<lambda>d. cls d = c) (concat (map B hs)) = []" if "c \<notin> gd_Class ` set hs" for c hs
    using that assms(2) by (fastforce simp: filter_empty_conv)
  have self: "filter (\<lambda>d. cls d = gd_Class h) (B h) = B h" for h
    using assms(2) by (simp add: filter_id_conv)
  show ?case
  proof (cases "gd = g")
    case True
    then show ?thesis using Cons.prems(1) other [of "gd_Class g" gds] self by simp
  next
    case False
    then have "gd \<in> set gds" using Cons.prems(2) by simp
    moreover from this have "gd_Class gd \<noteq> gd_Class g"
      using Cons.prems(1) by (metis distinct.simps(2) image_eqI list.set_map list.simps(9))
    then have "filter (\<lambda>d. cls d = gd_Class gd) (B g) = []" using assms(2) by (fastforce simp: filter_empty_conv)
    ultimately show ?thesis using Cons by simp
  qed
qed simp

text \<open>An instance holds exactly the requested number of devices of each class and nothing else, and
  its devices agree on the alignment key.\<close>

definition instance_ok :: "TopologyRuleStore \<Rightarrow> DeviceGrouping \<Rightarrow> string \<Rightarrow> GroupingInstance \<Rightarrow> bool" where
  "instance_ok rules g alignment inst =
    ((\<exists>key. list_all (\<lambda>d. align_key alignment d = key) (gi_Devices inst))
     \<and> list_all (\<lambda>gd. int (length (filter (\<lambda>d. device_class rules d = gd_Class gd) (gi_Devices inst))) = gd_Count gd)
         (dg_Devices g)
     \<and> int (length (gi_Devices inst)) = sum_list (map gd_Count (dg_Devices g)))"

definition distinct_classes :: "DeviceGrouping \<Rightarrow> bool" where
  "distinct_classes g = (distinct (map gd_Class (dg_Devices g)) \<and> dg_Devices g \<noteq> []
     \<and> list_all (\<lambda>gd. 1 \<le> gd_Count gd) (dg_Devices g))"

lemma instance_at_ok:
  assumes g: "distinct_classes g" and L: "L = (\<lambda>c. filter (\<lambda>d. device_class rules d = c) eff)"
    and "enough L n (dg_Devices g)" "i < n" and key: "\<And>d. d \<in> set eff \<Longrightarrow> align_key al d = key"
  shows "instance_ok rules g al (instance_at rules node g al L i idx)"
proof -
  let ?gds = "dg_Devices g"
  have cls: "device_class rules d = gd_Class gd" if "d \<in> set (block L i gd)" for d gd
    using block_class [OF L that] by simp
  have len: "int (length (block L i gd)) = gd_Count gd" if "gd \<in> set ?gds" for gd
    using block_length [OF assms(3,4) that] g that by (auto simp: distinct_classes_def list_all_iff)
  have "align_key al d = key" if "d \<in> set (concat (map (block L i) ?gds))" for d
    using that block_class [OF L] key by auto
  moreover have "int (length (filter (\<lambda>d. device_class rules d = gd_Class gd) (concat (map (block L i) ?gds)))) = gd_Count gd"
    if "gd \<in> set ?gds" for gd
    using blocks_of_class [of ?gds "block L i" "device_class rules", OF _ cls that] g len [OF that]
    by (simp add: distinct_classes_def)
  moreover have "int (length (concat (map (block L i) gds))) = sum_list (map gd_Count gds)" if "set gds \<subseteq> set ?gds" for gds
    using that by (induction gds) (auto simp: len)
  ultimately show ?thesis unfolding instance_ok_def list_all_iff by auto
qed

lemma group_instances:
  assumes cap: "cap_law cap" and g: "distinct_classes g"
    and eff: "FilterToEffectiveDevices ds = Some eff" and key: "\<And>d. d \<in> set ds \<Longrightarrow> align_key al d = key"
  shows "\<exists>m insts. max_instances (count_by (device_class rules) eff) (- 1) (dg_Devices g) = Some m \<and> 0 \<le> m
    \<and> make_instances cap rules node g al (group_by (device_class rules) eff) (nat m) [] idx = Some insts
    \<and> map gi_RailIndex insts = map int [idx..<idx + nat m] \<and> length insts = nat m
    \<and> map gi_Name insts = map (\<lambda>i. node @ ''-'' @ dg_Name g @ ''-'' @ sanitizeForName al @ ''-'' @ itoa (int i)) [idx..<idx + nat m]
    \<and> list_all (instance_ok rules g al) insts \<and> mset (concat (map gi_Devices insts)) \<subseteq># mset ds"
proof -
  let ?L = "\<lambda>c. filter (\<lambda>d. device_class rules d = c) eff"
  have L: "get_list (group_by (device_class rules) eff) = ?L" by (simp add: fun_eq_iff get_group_by)
  obtain m where m: "max_instances (count_by (device_class rules) eff) (- 1) (dg_Devices g) = Some m" "0 \<le> m"
    "list_all (\<lambda>gd. m * gd_Count gd \<le> int (length (?L (gd_Class gd)))) (dg_Devices g)"
    using max_instances_bound [of "dg_Devices g" "count_by (device_class rules) eff" "- 1"] g
    by (auto simp: distinct_classes_def get_count_by)
  have en: "enough ?L (nat m) (dg_Devices g)"
  proof (unfold enough_def list_all_iff, intro ballI)
    fix gd assume "gd \<in> set (dg_Devices g)"
    with m(3) g have "m * gd_Count gd \<le> int (length (?L (gd_Class gd)))" "1 \<le> gd_Count gd"
      by (auto simp: list_all_iff distinct_classes_def)
    then have "int (nat m * nat (gd_Count gd)) \<le> int (length (?L (gd_Class gd)))" using m(2) by simp
    then show "nat m * nat (gd_Count gd) \<le> length (?L (gd_Class gd))" by (simp only: of_nat_le_iff)
  qed
  let ?insts = "map (\<lambda>j. instance_at rules node g al ?L j (idx + j)) [0..<nat m]"
  have mk: "make_instances cap rules node g al (group_by (device_class rules) eff) (nat m) [] idx = Some ?insts"
    using make_instances_blocks [OF cap, of g "group_by (device_class rules) eff" 0 "nat m" "[]" rules node al idx] g en
    by (simp add: distinct_classes_def L list_all_iff)
  have shift: "map f [idx..<idx + k] = map (\<lambda>j. f (idx + j)) [0..<k]" for f :: "nat \<Rightarrow> 'z" and k
    by (induction k) simp_all
  have key': "align_key al d = key" if "d \<in> set eff" for d
    using that key effective_subset [OF eff] by (metis mset_subset_eqD set_mset_mset)
  have "list_all (instance_ok rules g al) ?insts"
    unfolding list_all_iff using instance_at_ok [OF g refl en _ key'] by auto
  moreover have "mset (concat (map gi_Devices ?insts)) \<subseteq># mset eff"
    using instances_fit [of "dg_Devices g" ?L "device_class rules" eff "nat m"] g
    by (simp add: comp_def distinct_classes_def)
  then have "mset (concat (map gi_Devices ?insts)) \<subseteq># mset ds"
    using effective_subset [OF eff] by (rule subset_mset.order_trans)
  moreover have "map gi_RailIndex ?insts = map int [idx..<idx + nat m]"
    "map gi_Name ?insts = map (\<lambda>i. node @ ''-'' @ dg_Name g @ ''-'' @ sanitizeForName al @ ''-'' @ itoa (int i)) [idx..<idx + nat m]"
    by (simp_all add: shift comp_def)
  ultimately show ?thesis using m(1,2) mk by (intro exI [of _ m] exI [of _ ?insts]) simp
qed

abbreviation instance_name :: "string \<Rightarrow> DeviceGrouping \<Rightarrow> string \<Rightarrow> nat \<Rightarrow> string" where
  "instance_name node g al i \<equiv> node @ ''-'' @ dg_Name g @ ''-'' @ sanitizeForName al @ ''-'' @ itoa (int i)"

lemma instances_of_groups_ok:
  assumes cap: "cap_law cap" and g: "distinct_classes g"
    and key: "\<And>k d. k \<in> set ks \<Longrightarrow> d \<in> set (get_list groups k) \<Longrightarrow> align_key al d = k"
  shows "\<exists>insts. instances_of_groups cap rules node g al groups ks idx = Some insts
    \<and> map gi_RailIndex insts = map int [idx..<idx + length insts]
    \<and> map gi_Name insts = map (instance_name node g al) [idx..<idx + length insts]
    \<and> list_all (instance_ok rules g al) insts
    \<and> mset (concat (map gi_Devices insts)) \<subseteq># mset (concat (map (get_list groups) ks))"
  using key
proof (induction ks arbitrary: idx)
  case (Cons k ks)
  obtain eff where eff: "FilterToEffectiveDevices (get_list groups k) = Some eff"
    by (simp add: FilterToEffectiveDevices_eq)
  obtain m insts where m: "max_instances (count_by (device_class rules) eff) (- 1) (dg_Devices g) = Some m" "0 \<le> m"
    "make_instances cap rules node g al (group_by (device_class rules) eff) (nat m) [] idx = Some insts"
    "map gi_RailIndex insts = map int [idx..<idx + nat m]" "length insts = nat m"
    "map gi_Name insts = map (instance_name node g al) [idx..<idx + nat m]"
    "list_all (instance_ok rules g al) insts" "mset (concat (map gi_Devices insts)) \<subseteq># mset (get_list groups k)"
    using group_instances [OF cap g eff Cons.prems [of k], of rules node idx] by auto
  obtain rest where r: "instances_of_groups cap rules node g al groups ks (idx + nat m) = Some rest"
    "map gi_RailIndex rest = map int [idx + nat m..<idx + nat m + length rest]"
    "map gi_Name rest = map (instance_name node g al) [idx + nat m..<idx + nat m + length rest]"
    "list_all (instance_ok rules g al) rest"
    "mset (concat (map gi_Devices rest)) \<subseteq># mset (concat (map (get_list groups) ks))"
    using Cons.IH [of "idx + nat m"] Cons.prems by auto
  have none: "insts = []" if "m \<le> 0" using that m(5) by simp
  have "instances_of_groups cap rules node g al groups (k # ks) idx = Some (insts @ rest)"
    using eff m(1,2,3,5) r(1) none by (cases "m = 0") simp_all
  moreover have "[idx..<idx + length (insts @ rest)] = [idx..<idx + nat m] @ [idx + nat m..<idx + nat m + length rest]"
    using upt_add_eq_append [of idx "idx + nat m" "length rest"] by (simp add: m(5) add.assoc)
  moreover have "mset (concat (map gi_Devices (insts @ rest))) \<subseteq># mset (concat (map (get_list groups) (k # ks)))"
    using m(8) r(5) by (simp add: subset_mset.add_mono)
  ultimately show ?case using m(4,6,7) r(2,3,4) by (intro exI [of _ "insts @ rest"]) simp
qed simp

lemma findInstances_ok:
  assumes "cap_law cap" and "distinct_classes g"
  shows "\<exists>insts. findInstances cap rules node devices g al = Some insts
    \<and> map gi_RailIndex insts = map int [0..<length insts]
    \<and> map gi_Name insts = map (instance_name node g al) [0..<length insts]
    \<and> list_all (instance_ok rules g al) insts
    \<and> mset (concat (map gi_Devices insts)) \<subseteq># mset devices"
proof -
  let ?groups = "groupByAlignment devices al"
  have wf: "wf_map ?groups" by (simp add: groupByAlignment_def attr.group_wf)
  have "align_key al d = k" if "d \<in> set (get_list ?groups k)" for k d
    using that by (simp add: groupByAlignment_def attr.bucket_get)
  from instances_of_groups_ok [OF assms, of "sort (keys ?groups)" ?groups al rules node 0] this
  have "\<exists>insts. findInstances cap rules node devices g al = Some insts
    \<and> map gi_RailIndex insts = map int [0..<length insts]
    \<and> map gi_Name insts = map (instance_name node g al) [0..<length insts]
    \<and> list_all (instance_ok rules g al) insts
    \<and> mset (concat (map gi_Devices insts)) \<subseteq># mset (concat (map (get_list ?groups) (sort (keys ?groups))))"
    by (simp add: findInstances_def Let_def)
  then show ?thesis
    unfolding partitions_devices [OF wf] by (simp add: groupByAlignment_def attr.buckets_mset)
qed

lemma set_collectUsedDevices: "set (collectUsedDevices insts) = used_key ` set (concat (map gi_Devices insts))"
proof -
  have inner: "set (foldl (\<lambda>used d. set_add (used_key d) used) u ds) = set u \<union> used_key ` set ds" for u ds
    by (induction ds arbitrary: u) auto
  have "set (foldl (\<lambda>used inst. foldl (\<lambda>used d. set_add (used_key d) used) used (gi_Devices inst)) u insts) =
      set u \<union> used_key ` set (concat (map gi_Devices insts))" for u
    by (induction insts arbitrary: u) (auto simp: inner)
  from this [of "[]"] show ?thesis by (simp add: collectUsedDevices_def)
qed

lemma fallback_disjoint:
  assumes "mset (concat (map gi_Devices insts)) \<subseteq># mset devices"
    and "mset (concat (map gi_Devices fb)) \<subseteq># mset (filterOutDevices devices (collectUsedDevices insts))"
  shows "mset (concat (map gi_Devices (insts @ fb))) \<subseteq># mset devices"
proof -
  let ?u = "\<lambda>d. used_key d \<in> set (collectUsedDevices insts)"
  have "filter_mset ?u (mset (concat (map gi_Devices insts))) = mset (concat (map gi_Devices insts))"
    by (rule filter_mset_eq_conv [THEN iffD2]) (auto simp: set_collectUsedDevices)
  then have "mset (concat (map gi_Devices insts)) \<subseteq># filter_mset ?u (mset devices)"
    using multiset_filter_mono [OF assms(1), of ?u] by simp
  with assms(2) have "mset (concat (map gi_Devices insts)) + mset (concat (map gi_Devices fb)) \<subseteq>#
      filter_mset ?u (mset devices) + filter_mset (\<lambda>d. \<not> ?u d) (mset devices)"
    unfolding filterOutDevices_def mset_filter by (intro subset_mset.add_mono)
  also have "\<dots> = mset devices" by (rule multiset_partition [symmetric])
  finally show ?thesis by simp
qed

lemma evaluateGrouping_ok:
  assumes "cap_law cap" and "distinct_classes g"
  shows "\<exists>pref fall. evaluateGrouping cap rules node devices g = Some (pref @ fall)
    \<and> list_all (instance_ok rules g (dg_Alignment g)) pref
    \<and> list_all (instance_ok rules g (dg_Fallback g)) fall
    \<and> mset (concat (map gi_Devices (pref @ fall))) \<subseteq># mset devices
    \<and> map gi_RailIndex pref = map int [0..<length pref] \<and> map gi_RailIndex fall = map int [0..<length fall]
    \<and> distinct (map gi_Name pref) \<and> distinct (map gi_Name fall)"
proof -
  have dist: "distinct (map gi_Name insts)" if "map gi_Name insts = map (instance_name node g al) [0..<length insts]" for insts al
    unfolding that by (simp add: distinct_map inj_on_def)
  obtain pref where p: "findInstances cap rules node devices g (dg_Alignment g) = Some pref"
    "map gi_RailIndex pref = map int [0..<length pref]" "distinct (map gi_Name pref)"
    "list_all (instance_ok rules g (dg_Alignment g)) pref" "mset (concat (map gi_Devices pref)) \<subseteq># mset devices"
    using findInstances_ok [OF assms, of rules node devices "dg_Alignment g"] dist by blast
  let ?rem = "filterOutDevices devices (collectUsedDevices pref)"
  obtain fb where f: "findInstances cap rules node ?rem g (dg_Fallback g) = Some fb"
    "map gi_RailIndex fb = map int [0..<length fb]" "distinct (map gi_Name fb)"
    "list_all (instance_ok rules g (dg_Fallback g)) fb" "mset (concat (map gi_Devices fb)) \<subseteq># mset ?rem"
    using findInstances_ok [OF assms, of rules node ?rem "dg_Fallback g"] dist by blast
  consider "\<not> nodeHasRequiredClasses rules devices g"
    | (pref) "evaluateGrouping cap rules node devices g = Some (pref @ [])"
    | (both) "evaluateGrouping cap rules node devices g = Some (pref @ fb)"
    using p(1) f(1) unfolding evaluateGrouping_def Let_def
    by (cases "nodeHasRequiredClasses rules devices g"; cases "dg_Fallback g = ''''"; cases "?rem = []") simp_all
  then show ?thesis
  proof cases
    case 1
    then have "evaluateGrouping cap rules node devices g = Some ([] @ [])" by (simp add: evaluateGrouping_def)
    then show ?thesis by (intro exI [of _ "[]"]) simp
  next
    case pref
    with p show ?thesis by (intro exI [of _ pref] exI [of _ "[]"]) simp
  next
    case both
    with p f fallback_disjoint [OF p(5) f(5)] show ?thesis
      by (intro exI [of _ pref] exI [of _ fb]) simp
  qed
qed


definition example_grouping :: "string list \<Rightarrow> DeviceGrouping" where
  "example_grouping classes = \<lparr> dg_Name = ''pair'', dg_Alignment = ''pcieRoot'', dg_Fallback = ''numaNode'',
     dg_Devices = map (\<lambda>c. \<lparr> gd_Class = c, gd_Count = 1, gd_Capacity = [] \<rparr>) classes \<rparr>"


text \<open>A grouping that lists one class twice is accepted by the parser, but its evaluation panics on
  a node with one device of the class: each entry is checked against the whole stock, while the
  devices are handed out one entry after the other (the slice has capacity one).\<close>

theorem duplicate_class_panics:
  "wf_grouping (example_grouping [''gpu'', ''gpu''])
   \<and> evaluateGrouping (\<lambda>n. n) [] ''node1'' [example_device ''gpu'' ''gpu0'' (Some ''pci0'') 0 []]
       (example_grouping [''gpu'', ''gpu'']) = None"
proof
  show "wf_grouping (example_grouping [''gpu'', ''gpu''])"
    by (simp add: wf_grouping_def example_grouping_def)
  show "evaluateGrouping (\<lambda>n. n) [] ''node1'' [example_device ''gpu'' ''gpu0'' (Some ''pci0'') 0 []]
       (example_grouping [''gpu'', ''gpu'']) = None" by code_simp
qed

definition variant_device :: "string \<Rightarrow> TopologyDevice" where
  "variant_device name = (example_device ''gpu'' name (Some ''pci0'') 0 [])
     \<lparr>td_ConsumesCounters := [\<lparr> cc_CounterSet = ''gpu0'', cc_Counters = [] \<rparr>]\<rparr>"

text \<open>The fallback can hand out a physical device a second time: the two variants of one GPU (same
  counter set) go to two instances, one at the preferred and one at the fallback alignment,
  because only the chosen variant is marked as used.\<close>

theorem fallback_reuses_physical_device:
  "(case evaluateGrouping (\<lambda>n. n) [] ''node1''
      [variant_device ''full'', variant_device ''half'', example_device ''nic'' ''nic0'' (Some ''pci0'') 0 [],
       example_device ''nic'' ''nic1'' (Some ''pci0'') 0 []] (example_grouping [''gpu'', ''nic'']) of
      Some insts \<Rightarrow> map (map td_DeviceName \<circ> gi_Devices) insts = [[''full'', ''nic0''], [''half'', ''nic1'']]
    | None \<Rightarrow> False)
   \<and> counter_key (variant_device ''full'') = counter_key (variant_device ''half'')"
  by code_simp

end
