(* ===== verification/Json.thy ===== *)
theory Json
  imports Counter_Groups
begin

text \<open>
  JSON values, and decoding them the way \<open>encoding/json\<close> does: object members are processed in
  order, a member sets the field whose name it equals up to letter case, an unknown member is
  ignored, \<open>null\<close> leaves a field as it is, and a value of the wrong type is an error
  (\<open>None\<close>).  The text form is the subject of \<open>Json_Text\<close>.  Numbers are integers.
\<close>

datatype json = JNull | JBool bool | JNum int | JStr string | JArr "json list" | JObj "(string \<times> json) list"

definition fold_opt :: "('s \<Rightarrow> 'x \<Rightarrow> 's option) \<Rightarrow> 's \<Rightarrow> 'x list \<Rightarrow> 's option" where
  "fold_opt f s xs = foldl (\<lambda>so x. Option.bind so (\<lambda>s. f s x)) (Some s) xs"

lemma fold_opt_None: "foldl (\<lambda>so x. Option.bind so (\<lambda>s. f s x)) None xs = None"
  by (induction xs) simp_all

lemma fold_opt_simps [simp]:
  "fold_opt f s [] = Some s"
  "fold_opt f s (x # xs) = Option.bind (f s x) (\<lambda>s'. fold_opt f s' xs)"
  by (simp add: fold_opt_def) (cases "f s x"; simp add: fold_opt_def fold_opt_None)

lemma fold_opt_append [simp]: "fold_opt f s (xs @ ys) = Option.bind (fold_opt f s xs) (\<lambda>s'. fold_opt f s' ys)"
proof (induction xs arbitrary: s)
  case (Cons x xs)
  then show ?case by (cases "f s x") simp_all
qed simp

definition field_is :: "string \<Rightarrow> string \<Rightarrow> bool" where
  "field_is name k = (k = name \<or> ToLower k = ToLower name)"

definition dec_str :: "string \<Rightarrow> json \<Rightarrow> string option" where
  "dec_str cur j = (case j of JStr s \<Rightarrow> Some s | JNull \<Rightarrow> Some cur | _ \<Rightarrow> None)"

definition dec_int :: "int \<Rightarrow> json \<Rightarrow> int option" where
  "dec_int cur j = (case j of JNum n \<Rightarrow> (if int64 n = n then Some n else None) | JNull \<Rightarrow> Some cur | _ \<Rightarrow> None)"

definition dec_strs :: "json \<Rightarrow> string list option" where
  "dec_strs j = (case j of JArr js \<Rightarrow> those (map (dec_str '''') js) | JNull \<Rightarrow> Some [] | _ \<Rightarrow> None)"

definition dec_map :: "(string, string) gomap \<Rightarrow> json \<Rightarrow> (string, string) gomap option" where
  "dec_map cur j = (case j of
      JObj kvs \<Rightarrow> fold_opt (\<lambda>m (k, v). map_option (\<lambda>s. put k s m) (dec_str '''' v)) cur kvs
    | JNull \<Rightarrow> Some [] | _ \<Rightarrow> None)"

text \<open>An array of structures; a nil slice is written as \<open>null\<close>.\<close>

definition enc_list :: "('a \<Rightarrow> json) \<Rightarrow> 'a list \<Rightarrow> json" where
  "enc_list enc xs = (if xs = [] then JNull else JArr (map enc xs))"

definition dec_list :: "(json \<Rightarrow> 'a option) \<Rightarrow> json \<Rightarrow> 'a list option" where
  "dec_list dec j = (case j of JArr js \<Rightarrow> those (map dec js) | JNull \<Rightarrow> Some [] | _ \<Rightarrow> None)"

lemma dec_enc_list: "(\<And>x. x \<in> set xs \<Longrightarrow> dec (enc x) = Some (f x)) \<Longrightarrow> dec_list dec (enc_list enc xs) = Some (map f xs)"
  by (auto simp: enc_list_def dec_list_def intro: those_map_Some)

lemma dec_enc_strs [simp]: "dec_strs (JArr (map JStr ss)) = Some ss"
  using those_map_Some [of ss "\<lambda>s. dec_str '''' (JStr s)" "\<lambda>s. s"] by (simp add: dec_strs_def comp_def dec_str_def)

lemma dec_enc_strs' [simp]: "dec_strs (enc_list JStr ss) = Some ss"
  by (cases "ss = []") (simp_all add: enc_list_def, simp add: dec_strs_def)

text \<open>A map of strings, written with sorted keys.\<close>

definition sorted_map :: "(string, string) gomap \<Rightarrow> (string, string) gomap" where
  "sorted_map m = map (\<lambda>k. (k, get_str m k)) (sort (keys m))"

definition enc_map :: "(string, string) gomap \<Rightarrow> json" where
  "enc_map m = JObj (map (\<lambda>(k, v). (k, JStr v)) (sorted_map m))"

lemma put_fresh: "k \<notin> fst ` set m \<Longrightarrow> put k v m = m @ [(k, v)]"
  by (induction m) (auto simp: put_def)

lemma dec_map_entries:
  "distinct (map fst (m @ es)) \<Longrightarrow>
    fold_opt (\<lambda>m (k, v). map_option (\<lambda>s. put k s m) (dec_str '''' v)) m (map (\<lambda>(k, v). (k, JStr v)) es) = Some (m @ es)"
proof (induction es arbitrary: m)
  case (Cons e es)
  then have "fst e \<notin> fst ` set m" by auto
  then have "put (fst e) (snd e) m = m @ [e]" by (simp add: put_fresh)
  with Cons show ?case by (simp add: case_prod_unfold dec_str_def)
qed simp

lemma sorted_map_props: "wf_map m \<Longrightarrow> wf_map (sorted_map m) \<and> map_of (sorted_map m) = map_of m"
proof -
  assume wf: "wf_map m"
  have keys: "map fst (sorted_map m) = sort (keys m)" by (simp add: sorted_map_def comp_def)
  have "map_of (map (\<lambda>k. (k, f k)) ks) k = (if k \<in> set ks then Some (f k) else None)"
    for f :: "string \<Rightarrow> string" and ks k by (induction ks) auto
  then have "map_of (sorted_map m) k = map_of m k" for k
    by (simp add: sorted_map_def map_of_get_or [of m k "[]"])
  with wf keys show ?thesis by (auto simp: distinct_sort)
qed

lemma dec_enc_map [simp]: "wf_map m \<Longrightarrow> dec_map [] (enc_map m) = Some (sorted_map m)"
  using dec_map_entries [of "[]" "sorted_map m"] sorted_map_props [of m]
  by (simp add: dec_map_def enc_map_def)

end
