(* ===== verification/Device_Config.thy ===== *)
theory Device_Config
  imports Grouping_Builder Json
begin

text \<open>
  \<open>internal/controller/deviceclass_manager.go\<close>, first part: the partition configuration that a
  DeviceClass carries for the webhook, how it is built for a partition, for an aggregate and for
  a grouping, its JSON form, and the arithmetic of tier names.  The manager is its driver name
  and the rule store; log messages are left out.
\<close>

section \<open>Types\<close>

definition CoordinatorDriverName :: string where
  "CoordinatorDriverName = ''nodepartition.dra.k8s.io''"

abbreviation (input) CouplingTight :: string where "CouplingTight \<equiv> ''tight''"
abbreviation (input) CouplingLoose :: string where "CouplingLoose \<equiv> ''loose''"
abbreviation (input) CouplingNone :: string where "CouplingNone \<equiv> ''''"

record SubResourceConfig =
  sr_DeviceClass :: string
  sr_Count :: int
  sr_Capacity :: "(string, string) gomap"
  sr_Selectors :: "string list"
  sr_PartitionMode :: string

record AlignmentConfig =
  ac_Attribute :: string
  ac_Requests :: "string list"
  ac_Enforcement :: string

record PartitionConfig =
  pc_Kind :: string
  pc_SubResources :: "SubResourceConfig list"
  pc_Alignments :: "AlignmentConfig list"

section \<open>Partition modes\<close>

definition partitionModeAttributeSuffixes :: "string list" where
  "partitionModeAttributeSuffixes = [''partitionMode'', ''computePartition'', ''mode'']"

definition detectPartitionModeAttr :: "TopologyDevice \<Rightarrow> string \<times> string" where
  "detectPartitionModeAttr dev =
    (case find (\<lambda>(name, val). list_ex (\<lambda>suf. HasSuffix name (''/'' @ suf) \<or> name = suf)
         partitionModeAttributeSuffixes \<and> dav_StringValue val \<noteq> None) (td_ExtendedAttributes dev) of
       Some (name, val) \<Rightarrow> (name, the (dav_StringValue val))
     | None \<Rightarrow> ('''', ''''))"

text \<open>The selector \<open>device.attributes["domain"].name == "value"\<close>.\<close>

definition mode_selector :: "string \<Rightarrow> string \<Rightarrow> string \<Rightarrow> string" where
  "mode_selector domain name mode =
     ''device.attributes['' @ quote domain @ ''].'' @ name @ '' == '' @ quote mode"

text \<open>The loop over the devices of the driver: the first one with a mode decides.\<close>

definition add_mode :: "string \<Rightarrow> TopologyDevice list \<Rightarrow> SubResourceConfig \<Rightarrow> SubResourceConfig" where
  "add_mode driver devices sr =
    (case find (\<lambda>dev. base_driver dev = driver \<and> snd (detectPartitionModeAttr dev) \<noteq> '''') devices of
       None \<Rightarrow> sr
     | Some dev \<Rightarrow>
         let modeAttr = fst (detectPartitionModeAttr dev); mode = snd (detectPartitionModeAttr dev);
             sel = (case SplitN2 modeAttr ''/'' of
                 [domain, name] \<Rightarrow> mode_selector domain name mode
               | _ \<Rightarrow> mode_selector driver modeAttr mode)
         in sr\<lparr>sr_PartitionMode := mode, sr_Selectors := sr_Selectors sr @ [sel]\<rparr>)"

section \<open>Configuration of a partition\<close>

text \<open>The NUMA selector of a driver, in the attribute namespace its rule names.\<close>

definition add_numa :: "TopologyRuleStore \<Rightarrow> string \<Rightarrow> int list \<Rightarrow> SubResourceConfig \<Rightarrow> SubResourceConfig" where
  "add_numa rules driver numaNodes sr =
    (if numaNodes = [] then sr
     else
       let cel = (case GetNUMAAttributeForDriver rules driver of
             Some attr \<Rightarrow> BuildNUMACELSelector (if \<not> Contains attr ''/'' then driver @ ''/'' @ attr else attr) numaNodes
           | None \<Rightarrow> BuildNUMACELSelector AttrNUMANode numaNodes)
       in if cel \<noteq> '''' then sr\<lparr>sr_Selectors := sr_Selectors sr @ [cel]\<rparr> else sr)"

definition partition_sub_resource :: "TopologyRuleStore \<Rightarrow> PartitionDevice \<Rightarrow> string \<times> int \<Rightarrow> SubResourceConfig" where
  "partition_sub_resource rules p dc =
    (let driver = fst dc;
         sr = \<lparr> sr_DeviceClass = GetDeviceClassForDriver rules driver, sr_Count = snd dc,
                sr_Capacity = (case map_of (pd_DeviceCapacity p) driver of Some cap \<Rightarrow> cap | None \<Rightarrow> []),
                sr_Selectors = [], sr_PartitionMode = '''' \<rparr>
     in add_numa rules driver (pd_NUMANodes p) (add_mode driver (pd_Devices p) sr))"

definition isPartitionConstraintSatisfiable ::
  "TopologyDevice list \<Rightarrow> string \<Rightarrow> (string, int) gomap \<Rightarrow> bool" where
  "isPartitionConstraintSatisfiable devices attribute driverCounts =
    (let publishing = filter (\<lambda>dev. deviceAttributeValues dev attribute \<noteq> []) devices;
         driversWithAttribute = foldl (\<lambda>s dev. set_add (base_driver dev) s) [] publishing;
         groups = nested_count (concat (map (\<lambda>dev. map (\<lambda>val. (val, base_driver dev))
           (deviceAttributeValues dev attribute)) publishing))
     in if length driversWithAttribute < 2 then False
        else list_ex (\<lambda>(val, driverMap). list_all (\<lambda>(driver, needed).
               let base = baseDriverName driver in
               base \<notin> set driversWithAttribute \<or> \<not> get_int driverMap base < needed) driverCounts) groups)"

text \<open>The drivers among the counted ones that have a device with the attribute.\<close>

definition drivers_with ::
  "(TopologyDevice \<Rightarrow> string \<Rightarrow> bool) \<Rightarrow> TopologyDevice list \<Rightarrow> string \<Rightarrow> (string, int) gomap \<Rightarrow> string list" where
  "drivers_with has devices attribute counts =
    (let ds = foldl (\<lambda>s dev. if has dev attribute then set_add (base_driver dev) s else s) [] devices
     in filter (\<lambda>driver. baseDriverName driver \<in> set ds) (keys counts))"

text \<open>One iteration of the loop over the match rules.\<close>

definition partition_alignment ::
  "PartitionDevice \<Rightarrow> AlignmentConfig list \<times> string \<Rightarrow> TopologyRule \<Rightarrow> AlignmentConfig list \<times> string" where
  "partition_alignment p st rule =
    (let als = fst st; coupling = snd st;
         counts = pd_DeviceCounts p; devices = pd_Devices p;
         enforcement = mode_or (tr_Enforcement rule) EnforcementRequired;
         constraintRequests = (if devices \<noteq> []
           then drivers_with deviceHasScalarAttribute devices (tr_Attribute rule) counts else keys counts);
         alignment = \<lparr> ac_Attribute = tr_Attribute rule, ac_Requests = constraintRequests,
           ac_Enforcement = enforcement \<rparr>
     in if tr_Driver rule \<noteq> '''' \<and> \<not> has_key counts (tr_Driver rule) then st
     else if devices \<noteq> [] \<and> constraintRequests = [] then st
     else if tr_FallbackAttribute rule \<noteq> '''' then
       (if isPartitionConstraintSatisfiable devices (tr_Attribute rule) counts
        then (als @ [alignment], CouplingTight)
        else (als, if coupling \<noteq> CouplingTight then CouplingLoose else coupling))
     else (als @ [alignment], coupling))"

definition buildPartitionConfig :: "TopologyRuleStore \<Rightarrow> PartitionDevice \<Rightarrow> PartitionConfig \<times> string" where
  "buildPartitionConfig rules p =
    (let st = foldl (partition_alignment p) ([], CouplingNone) (GetMatchConstraintRules rules)
     in (\<lparr> pc_Kind = ''PartitionConfig'',
           pc_SubResources = map (partition_sub_resource rules p) (pd_DeviceCounts p),
           pc_Alignments = fst st \<rparr>, snd st))"

section \<open>Configuration of an aggregate\<close>

definition aggregate_sub_resource :: "TopologyRuleStore \<Rightarrow> PartitionDevice \<Rightarrow> string \<times> int \<Rightarrow> SubResourceConfig" where
  "aggregate_sub_resource rules p dc =
    \<lparr> sr_DeviceClass = GetDeviceClassForDriver rules (fst dc), sr_Count = snd dc,
      sr_Capacity = (case map_of (pd_DeviceCapacity p) (fst dc) of Some cap \<Rightarrow> cap | None \<Rightarrow> []),
      sr_Selectors = [], sr_PartitionMode = '''' \<rparr>"

text \<open>The attribute and the requests of an aggregate's constraint: the rule's attribute, or its
  fallback when fewer than two drivers have the first.\<close>

definition aggregate_requests :: "PartitionDevice \<Rightarrow> TopologyRule \<Rightarrow> string \<times> string list" where
  "aggregate_requests p rule =
    (let devices = pd_Devices p; counts = pd_DeviceCounts p in
     if devices = [] then (tr_Attribute rule, [])
     else
       let primary = drivers_with deviceHasAttribute devices (tr_Attribute rule) counts in
       if length primary < 2 \<and> tr_FallbackAttribute rule \<noteq> ''''
       then (tr_FallbackAttribute rule, drivers_with deviceHasAttribute devices (tr_FallbackAttribute rule) counts)
       else (tr_Attribute rule, primary))"

definition aggregate_alignment ::
  "PartitionDevice \<Rightarrow> AlignmentConfig list \<times> string \<Rightarrow> TopologyRule \<Rightarrow> AlignmentConfig list \<times> string" where
  "aggregate_alignment p st rule =
    (let counts = pd_DeviceCounts p;
         ar = aggregate_requests p rule; constraintAttr = fst ar; constraintRequests = snd ar;
         enforcement = mode_or (tr_Enforcement rule) EnforcementRequired;
         uncovered = filter (\<lambda>driver. driver \<notin> set constraintRequests) (keys counts);
         fallbackRequests = drivers_with deviceHasAttribute (pd_Devices p) (tr_FallbackAttribute rule) counts
     in if tr_Driver rule \<noteq> '''' \<and> \<not> has_key counts (tr_Driver rule) then st
     else if length constraintRequests < 2 then st
     else
       (fst st @ [\<lparr> ac_Attribute = constraintAttr, ac_Requests = constraintRequests, ac_Enforcement = enforcement \<rparr>]
        @ (if tr_FallbackAttribute rule \<noteq> '''' \<and> constraintAttr \<noteq> tr_FallbackAttribute rule
              \<and> uncovered \<noteq> [] \<and> length fallbackRequests > length constraintRequests
           then [\<lparr> ac_Attribute = tr_FallbackAttribute rule, ac_Requests = fallbackRequests,
                   ac_Enforcement = enforcement \<rparr>]
           else []),
        CouplingTight))"

definition buildPartitionAggregateConfig :: "TopologyRuleStore \<Rightarrow> PartitionDevice \<Rightarrow> PartitionConfig \<times> string" where
  "buildPartitionAggregateConfig rules p =
    (let st = foldl (aggregate_alignment p) ([], CouplingNone) (GetMatchConstraintRules rules)
     in (\<lparr> pc_Kind = ''PartitionConfig'',
           pc_SubResources = map (aggregate_sub_resource rules p) (pd_DeviceCounts p),
           pc_Alignments = fst st \<rparr>, snd st))"

section \<open>Configuration of a grouping\<close>

definition driverForClass :: "TopologyRuleStore \<Rightarrow> string \<Rightarrow> string" where
  "driverForClass rules className =
    (case find (\<lambda>rule. tr_DeviceClass rule = className) (GetRules rules) of
       Some rule \<Rightarrow> tr_Driver rule | None \<Rightarrow> className)"

definition grouping_sub_resource ::
  "TopologyRuleStore \<Rightarrow> GroupingInstance \<Rightarrow> bool \<Rightarrow> string \<times> int \<Rightarrow> SubResourceConfig" where
  "grouping_sub_resource rules inst includeNUMA dc =
    (let sr = \<lparr> sr_DeviceClass = fst dc, sr_Count = snd dc,
           sr_Capacity = (case map_of (gi_DeviceCapacity inst) (fst dc) of Some cap \<Rightarrow> cap | None \<Rightarrow> []),
           sr_Selectors = [], sr_PartitionMode = '''' \<rparr>
     in if includeNUMA then add_numa rules (driverForClass rules (fst dc)) (gi_NUMANodes inst) sr else sr)"

definition grouping_alignment ::
  "TopologyRuleStore \<Rightarrow> GroupingInstance \<Rightarrow> AlignmentConfig list \<Rightarrow> TopologyRule \<Rightarrow> AlignmentConfig list" where
  "grouping_alignment rules inst als rule =
    (let counts = gi_DeviceCounts inst;
         driversWithAttribute = foldl (\<lambda>s dev. if deviceAttributeValueString dev (tr_Attribute rule) \<noteq> ''''
             then set_add (base_driver dev) s else s) [] (gi_Devices inst);
         constraintRequests = (if gi_Devices inst \<noteq> []
           then filter (\<lambda>c. baseDriverName (driverForClass rules c) \<in> set driversWithAttribute) (keys counts) else [])
     in if tr_Driver rule \<noteq> '''' \<and> \<not> has_key counts (GetDeviceClassForDriver rules (tr_Driver rule)) then als
     else if length constraintRequests < 2 then als
     else als @ [\<lparr> ac_Attribute = tr_Attribute rule, ac_Requests = constraintRequests,
         ac_Enforcement = mode_or (tr_Enforcement rule) EnforcementRequired \<rparr>])"

definition buildGroupingConfigInternal :: "TopologyRuleStore \<Rightarrow> GroupingInstance \<Rightarrow> bool \<Rightarrow> PartitionConfig" where
  "buildGroupingConfigInternal rules inst includeNUMA =
    \<lparr> pc_Kind = ''PartitionConfig'',
      pc_SubResources = map (grouping_sub_resource rules inst includeNUMA) (gi_DeviceCounts inst),
      pc_Alignments = foldl (grouping_alignment rules inst) [] (GetMatchConstraintRules rules) \<rparr>"

definition buildGroupingConfig :: "TopologyRuleStore \<Rightarrow> GroupingInstance \<Rightarrow> PartitionConfig" where
  "buildGroupingConfig rules inst = buildGroupingConfigInternal rules inst True"

definition buildGroupingAggregateConfig :: "TopologyRuleStore \<Rightarrow> GroupingInstance \<Rightarrow> PartitionConfig" where
  "buildGroupingAggregateConfig rules inst = buildGroupingConfigInternal rules inst False"

section \<open>Names and tiers\<close>

definition numaKeySuffix :: "int list \<Rightarrow> string" where
  "numaKeySuffix numaNodes = (case numaNodes of [] \<Rightarrow> ''''
     | n # ns \<Rightarrow> foldl (\<lambda>s n. s @ ''-'' @ itoa n) (''-numa'' @ itoa n) ns)"

text \<open>Go's remainder has the sign of the dividend.\<close>

definition rem :: "int \<Rightarrow> int \<Rightarrow> int" where
  "rem a b = a - quot a b * b"

lemma rem_abs: "\<bar>rem a b\<bar> = \<bar>a\<bar> mod \<bar>b\<bar>"
proof -
  have "rem a b = sgn a * \<bar>a\<bar> - sgn a * (\<bar>a\<bar> div \<bar>b\<bar> * \<bar>b\<bar>)"
    by (cases "b = 0"; cases "b > 0") (simp_all add: rem_def quot_def sgn_mult_abs)
  also have "\<dots> = sgn a * (\<bar>a\<bar> mod \<bar>b\<bar>)" by (simp add: minus_div_mult_eq_mod flip: right_diff_distrib)
  finally show ?thesis by (cases "a = 0"; cases "b = 0") (simp_all add: abs_mult sgn_mult_abs)
qed

lemma rem_smaller: "b \<noteq> 0 \<Longrightarrow> \<bar>rem a b\<bar> < \<bar>b\<bar>"
  by (simp add: rem_abs)

function gcd_loop :: "int \<Rightarrow> int \<Rightarrow> int" where
  "gcd_loop a b = (if b \<noteq> 0 then gcd_loop b (rem a b) else a)"
  by pat_completeness auto
termination by (relation "measure (\<lambda>(a, b). nat \<bar>b\<bar>)") (auto simp: rem_smaller)

declare gcd_loop.simps [simp del]

definition fractionNames :: "((int \<times> int) \<times> string) list" where
  "fractionNames = [((1, 16), ''sixteenth''), ((1, 12), ''twelfth''), ((1, 8), ''eighth''), ((1, 6), ''sixth''),
     ((1, 4), ''quarter''), ((1, 3), ''third''), ((1, 2), ''half''), ((1, 1), ''full'')]"

definition fractionToTierName :: "int \<Rightarrow> int \<Rightarrow> string" where
  "fractionToTierName numerator denominator =
    (if denominator = 0 \<or> numerator = 0 then ''''
     else let g = gcd_loop numerator denominator
       in get_str fractionNames (quot numerator g, quot denominator g))"

section \<open>Tier names\<close>

lemma rem_nonneg: "0 \<le> a \<Longrightarrow> 0 \<le> b \<Longrightarrow> rem a b = a mod b"
proof (cases "b = 0")
  case True
  then show ?thesis by (simp add: rem_def)
next
  case False
  assume "0 \<le> a" "0 \<le> b"
  with False show ?thesis by (simp add: rem_def quot_nonneg minus_div_mult_eq_mod)
qed

lemma gcd_loop_gcd: "0 \<le> a \<Longrightarrow> 0 \<le> b \<Longrightarrow> gcd_loop a b = gcd a b"
proof (induction a b rule: gcd_loop.induct)
  case (1 a b)
  show ?case
  proof (cases "b = 0")
    case True
    then show ?thesis using "1.prems" by (simp add: gcd_loop.simps [of a 0])
  next
    case False
    with "1.prems" have "gcd_loop b (rem a b) = gcd b (a mod b)" using "1.IH" by (simp add: rem_nonneg)
    then show ?thesis using False by (simp add: gcd_loop.simps [of a b] gcd_red_int [symmetric] gcd.commute)
  qed
qed

text \<open>For positive numbers, \<open>fractionToTierName n d\<close> is the English name of the unit fraction that
  \<open>n/d\<close> reduces to when there is one in the table, and empty otherwise: it names the fraction
  exactly when \<open>n\<close> divides \<open>d\<close> and the quotient is 1, 2, 3, 4, 6, 8, 12 or 16.\<close>

theorem fractionToTierName_unit:
  assumes "0 < n" and "0 < d"
  shows "fractionToTierName n d = (if n dvd d then get_str [(16, ''sixteenth''), (12, ''twelfth''), (8, ''eighth''),
      (6, ''sixth''), (4, ''quarter''), (3, ''third''), (2, ''half''), (1, ''full'')] (d div n) else '''')"
proof -
  let ?g = "gcd n d"
  have g: "0 < ?g" using assms by simp
  have "fractionToTierName n d = get_str fractionNames (n div ?g, d div ?g)"
    using assms g by (simp add: fractionToTierName_def gcd_loop_gcd quot_nonneg Let_def)
  moreover have "n div ?g = 1 \<longleftrightarrow> n dvd d"
  proof
    assume "n div ?g = 1"
    then have "?g = n" by (metis dvd_div_eq_mult gcd_dvd1 mult_1 g order_less_irrefl)
    then show "n dvd d" by (metis gcd_dvd2)
  next
    assume "n dvd d"
    then have "?g = n" using assms by simp
    then show "n div ?g = 1" using assms by simp
  qed
  moreover have "?g = n" if "n dvd d" using that assms by simp
  ultimately show ?thesis by (auto simp: fractionNames_def get_or_def)
qed

theorem fractionToTierName_unit_witness: "fractionToTierName 2 16 = ''eighth''"
  using fractionToTierName_unit [of 2 16] by (simp add: get_or_def)

section \<open>Constraints inside a partition\<close>

definition publishes :: "TopologyDevice list \<Rightarrow> string \<Rightarrow> string \<Rightarrow> bool" where
  "publishes devices attribute driver =
     list_ex (\<lambda>dev. base_driver dev = driver \<and> deviceAttributeValues dev attribute \<noteq> []) devices"

text \<open>How often a driver's devices publish a value of an attribute.\<close>

definition occurrences :: "TopologyDevice list \<Rightarrow> string \<Rightarrow> string \<Rightarrow> string \<Rightarrow> int" where
  "occurrences devices attribute val driver =
     int (sum_list (map (\<lambda>dev. count_list (deviceAttributeValues dev attribute) val)
       (filter (\<lambda>dev. base_driver dev = driver) devices)))"

lemma foldl_set_add: "set (foldl (\<lambda>s x. set_add (f x) s) s0 xs) = set s0 \<union> f ` set xs"
  "distinct s0 \<Longrightarrow> distinct (foldl (\<lambda>s x. set_add (f x) s) s0 xs)"
  by (induction xs arbitrary: s0) auto

lemma count_list_pairs: "count_list (map (\<lambda>v. (v, d)) vs) (val, d') = (if d = d' then count_list vs val else 0)"
  by (induction vs) auto

lemma publishing_counts:
  "int (count_list (concat (map (\<lambda>dev. map (\<lambda>v. (v, base_driver dev)) (deviceAttributeValues dev attribute))
      (filter (\<lambda>dev. deviceAttributeValues dev attribute \<noteq> []) devices))) (val, d)) = occurrences devices attribute val d"
  by (induction devices) (auto simp: occurrences_def count_list_append count_list_pairs)

lemma two_distinct: "2 \<le> card S \<longleftrightarrow> (\<exists>x y. x \<in> S \<and> y \<in> S \<and> x \<noteq> y)" if "finite S"
proof
  assume "2 \<le> card S"
  then obtain x where "x \<in> S" by (metis card.empty ex_in_conv not_numeral_le_zero)
  with \<open>2 \<le> card S\<close> \<open>finite S\<close> have "card (S - {x}) \<noteq> 0" by simp
  then obtain y where "y \<in> S - {x}" using \<open>finite S\<close> by (metis card.empty ex_in_conv)
  with \<open>x \<in> S\<close> show "\<exists>x y. x \<in> S \<and> y \<in> S \<and> x \<noteq> y" by blast
next
  assume "\<exists>x y. x \<in> S \<and> y \<in> S \<and> x \<noteq> y"
  then obtain x y where "{x, y} \<subseteq> S" "x \<noteq> y" by blast
  with card_mono [OF \<open>finite S\<close>, of "{x, y}"] show "2 \<le> card S" by simp
qed

text \<open>A match constraint is satisfiable inside a partition exactly when at least two drivers publish
  the attribute there and one published value is carried by enough devices of every counted
  driver that publishes it; drivers that do not publish it are not constrained.\<close>

theorem isPartitionConstraintSatisfiable_iff:
  "isPartitionConstraintSatisfiable devices attribute driverCounts \<longleftrightarrow>
    (\<exists>a b. a \<noteq> b \<and> publishes devices attribute a \<and> publishes devices attribute b)
    \<and> (\<exists>val. list_ex (\<lambda>dev. val \<in> set (deviceAttributeValues dev attribute)) devices
        \<and> list_all (\<lambda>(driver, needed). if publishes devices attribute (baseDriverName driver)
            then needed \<le> occurrences devices attribute val (baseDriverName driver) else True) driverCounts)"
proof -
  let ?pub = "filter (\<lambda>dev. deviceAttributeValues dev attribute \<noteq> []) devices"
  let ?ds = "foldl (\<lambda>s dev. set_add (base_driver dev) s) [] ?pub"
  let ?ps = "concat (map (\<lambda>dev. map (\<lambda>v. (v, base_driver dev)) (deviceAttributeValues dev attribute)) ?pub)"
  have ds: "driver \<in> set ?ds \<longleftrightarrow> publishes devices attribute driver" for driver
    by (auto simp: foldl_set_add publishes_def list_ex_iff)
  have "distinct ?ds" by (rule foldl_set_add(2)) simp
  then have "length ?ds = card (set ?ds)" by (rule distinct_card [symmetric])
  then have two: "\<not> length ?ds < 2 \<longleftrightarrow>
      (\<exists>a b. a \<noteq> b \<and> publishes devices attribute a \<and> publishes devices attribute b)"
    using two_distinct [of "set ?ds"] unfolding ds by (auto simp: not_less)
  have keys: "v \<in> fst ` set (nested_count ?ps) \<longleftrightarrow> list_ex (\<lambda>dev. v \<in> set (deviceAttributeValues dev attribute)) devices" for v
    unfolding nested_count_keys list_ex_iff by force
  have entry: "(\<exists>dm. (v, dm) \<in> set (nested_count ?ps) \<and> Q dm) \<longleftrightarrow>
      v \<in> fst ` set (nested_count ?ps) \<and> Q (get_or [] (nested_count ?ps) v)" for v Q
    using get_or_mem [OF nested_count_wf] by (force simp: image_iff)
  let ?Q = "\<lambda>dm. list_all (\<lambda>(driver, needed). baseDriverName driver \<notin> set ?ds \<or> \<not> get_int dm (baseDriverName driver) < needed) driverCounts"
  have "isPartitionConstraintSatisfiable devices attribute driverCounts \<longleftrightarrow>
      \<not> length ?ds < 2 \<and> (\<exists>v dm. (v, dm) \<in> set (nested_count ?ps) \<and> ?Q dm)"
    unfolding isPartitionConstraintSatisfiable_def Let_def list_ex_iff by auto
  also have "\<dots> \<longleftrightarrow> (\<exists>a b. a \<noteq> b \<and> publishes devices attribute a \<and> publishes devices attribute b) \<and>
      (\<exists>v. v \<in> fst ` set (nested_count ?ps) \<and> ?Q (get_or [] (nested_count ?ps) v))"
    unfolding two entry by (rule refl)
  also have "\<dots> \<longleftrightarrow> (\<exists>a b. a \<noteq> b \<and> publishes devices attribute a \<and> publishes devices attribute b)
    \<and> (\<exists>val. list_ex (\<lambda>dev. val \<in> set (deviceAttributeValues dev attribute)) devices
        \<and> list_all (\<lambda>(driver, needed). if publishes devices attribute (baseDriverName driver)
            then needed \<le> occurrences devices attribute val (baseDriverName driver) else True) driverCounts)"
    unfolding keys nested_count_get publishing_counts ds not_less
    by (intro conj_cong ex_cong1 refl arg_cong2 [of _ _ _ _ list_all]) (auto simp: fun_eq_iff)
  finally show ?thesis .
qed

section \<open>What a partition configuration says\<close>

definition rule_applies :: "PartitionDevice \<Rightarrow> TopologyRule \<Rightarrow> bool" where
  "rule_applies p rule =
    ((if tr_Driver rule = '''' then True else has_key (pd_DeviceCounts p) (tr_Driver rule))
     \<and> (if pd_Devices p = [] then True
        else drivers_with deviceHasScalarAttribute (pd_Devices p) (tr_Attribute rule) (pd_DeviceCounts p) \<noteq> []))"

definition rule_tight :: "PartitionDevice \<Rightarrow> TopologyRule \<Rightarrow> bool" where
  "rule_tight p rule = (rule_applies p rule \<and> tr_FallbackAttribute rule \<noteq> ''''
     \<and> isPartitionConstraintSatisfiable (pd_Devices p) (tr_Attribute rule) (pd_DeviceCounts p))"

definition rule_emits :: "PartitionDevice \<Rightarrow> TopologyRule \<Rightarrow> bool" where
  "rule_emits p rule = (rule_applies p rule \<and> (if tr_FallbackAttribute rule = '''' then True
     else isPartitionConstraintSatisfiable (pd_Devices p) (tr_Attribute rule) (pd_DeviceCounts p)))"

definition emitted :: "PartitionDevice \<Rightarrow> TopologyRule \<Rightarrow> AlignmentConfig" where
  "emitted p rule = \<lparr> ac_Attribute = tr_Attribute rule,
     ac_Requests = (if pd_Devices p \<noteq> [] then drivers_with deviceHasScalarAttribute (pd_Devices p) (tr_Attribute rule) (pd_DeviceCounts p)
       else keys (pd_DeviceCounts p)),
     ac_Enforcement = mode_or (tr_Enforcement rule) EnforcementRequired \<rparr>"

lemma partition_alignment_cases:
  "partition_alignment p (als, c) rule =
    (als @ (if rule_emits p rule then [emitted p rule] else []),
     if rule_tight p rule then CouplingTight
     else if rule_applies p rule \<and> tr_FallbackAttribute rule \<noteq> '''' \<and> c \<noteq> CouplingTight then CouplingLoose else c)"
  by (simp add: partition_alignment_def rule_emits_def rule_tight_def rule_applies_def emitted_def Let_def)

lemma partition_alignments:
  "foldl (partition_alignment p) ([], CouplingNone) rules =
    (map (emitted p) (filter (rule_emits p) rules),
     if list_ex (rule_tight p) rules then CouplingTight
     else if list_ex (\<lambda>r. rule_applies p r \<and> tr_FallbackAttribute r \<noteq> '''') rules then CouplingLoose else CouplingNone)"
proof (induction rules rule: rev_induct)
  case (snoc r rules)
  then show ?case by (auto simp: partition_alignment_cases)
qed simp

text \<open>C32: the configuration of a partition asks, for each driver of the partition, for its class with
  the driver's count; it carries one alignment per applicable match rule that has no fallback or
  whose constraint the partition's devices satisfy; and the coupling is tight exactly when a
  rule with a fallback is satisfied, loose when such rules apply but none is satisfied, and none
  when there is no such rule.\<close>

theorem buildPartitionConfig_spec:
  "(case buildPartitionConfig rules p of (config, coupling) \<Rightarrow>
     map (\<lambda>sr. (sr_DeviceClass sr, sr_Count sr)) (pc_SubResources config) =
       map (\<lambda>(driver, count). (GetDeviceClassForDriver rules driver, count)) (pd_DeviceCounts p)
     \<and> pc_Alignments config = map (emitted p) (filter (rule_emits p) (GetMatchConstraintRules rules))
     \<and> coupling = (if list_ex (rule_tight p) (GetMatchConstraintRules rules) then CouplingTight
         else if list_ex (\<lambda>r. rule_applies p r \<and> tr_FallbackAttribute r \<noteq> '''') (GetMatchConstraintRules rules)
         then CouplingLoose else CouplingNone))"
proof -
  have frame: "sr_DeviceClass (add_numa rules d ns sr) = sr_DeviceClass sr" "sr_Count (add_numa rules d ns sr) = sr_Count sr"
    "sr_DeviceClass (add_mode d devs sr) = sr_DeviceClass sr" "sr_Count (add_mode d devs sr) = sr_Count sr" for d ns devs sr
    by (simp_all add: add_numa_def add_mode_def Let_def split: option.splits)
  show ?thesis
    by (simp add: buildPartitionConfig_def partition_alignments Let_def partition_sub_resource_def frame case_prod_unfold)
qed

lemma numa_selector_any: "CHR ''/'' \<in> set attr \<Longrightarrow> \<exists>d n. BuildNUMACELSelector attr vs = cel_text (numa_cel d n vs)"
proof -
  assume "CHR ''/'' \<in> set attr"
  then obtain d n where "attr = d @ CHR ''/'' # n" "CHR ''/'' \<notin> set d" by (metis split_list_first)
  with numa_selector_text [of d n vs] show ?thesis by auto
qed

lemma cel_text_numa_nonempty [simp]: "cel_text (numa_cel d n vs) \<noteq> ''''" "'''' \<noteq> cel_text (numa_cel d n vs)"
  by (simp_all add: numa_cel_def split: list.splits)

text \<open>When a partition has NUMA nodes, every sub-resource of its configuration ends with a CEL
  selector that holds exactly on devices publishing the driver's NUMA attribute with one of the
  partition's NUMA nodes: no sub-resource is left unpinned, whatever rules are loaded.\<close>

theorem partition_sub_resources_pinned:
  assumes "pd_NUMANodes p \<noteq> []"
  shows "list_all (\<lambda>sr. sr_Selectors sr \<noteq> [] \<and> (\<exists>e d n. last (sr_Selectors sr) = cel_text e \<and>
      (\<forall>env. cel_holds env e \<longleftrightarrow> (\<exists>v. v \<in> set (pd_NUMANodes p) \<and> env d n = Some v))))
    (pc_SubResources (fst (buildPartitionConfig rules p)))"
proof -
  have sel: "\<exists>d n. (case GetNUMAAttributeForDriver rules driver of
        Some attr \<Rightarrow> BuildNUMACELSelector (if \<not> Contains attr ''/'' then driver @ ''/'' @ attr else attr) vs
      | None \<Rightarrow> BuildNUMACELSelector AttrNUMANode vs) = cel_text (numa_cel d n vs)" for driver vs
    using numa_selector_any by (auto simp: AttrNUMANode_def split: option.splits)
  have "\<exists>d n. sr_Selectors (add_numa rules driver (pd_NUMANodes p) sr) =
      sr_Selectors sr @ [cel_text (numa_cel d n (pd_NUMANodes p))]" for driver sr
    using sel [of "pd_NUMANodes p" driver] assms by (auto simp: add_numa_def Let_def)
  then have "\<exists>pre d n. sr_Selectors (partition_sub_resource rules p dc) = pre @ [cel_text (numa_cel d n (pd_NUMANodes p))]" for dc
    by (fastforce simp: partition_sub_resource_def Let_def)
  then show ?thesis
    unfolding buildPartitionConfig_def Let_def list_all_iff
    by (simp add: list.set_map) (metis cel_holds_numa last_snoc snoc_eq_iff_butlast)
qed

theorem partition_sub_resources_pinned_witness:
  "list_all (\<lambda>sr. sr_Selectors sr \<noteq> [] \<and> (\<exists>e d n. last (sr_Selectors sr) = cel_text e \<and>
      (\<forall>env. cel_holds env e \<longleftrightarrow> (\<exists>v. v \<in> set [0 :: int] \<and> env d n = Some v))))
    (pc_SubResources (fst (buildPartitionConfig [(''ns/a'', example_rule ''a'' ''gpu'' ''vfio.gpu'')]
      (buildPartitionFromDevices ''n-numa-0'' ''n'' ''gpu'' ''numa'' [example_device ''gpu'' ''gpu0'' None 0 []]))))"
proof -
  let ?p = "buildPartitionFromDevices ''n-numa-0'' ''n'' ''gpu'' ''numa'' [example_device ''gpu'' ''gpu0'' None 0 []]"
  have "pd_NUMANodes ?p = [0]"
    by (simp add: buildPartitionFromDevices_def example_device_def collect_set_def set_add_def)
  then show ?thesis
    using partition_sub_resources_pinned [of ?p "[(''ns/a'', example_rule ''a'' ''gpu'' ''vfio.gpu'')]"] by simp
qed

section \<open>The JSON form of a configuration\<close>

definition encode_sub :: "SubResourceConfig \<Rightarrow> json" where
  "encode_sub sr = JObj ([(''deviceClass'', JStr (sr_DeviceClass sr)), (''count'', JNum (sr_Count sr))]
     @ (if sr_Capacity sr = [] then [] else [(''capacity'', enc_map (sr_Capacity sr))])
     @ (if sr_Selectors sr = [] then [] else [(''selectors'', JArr (map JStr (sr_Selectors sr)))])
     @ (if sr_PartitionMode sr = '''' then [] else [(''partitionMode'', JStr (sr_PartitionMode sr))]))"

definition encode_alignment :: "AlignmentConfig \<Rightarrow> json" where
  "encode_alignment a = JObj [(''attribute'', JStr (ac_Attribute a)), (''requests'', enc_list JStr (ac_Requests a)),
     (''enforcement'', JStr (ac_Enforcement a))]"

definition encode_config :: "PartitionConfig \<Rightarrow> json" where
  "encode_config c = JObj [(''kind'', JStr (pc_Kind c)), (''subResources'', enc_list encode_sub (pc_SubResources c)),
     (''alignments'', enc_list encode_alignment (pc_Alignments c))]"

definition decode_sub_field :: "SubResourceConfig \<Rightarrow> string \<times> json \<Rightarrow> SubResourceConfig option" where
  "decode_sub_field sr kv = (let k = fst kv; v = snd kv in
     if field_is ''deviceClass'' k then map_option (\<lambda>s. sr\<lparr>sr_DeviceClass := s\<rparr>) (dec_str (sr_DeviceClass sr) v)
     else if field_is ''count'' k then map_option (\<lambda>n. sr\<lparr>sr_Count := n\<rparr>) (dec_int (sr_Count sr) v)
     else if field_is ''capacity'' k then map_option (\<lambda>m. sr\<lparr>sr_Capacity := m\<rparr>) (dec_map (sr_Capacity sr) v)
     else if field_is ''selectors'' k then map_option (\<lambda>ss. sr\<lparr>sr_Selectors := ss\<rparr>) (dec_strs v)
     else if field_is ''partitionMode'' k then map_option (\<lambda>s. sr\<lparr>sr_PartitionMode := s\<rparr>) (dec_str (sr_PartitionMode sr) v)
     else Some sr)"

definition decode_sub :: "json \<Rightarrow> SubResourceConfig option" where
  "decode_sub j = (let zero = \<lparr> sr_DeviceClass = '''', sr_Count = 0, sr_Capacity = [], sr_Selectors = [],
       sr_PartitionMode = '''' \<rparr> in
     case j of JObj kvs \<Rightarrow> fold_opt decode_sub_field zero kvs | JNull \<Rightarrow> Some zero | _ \<Rightarrow> None)"

definition decode_alignment_field :: "AlignmentConfig \<Rightarrow> string \<times> json \<Rightarrow> AlignmentConfig option" where
  "decode_alignment_field a kv = (let k = fst kv; v = snd kv in
     if field_is ''attribute'' k then map_option (\<lambda>s. a\<lparr>ac_Attribute := s\<rparr>) (dec_str (ac_Attribute a) v)
     else if field_is ''requests'' k then map_option (\<lambda>ss. a\<lparr>ac_Requests := ss\<rparr>) (dec_strs v)
     else if field_is ''enforcement'' k then map_option (\<lambda>s. a\<lparr>ac_Enforcement := s\<rparr>) (dec_str (ac_Enforcement a) v)
     else Some a)"

definition decode_alignment :: "json \<Rightarrow> AlignmentConfig option" where
  "decode_alignment j = (let zero = \<lparr> ac_Attribute = '''', ac_Requests = [], ac_Enforcement = '''' \<rparr> in
     case j of JObj kvs \<Rightarrow> fold_opt decode_alignment_field zero kvs | JNull \<Rightarrow> Some zero | _ \<Rightarrow> None)"

definition decode_config_field :: "PartitionConfig \<Rightarrow> string \<times> json \<Rightarrow> PartitionConfig option" where
  "decode_config_field c kv = (let k = fst kv; v = snd kv in
     if field_is ''kind'' k then map_option (\<lambda>s. c\<lparr>pc_Kind := s\<rparr>) (dec_str (pc_Kind c) v)
     else if field_is ''subResources'' k then map_option (\<lambda>ss. c\<lparr>pc_SubResources := ss\<rparr>) (dec_list decode_sub v)
     else if field_is ''alignments'' k then map_option (\<lambda>ss. c\<lparr>pc_Alignments := ss\<rparr>) (dec_list decode_alignment v)
     else Some c)"

definition decode_config :: "json \<Rightarrow> PartitionConfig option" where
  "decode_config j = (let zero = \<lparr> pc_Kind = '''', pc_SubResources = [], pc_Alignments = [] \<rparr> in
     case j of JObj kvs \<Rightarrow> fold_opt decode_config_field zero kvs | JNull \<Rightarrow> Some zero | _ \<Rightarrow> None)"

text \<open>A decoded map has its keys in sorted order; as a map it is the same.\<close>

definition canonical_sub :: "SubResourceConfig \<Rightarrow> SubResourceConfig" where
  "canonical_sub sr = sr\<lparr>sr_Capacity := sorted_map (sr_Capacity sr)\<rparr>"

definition canonical :: "PartitionConfig \<Rightarrow> PartitionConfig" where
  "canonical c = c\<lparr>pc_SubResources := map canonical_sub (pc_SubResources c)\<rparr>"

definition wf_config :: "PartitionConfig \<Rightarrow> bool" where
  "wf_config c = list_all (\<lambda>sr. wf_map (sr_Capacity sr) \<and> int64 (sr_Count sr) = sr_Count sr) (pc_SubResources c)"

lemma field_is_same [simp]: "field_is name name"
  by (simp add: field_is_def)

lemma sub_fields_distinct [simp]:
  "\<not> field_is ''deviceClass'' ''count''" "\<not> field_is ''deviceClass'' ''capacity''" "\<not> field_is ''deviceClass'' ''selectors''"
  "\<not> field_is ''deviceClass'' ''partitionMode''" "\<not> field_is ''count'' ''capacity''" "\<not> field_is ''count'' ''selectors''"
  "\<not> field_is ''count'' ''partitionMode''" "\<not> field_is ''capacity'' ''selectors''" "\<not> field_is ''capacity'' ''partitionMode''"
  "\<not> field_is ''selectors'' ''partitionMode''" "\<not> field_is ''attribute'' ''requests''" "\<not> field_is ''attribute'' ''enforcement''"
  "\<not> field_is ''requests'' ''enforcement''" "\<not> field_is ''kind'' ''subResources''" "\<not> field_is ''kind'' ''alignments''"
  "\<not> field_is ''subResources'' ''alignments''"
  by code_simp+

lemma sorted_map_Nil [simp]: "sorted_map [] = []"
  by (simp add: sorted_map_def)

lemma decode_encode_sub:
  assumes "wf_map (sr_Capacity sr)" and "int64 (sr_Count sr) = sr_Count sr"
  shows "decode_sub (encode_sub sr) = Some (canonical_sub sr)"
proof -
  obtain c n m ss p where sr: "sr = \<lparr> sr_DeviceClass = c, sr_Count = n, sr_Capacity = m, sr_Selectors = ss, sr_PartitionMode = p \<rparr>"
    by (cases sr) auto
  show ?thesis using assms
    by (simp add: sr decode_sub_def encode_sub_def decode_sub_field_def canonical_sub_def dec_str_def dec_int_def Let_def)
qed

lemma decode_encode_alignment: "decode_alignment (encode_alignment a) = Some a"
proof -
  obtain t r e where a: "a = \<lparr> ac_Attribute = t, ac_Requests = r, ac_Enforcement = e \<rparr>" by (cases a) auto
  show ?thesis
    by (simp add: a decode_alignment_def encode_alignment_def decode_alignment_field_def dec_str_def Let_def)
qed

lemma config_decodes:
  assumes "wf_config c"
  shows "decode_config (encode_config c) = Some (canonical c)"
proof -
  have "dec_list decode_sub (enc_list encode_sub (pc_SubResources c)) = Some (map canonical_sub (pc_SubResources c))"
    using assms by (intro dec_enc_list) (auto simp: wf_config_def list_all_iff decode_encode_sub)
  moreover have "dec_list decode_alignment (enc_list encode_alignment (pc_Alignments c)) = Some (pc_Alignments c)"
    using dec_enc_list [of "pc_Alignments c" decode_alignment encode_alignment "\<lambda>a. a"]
    by (simp add: decode_encode_alignment)
  ultimately show ?thesis
    by (simp add: decode_config_def encode_config_def decode_config_field_def canonical_def dec_str_def Let_def)
qed

text \<open>The webhook reads back what the controller wrote: decoding the JSON form of a configuration
  gives the configuration itself, up to the order of the capacity maps.\<close>

theorem config_json_roundtrip:
  assumes "wf_config c"
  shows "decode_config (encode_config c) = Some (canonical c)"
  using assms by (rule config_decodes)

theorem config_json_roundtrip_witness:
  "decode_config (encode_config \<lparr> pc_Kind = ''PartitionConfig'', pc_SubResources = [\<lparr> sr_DeviceClass = ''gpu'', sr_Count = 2,
      sr_Capacity = [(''mem'', ''1''), (''cores'', ''8'')], sr_Selectors = [''s''], sr_PartitionMode = '''' \<rparr>],
      pc_Alignments = [\<lparr> ac_Attribute = ''a'', ac_Requests = [''gpu''], ac_Enforcement = ''required'' \<rparr>] \<rparr>) =
   Some \<lparr> pc_Kind = ''PartitionConfig'', pc_SubResources = [\<lparr> sr_DeviceClass = ''gpu'', sr_Count = 2,
      sr_Capacity = [(''cores'', ''8''), (''mem'', ''1'')], sr_Selectors = [''s''], sr_PartitionMode = '''' \<rparr>],
      pc_Alignments = [\<lparr> ac_Attribute = ''a'', ac_Requests = [''gpu''], ac_Enforcement = ''required'' \<rparr>] \<rparr>"
  by (subst config_json_roundtrip)
    (simp_all add: wf_config_def int64_id canonical_def canonical_sub_def sorted_map_def get_or_def)

end
