(* ===== verification/Json_Text.thy ===== *)
theory Json_Text
  imports Device_Config
begin

text \<open>
  The text form of JSON as \<open>encoding/json\<close> writes and reads it, and the text that the controller
  stores in a DeviceClass and the webhook reads (\<open>internal/controller/deviceclass_manager.go\<close>,
  \<open>internal/webhook/webhook.go\<close>).  Strings are the UTF-8 bytes of valid text.  \<open>Marshal\<close> writes
  no white space and escapes \<open><\<close>, \<open>>\<close>, \<open>&\<close> and the two line separators of Unicode besides what
  JSON asks for; \<open>Unmarshal\<close> accepts every escape.  Numbers are integers.
\<close>

section \<open>Writing\<close>

text \<open>Control characters, bytes below \<open>0x20\<close>, may not stand in a string.\<close>

definition is_control :: "char \<Rightarrow> bool" where
  "is_control c = (case c of Char b0 b1 b2 b3 b4 b5 b6 b7 \<Rightarrow> \<not> b5 \<and> \<not> b6 \<and> \<not> b7)"

lemma is_control_iff: "is_control c \<longleftrightarrow> (of_char c :: int) < 0x20"
  by (cases c) (simp add: is_control_def of_char_def)

definition escape_u :: "int \<Rightarrow> string" where
  "escape_u b = [CHR 0x5C, CHR ''u'', CHR ''0'', CHR ''0'', hex_digit (b div 16), hex_digit b]"

definition escape_byte :: "char \<Rightarrow> string" where
  "escape_byte c =
    (if c = CHR 0x22 \<or> c = CHR 0x5C then [CHR 0x5C, c]
     else if c = CHR 0x08 then [CHR 0x5C, CHR ''b'']
     else if c = CHR 0x0C then [CHR 0x5C, CHR ''f'']
     else if c = CHR 0x0A then [CHR 0x5C, CHR ''n'']
     else if c = CHR 0x0D then [CHR 0x5C, CHR ''r'']
     else if c = CHR 0x09 then [CHR 0x5C, CHR ''t'']
     else if is_control c \<or> c \<in> {CHR ''<'', CHR ''>'', CHR ''&''} then escape_u (of_char c)
     else [c])"

text \<open>U+2028 and U+2029 are the bytes \<open>E2 80 A8\<close> and \<open>E2 80 A9\<close>.\<close>

fun escape :: "string \<Rightarrow> string" where
  "escape [] = []"
| "escape (c # cs) =
    (if c = CHR 0xE2 \<and> take 2 cs = [CHR 0x80, CHR 0xA8] then CHR 0x5C # ''u2028'' @ escape (drop 2 cs)
     else if c = CHR 0xE2 \<and> take 2 cs = [CHR 0x80, CHR 0xA9] then CHR 0x5C # ''u2029'' @ escape (drop 2 cs)
     else escape_byte c @ escape cs)"

definition quoted :: "string \<Rightarrow> string" where
  "quoted s = CHR 0x22 # escape s @ [CHR 0x22]"

fun Marshal :: "json \<Rightarrow> string"
  and items_text :: "json list \<Rightarrow> string"
  and members_text :: "(string \<times> json) list \<Rightarrow> string" where
  "Marshal JNull = ''null''"
| "Marshal (JBool b) = (if b then ''true'' else ''false'')"
| "Marshal (JNum n) = itoa n"
| "Marshal (JStr s) = quoted s"
| "Marshal (JArr js) = CHR ''['' # items_text js @ '']''"
| "Marshal (JObj kvs) = CHR ''{'' # members_text kvs @ ''}''"
| "items_text [] = ''''"
| "items_text (j # js) = Marshal j @ (if js = [] then '''' else CHR '','' # items_text js)"
| "members_text [] = ''''"
| "members_text ((k, j) # kvs) = quoted k @ CHR '':'' # Marshal j @ (if kvs = [] then '''' else CHR '','' # members_text kvs)"

section \<open>Reading\<close>

definition is_ws :: "char \<Rightarrow> bool" where
  "is_ws c = (c \<in> {CHR 0x20, CHR 0x09, CHR 0x0A, CHR 0x0D})"

definition skip_ws :: "string \<Rightarrow> string" where
  "skip_ws s = dropWhile is_ws s"

definition hex_value :: "char \<Rightarrow> int option" where
  "hex_value c =
    (if is_digit c then Some (of_char c - 48)
     else if CHR ''a'' \<le> c \<and> c \<le> CHR ''f'' then Some (of_char c - 87)
     else if CHR ''A'' \<le> c \<and> c \<le> CHR ''F'' then Some (of_char c - 55) else None)"

definition hex4 :: "char \<Rightarrow> char \<Rightarrow> char \<Rightarrow> char \<Rightarrow> int option" where
  "hex4 a b c d = (case (hex_value a, hex_value b, hex_value c, hex_value d) of
     (Some p, Some q, Some r, Some s) \<Rightarrow> Some (p * 4096 + q * 256 + r * 16 + s) | _ \<Rightarrow> None)"

definition utf8 :: "int \<Rightarrow> string" where
  "utf8 u =
    (if u < 0x80 then [char_of u]
     else if u < 0x800 then [char_of (0xC0 + u div 64), char_of (0x80 + u mod 64)]
     else if u < 0x10000 then [char_of (0xE0 + u div 4096), char_of (0x80 + u div 64 mod 64), char_of (0x80 + u mod 64)]
     else [char_of (0xF0 + u div 262144), char_of (0x80 + u div 4096 mod 64), char_of (0x80 + u div 64 mod 64), char_of (0x80 + u mod 64)])"

definition surrogate :: "int \<Rightarrow> bool" where
  "surrogate u = (0xD800 \<le> u \<and> u < 0xE000)"

text \<open>The low half that completes a high surrogate, if it follows at once.\<close>

definition low_half :: "int \<Rightarrow> string \<Rightarrow> int option" where
  "low_half u s = (case s of
     x # y # a # b # c # d # r \<Rightarrow>
       (if x = CHR 0x5C \<and> y = CHR ''u'' \<and> u < 0xDC00
        then case hex4 a b c d of
            Some v \<Rightarrow> (if 0xDC00 \<le> v \<and> v < 0xE000 then Some (0x10000 + (u - 0xD800) * 1024 + (v - 0xDC00)) else None)
          | None \<Rightarrow> None
        else None)
   | _ \<Rightarrow> None)"

definition simple_escape :: "char \<Rightarrow> char option" where
  "simple_escape e = map_of [(CHR 0x22, CHR 0x22), (CHR 0x5C, CHR 0x5C), (CHR ''/'', CHR ''/''), (CHR ''b'', CHR 0x08),
     (CHR ''f'', CHR 0x0C), (CHR ''n'', CHR 0x0A), (CHR ''r'', CHR 0x0D), (CHR ''t'', CHR 0x09)] e"

text \<open>The rest of a string after its opening quote; half a surrogate pair reads as U+FFFD.\<close>

function parse_string :: "string \<Rightarrow> (string \<times> string) option" where
  "parse_string s = (case s of [] \<Rightarrow> None
     | c # cs \<Rightarrow>
         if c = CHR 0x22 then Some ([], cs)
         else if c = CHR 0x5C then (case cs of
             [] \<Rightarrow> None
           | e # r \<Rightarrow>
               if e = CHR ''u'' then (case r of
                   h1 # h2 # h3 # h4 # r1 \<Rightarrow>
                     (case hex4 h1 h2 h3 h4 of None \<Rightarrow> None
                      | Some u \<Rightarrow>
                          if \<not> surrogate u then map_option (apfst ((@) (utf8 u))) (parse_string r1)
                          else case low_half u r1 of
                              Some v \<Rightarrow> map_option (apfst ((@) (utf8 v))) (parse_string (drop 6 r1))
                            | None \<Rightarrow> map_option (apfst ((@) (utf8 0xFFFD))) (parse_string r1))
                 | _ \<Rightarrow> None)
               else case simple_escape e of None \<Rightarrow> None
                 | Some x \<Rightarrow> map_option (apfst ((#) x)) (parse_string r))
         else if is_control c then None
         else map_option (apfst ((#) c)) (parse_string cs))"
  by pat_completeness auto
termination
  by (relation "measure length") auto

declare parse_string.simps [simp del]

definition parse_number :: "string \<Rightarrow> (json \<times> string) option" where
  "parse_number s =
    (let neg = (s \<noteq> [] \<and> hd s = CHR ''-''); body = (if neg then tl s else s);
         ds = takeWhile is_digit body; r = dropWhile is_digit body; v = int (nat_value ds)
     in if ds = [] \<or> (hd ds = CHR ''0'' \<and> length ds > 1) \<or> (r \<noteq> [] \<and> hd r \<in> {CHR ''.'', CHR ''e'', CHR ''E''}) then None
        else Some (JNum (if neg then - v else v), r))"

text \<open>The first argument bounds the depth of the recursion; each call consumes a byte or more.\<close>

fun parse_value :: "nat \<Rightarrow> string \<Rightarrow> (json \<times> string) option"
  and parse_items :: "nat \<Rightarrow> string \<Rightarrow> (json list \<times> string) option"
  and parse_members :: "nat \<Rightarrow> string \<Rightarrow> ((string \<times> json) list \<times> string) option" where
  "parse_value 0 s = None"
| "parse_value (Suc n) s = (case skip_ws s of [] \<Rightarrow> None
     | c # cs \<Rightarrow>
         if c = CHR 0x22 then map_option (apfst JStr) (parse_string cs)
         else if c = CHR ''['' then
           (if prefix '']'' (skip_ws cs) then Some (JArr [], tl (skip_ws cs)) else map_option (apfst JArr) (parse_items n cs))
         else if c = CHR ''{'' then
           (if prefix ''}'' (skip_ws cs) then Some (JObj [], tl (skip_ws cs)) else map_option (apfst JObj) (parse_members n cs))
         else if prefix ''null'' (c # cs) then Some (JNull, drop 3 cs)
         else if prefix ''true'' (c # cs) then Some (JBool True, drop 3 cs)
         else if prefix ''false'' (c # cs) then Some (JBool False, drop 4 cs)
         else parse_number (c # cs))"
| "parse_items 0 s = None"
| "parse_items (Suc n) s = (case parse_value n s of None \<Rightarrow> None
     | Some (j, r) \<Rightarrow> (case skip_ws r of [] \<Rightarrow> None
         | c # r' \<Rightarrow>
             if c = CHR '']'' then Some ([j], r')
             else if c = CHR '','' then map_option (apfst ((#) j)) (parse_items n r') else None))"
| "parse_members 0 s = None"
| "parse_members (Suc n) s = (case skip_ws s of [] \<Rightarrow> None
     | q # s' \<Rightarrow> if q \<noteq> CHR 0x22 then None
         else (case parse_string s' of None \<Rightarrow> None
         | Some (k, r) \<Rightarrow> (case skip_ws r of [] \<Rightarrow> None
         | d # r' \<Rightarrow> if d \<noteq> CHR '':'' then None
             else (case parse_value n r' of None \<Rightarrow> None
             | Some (j, r2) \<Rightarrow> (case skip_ws r2 of [] \<Rightarrow> None
             | c # r3 \<Rightarrow>
                 if c = CHR ''}'' then Some ([(k, j)], r3)
                 else if c = CHR '','' then map_option (apfst ((#) (k, j))) (parse_members n r3) else None)))))"

definition Unmarshal :: "string \<Rightarrow> json option" where
  "Unmarshal s = (case parse_value (Suc (length s)) s of None \<Rightarrow> None
     | Some (j, r) \<Rightarrow> if skip_ws r = [] then Some j else None)"

section \<open>Strings are read back\<close>

lemma of_char_nonneg: "0 \<le> (of_char c :: int)"
  by (cases c) (simp add: of_char_def)

lemma hex_value_digit: "0 \<le> d \<Longrightarrow> d < 16 \<Longrightarrow> hex_value (hex_digit d) = Some d"
proof -
  assume "0 \<le> d" "d < 16"
  then have "d \<in> set [0..15]" by simp
  moreover have "list_all (\<lambda>d. hex_value (hex_digit d) = Some d) [0..15]" by code_simp
  ultimately show ?thesis unfolding list_all_iff by blast
qed

lemma hex_digit_mod: "hex_digit b = hex_digit (b mod 16)"
  by (simp add: hex_digit_def)

lemma hex4_byte: "0 \<le> b \<Longrightarrow> b < 256 \<Longrightarrow> hex4 (CHR ''0'') (CHR ''0'') (hex_digit (b div 16)) (hex_digit b) = Some b"
proof -
  assume b: "0 \<le> b" "b < 256"
  have "hex_value (hex_digit (b div 16)) = Some (b div 16)" "hex_value (hex_digit b) = Some (b mod 16)"
    using b hex_value_digit [of "b div 16"] hex_value_digit [of "b mod 16"] hex_digit_mod [of b] by simp_all
  moreover have "hex_value (CHR ''0'') = Some 0" by code_simp
  ultimately show ?thesis by (simp add: hex4_def)
qed

lemma parse_escape_u:
  assumes "0 \<le> b" "b < 0x80"
  shows "parse_string (escape_u b @ t) = map_option (apfst ((#) (char_of b))) (parse_string t)"
proof -
  have "utf8 b = [char_of b]" "\<not> surrogate b" using assms by (simp_all add: utf8_def surrogate_def)
  moreover have "(@) [char_of b] = (#) (char_of b)" by (rule ext) simp
  ultimately show ?thesis using hex4_byte [of b] assms
    by (subst parse_string.simps) (simp add: escape_u_def)
qed

lemma parse_simple:
  "simple_escape e = Some x \<Longrightarrow> e \<noteq> CHR ''u'' \<Longrightarrow>
    parse_string (CHR 0x5C # e # t) = map_option (apfst ((#) x)) (parse_string t)"
  by (subst parse_string.simps) simp

lemma parse_plain:
  "c \<noteq> CHR 0x22 \<Longrightarrow> c \<noteq> CHR 0x5C \<Longrightarrow> \<not> is_control c \<Longrightarrow>
    parse_string (c # t) = map_option (apfst ((#) c)) (parse_string t)"
  by (subst parse_string.simps) simp

lemma parse_byte: "parse_string (escape_byte c @ t) = map_option (apfst ((#) c)) (parse_string t)"
proof (cases "c \<in> {CHR 0x22, CHR 0x5C, CHR 0x08, CHR 0x0C, CHR 0x0A, CHR 0x0D, CHR 0x09}")
  case True
  then have "\<exists>e. escape_byte c = [CHR 0x5C, e] \<and> simple_escape e = Some c \<and> e \<noteq> CHR ''u''"
    by (auto simp: escape_byte_def simple_escape_def)
  then show ?thesis by (auto simp: parse_simple)
next
  case False
  then have esc: "escape_byte c = (if is_control c \<or> c \<in> {CHR ''<'', CHR ''>'', CHR ''&''} then escape_u (of_char c) else [c])"
    by (simp add: escape_byte_def)
  show ?thesis
  proof (cases "is_control c \<or> c \<in> {CHR ''<'', CHR ''>'', CHR ''&''}")
    case True
    then have "(of_char c :: int) < 0x80" "0 \<le> (of_char c :: int)" by (auto simp: is_control_iff of_char_nonneg)
    with True show ?thesis unfolding esc by (simp add: parse_escape_u)
  next
    case other: False
    with False show ?thesis unfolding esc by (simp add: parse_plain)
  qed
qed

text \<open>The line and paragraph separators.\<close>

lemma separator_codes:
  "hex4 (CHR ''2'') (CHR ''0'') (CHR ''2'') (CHR ''8'') = Some 0x2028" "hex4 (CHR ''2'') (CHR ''0'') (CHR ''2'') (CHR ''9'') = Some 0x2029"
  "\<not> surrogate 0x2028" "\<not> surrogate 0x2029"
  "utf8 0x2028 = [CHR 0xE2, CHR 0x80, CHR 0xA8]" "utf8 0x2029 = [CHR 0xE2, CHR 0x80, CHR 0xA9]"
  by (simp_all add: hex4_def hex_value_def is_digit_iff surrogate_def utf8_def char_of_def bit_iff_odd)

lemma parse_separators:
  "parse_string (CHR 0x5C # ''u2028'' @ t) = map_option (apfst ((@) [CHR 0xE2, CHR 0x80, CHR 0xA8])) (parse_string t)"
  "parse_string (CHR 0x5C # ''u2029'' @ t) = map_option (apfst ((@) [CHR 0xE2, CHR 0x80, CHR 0xA9])) (parse_string t)"
  by (subst parse_string.simps, simp add: separator_codes)+

lemma take2_split: "take 2 cs = [a, b] \<Longrightarrow> a # b # drop 2 cs = cs"
  by (metis append_Cons append_Nil append_take_drop_id)

lemma parse_escape: "parse_string (escape s @ CHR 0x22 # rest) = Some (s, rest)"
proof (induction s rule: escape.induct)
  case 1
  show ?case by (subst parse_string.simps) simp
next
  case (2 c cs)
  let ?ls = "c = CHR 0xE2 \<and> take 2 cs = [CHR 0x80, CHR 0xA8]" and ?ps = "c = CHR 0xE2 \<and> take 2 cs = [CHR 0x80, CHR 0xA9]"
  consider (ls) ?ls | (ps) "\<not> ?ls" ?ps | (byte) "\<not> ?ls" "\<not> ?ps" by blast
  then show ?case
  proof cases
    case ls
    have "escape (c # cs) = CHR 0x5C # ''u2028'' @ escape (drop 2 cs)" by (simp only: escape.simps ls simp_thms if_True)
    with "2.IH"(1) [OF ls] take2_split [of cs "CHR 0x80" "CHR 0xA8"] ls show ?thesis
      by (simp only: append_Cons append_assoc parse_separators(1) [unfolded append_Cons]) simp
  next
    case ps
    have "escape (c # cs) = CHR 0x5C # ''u2029'' @ escape (drop 2 cs)" using ps by (simp only: escape.simps if_False if_True) simp
    with "2.IH"(2) [OF ps] take2_split [of cs "CHR 0x80" "CHR 0xA9"] ps(2) show ?thesis
      by (simp only: append_Cons append_assoc parse_separators(2) [unfolded append_Cons]) simp
  next
    case byte
    have "escape (c # cs) = escape_byte c @ escape cs" by (simp only: escape.simps byte if_False)
    with "2.IH"(3) [OF byte] show ?thesis by (simp only: append_assoc parse_byte) simp
  qed
qed

section \<open>Values are read back\<close>

definition closes :: "string \<Rightarrow> bool" where
  "closes r = (r = [] \<or> hd r \<in> {CHR '','', CHR '']'', CHR ''}''})"

definition opens :: "char \<Rightarrow> bool" where
  "opens c = (\<not> is_ws c \<and> c \<noteq> CHR '']'' \<and> c \<noteq> CHR ''}'')"

lemma show_nat_Cons: "\<exists>c cs. show_nat n = c # cs \<and> is_digit c"
  by (metis list.exhaust list.set_intros(1) show_nat_digits show_nat_nonempty)

lemma digit_opens: "is_digit c \<Longrightarrow> opens c \<and> c \<noteq> CHR 0x22 \<and> c \<noteq> CHR ''['' \<and> c \<noteq> CHR ''{'' \<and> c \<noteq> CHR ''n'' \<and> c \<noteq> CHR ''t'' \<and> c \<noteq> CHR ''f'' \<and> c \<noteq> CHR ''-''"
  by (auto simp: is_digit_iff opens_def is_ws_def)

lemma itoa_start: "\<exists>c cs. itoa n = c # cs \<and> (is_digit c \<or> c = CHR ''-'')"
  using show_nat_Cons by (metis itoa_def)

lemma Marshal_start: "\<exists>c cs. Marshal j = c # cs \<and> opens c"
proof (cases j)
  case (JNum n)
  with itoa_start [of n] digit_opens show ?thesis by (auto simp: opens_def is_ws_def)
qed (auto simp: opens_def is_ws_def quoted_def)

lemma skip_ws_opens: "opens c \<Longrightarrow> skip_ws (c # cs) = c # cs"
  by (simp add: skip_ws_def opens_def)

lemma skip_ws_Marshal: "skip_ws (Marshal j @ r) = Marshal j @ r"
  using Marshal_start [of j] skip_ws_opens by auto

lemma skip_ws_closes: "closes r \<Longrightarrow> skip_ws r = r"
  by (cases r) (auto simp: closes_def skip_ws_def is_ws_def)

lemma show_nat_zero: "show_nat n = CHR ''0'' # cs \<Longrightarrow> cs = []"
proof (induction n arbitrary: cs rule: show_nat.induct)
  case (1 n)
  show ?case
  proof (cases "n < 10")
    case True
    with "1.prems" show ?thesis by (subst (asm) show_nat.simps) simp
  next
    case False
    then have eq: "show_nat n = show_nat (n div 10) @ [digit_char (n mod 10)]" by (subst show_nat.simps) simp
    obtain c ds where c: "show_nat (n div 10) = c # ds" using show_nat_Cons by blast
    with eq "1.prems" have "c = CHR ''0''" by simp
    with c "1.IH" [OF False] have "show_nat (n div 10) = ''0''" by simp
    moreover have "nat_value ''0'' = 0" by code_simp
    ultimately have "n div 10 = 0" by (metis nat_value_show_nat)
    with False show ?thesis by simp
  qed
qed

lemma parse_digits:
  assumes "closes r"
  shows "takeWhile is_digit (show_nat n @ r) = show_nat n" "dropWhile is_digit (show_nat n @ r) = r"
proof -
  have "\<not> is_digit c" if "r = c # cs" for c cs using that assms by (auto simp: closes_def is_digit_iff)
  then show "takeWhile is_digit (show_nat n @ r) = show_nat n" "dropWhile is_digit (show_nat n @ r) = r"
    using show_nat_digits by (cases r; simp add: takeWhile_append2 dropWhile_append2)+
qed

lemma parse_number_nat:
  assumes "closes r"
  shows "parse_number (show_nat m @ r) = Some (JNum (int m), r)" "parse_number (CHR ''-'' # show_nat m @ r) = Some (JNum (- int m), r)"
proof -
  obtain c cs where c: "show_nat m = c # cs" "is_digit c" using show_nat_Cons by blast
  then have nneg: "hd (show_nat m @ r) \<noteq> CHR ''-''" "show_nat m \<noteq> []" using digit_opens by auto
  have lead: "\<not> (hd (show_nat m) = CHR ''0'' \<and> 1 < length (show_nat m))" using c show_nat_zero [of m cs] by auto
  have nexp: "\<not> (r \<noteq> [] \<and> hd r \<in> {CHR ''.'', CHR ''e'', CHR ''E''})" using assms by (auto simp: closes_def)
  note facts = parse_digits [OF assms] nneg lead nexp nat_value_show_nat
  show "parse_number (show_nat m @ r) = Some (JNum (int m), r)"
    unfolding parse_number_def Let_def by (simp only: facts if_False de_Morgan_disj simp_thms append_is_Nil_conv)
  show "parse_number (CHR ''-'' # show_nat m @ r) = Some (JNum (- int m), r)"
    unfolding parse_number_def Let_def
    by (simp only: list.sel list.distinct facts if_True if_False simp_thms)
qed

lemma parse_itoa: "closes r \<Longrightarrow> parse_number (itoa n @ r) = Some (JNum n, r)"
  using parse_number_nat [of r "nat n"] parse_number_nat [of r "nat (- n)"] by (auto simp: itoa_def)


lemma number_opens:
  assumes "is_digit c \<or> c = CHR ''-''"
  shows "opens c" "c \<noteq> CHR 0x22" "c \<noteq> CHR ''[''" "c \<noteq> CHR ''{''" "CHR ''n'' \<noteq> c" "CHR ''t'' \<noteq> c" "CHR ''f'' \<noteq> c"
proof -
  have "opens (CHR ''-'')" by (simp add: opens_def is_ws_def)
  with assms show "opens c" using digit_opens by blast
qed (use assms digit_opens in \<open>auto\<close>)

lemma parse_value_number:
  assumes "closes r"
  shows "parse_value (Suc n) (itoa i @ r) = Some (JNum i, r)"
proof -
  obtain c cs where c: "itoa i = c # cs" "is_digit c \<or> c = CHR ''-''" using itoa_start by blast
  note first = number_opens [OF c(2)]
  have "parse_value (Suc n) (c # cs @ r) = parse_number (c # cs @ r)"
    by (simp only: first parse_value.simps skip_ws_opens list.case if_False prefix_code simp_thms)
  then show ?thesis using parse_itoa [OF assms, of i] by (simp only: c(1) append_Cons)
qed

lemma quoted_append: "quoted k @ r = CHR 0x22 # escape k @ CHR 0x22 # r"
  by (simp add: quoted_def)

lemma skip_ws_structural:
  "skip_ws (CHR 0x22 # r) = CHR 0x22 # r" "skip_ws (CHR ''['' # r) = CHR ''['' # r" "skip_ws (CHR ''{'' # r) = CHR ''{'' # r"
  "skip_ws (CHR '']'' # r) = CHR '']'' # r" "skip_ws (CHR ''}'' # r) = CHR ''}'' # r" "skip_ws (CHR '','' # r) = CHR '','' # r"
  "skip_ws (CHR '':'' # r) = CHR '':'' # r"
  by (simp_all add: skip_ws_def is_ws_def)

lemma closes_structural: "closes []" "closes (CHR '']'' # r)" "closes (CHR ''}'' # r)" "closes (CHR '','' # r)"
  by (simp_all add: closes_def)

lemma items_open: "js \<noteq> [] \<Longrightarrow> \<not> prefix '']'' (skip_ws (items_text js @ r))"
proof (cases js)
  case (Cons j js')
  obtain c cs where "Marshal j = c # cs" "opens c" using Marshal_start by blast
  with Cons show ?thesis by (auto simp: skip_ws_opens) (simp add: opens_def)
qed simp

lemma members_open: "kvs \<noteq> [] \<Longrightarrow> \<not> prefix ''}'' (skip_ws (members_text kvs @ r))"
  by (cases kvs) (auto simp: quoted_def skip_ws_structural)

lemma Marshal_nonempty: "0 < length (Marshal j)"
  using Marshal_start [of j] by auto

lemma parse_item:
  assumes "\<And>r. closes r \<Longrightarrow> parse_value n (Marshal j @ r) = Some (j, r)"
    and "js \<noteq> [] \<Longrightarrow> parse_items n (items_text js @ CHR '']'' # r) = Some (js, r)"
  shows "parse_items (Suc n) (items_text (j # js) @ CHR '']'' # r) = Some (j # js, r)"
  using assms by (cases "js = []") (simp_all add: closes_structural skip_ws_structural)

lemma parse_member:
  assumes "\<And>r. closes r \<Longrightarrow> parse_value n (Marshal j @ r) = Some (j, r)"
    and "kvs \<noteq> [] \<Longrightarrow> parse_members n (members_text kvs @ CHR ''}'' # r) = Some (kvs, r)"
  shows "parse_members (Suc n) (members_text ((k, j) # kvs) @ CHR ''}'' # r) = Some ((k, j) # kvs, r)"
  using assms by (cases "kvs = []") (simp_all add: closes_structural skip_ws_structural quoted_append parse_escape)

lemma parse_Marshal:
  "closes r \<Longrightarrow> length (Marshal j) < n \<Longrightarrow> parse_value n (Marshal j @ r) = Some (j, r)"
  "js \<noteq> [] \<Longrightarrow> length (items_text js) + 1 < n \<Longrightarrow> parse_items n (items_text js @ CHR '']'' # r) = Some (js, r)"
  "kvs \<noteq> [] \<Longrightarrow> length (members_text kvs) + 1 < n \<Longrightarrow> parse_members n (members_text kvs @ CHR ''}'' # r) = Some (kvs, r)"
proof (induction j and js and kvs arbitrary: n r and n r and n r rule: Marshal_items_text_members_text.induct)
  case 1
  then show ?case by (cases n) (simp_all add: skip_ws_def is_ws_def)
next
  case (2 b)
  then show ?case by (cases n; cases b) (simp_all add: skip_ws_def is_ws_def)
next
  case (3 i)
  then show ?case by (cases n) (simp_all add: parse_value_number del: parse_value.simps(2))
next
  case (4 s)
  then show ?case by (cases n) (simp_all add: quoted_append skip_ws_structural parse_escape)
next
  case (5 js)
  then show ?case
    by (cases n; cases "js = []") (simp_all add: skip_ws_structural items_open)
next
  case (6 kvs)
  then show ?case
    by (cases n; cases "kvs = []") (simp_all add: skip_ws_structural members_open)
next
  case 7
  then show ?case by simp
next
  case (8 j js)
  then obtain n' where n: "n = Suc n'" by (cases n) auto
  show ?case unfolding n
  proof (rule parse_item)
    show "parse_value n' (Marshal j @ r) = Some (j, r)" if "closes r" for r
      using "8.IH"(1) [OF that, of n'] "8.prems" n by simp
    show "parse_items n' (items_text js @ CHR '']'' # r) = Some (js, r)" if "js \<noteq> []"
      using "8.IH"(2) [of n' r] that "8.prems" n Marshal_nonempty [of j] by simp
  qed
next
  case 9
  then show ?case by simp
next
  case (10 k j kvs)
  then obtain n' where n: "n = Suc n'" by (cases n) auto
  show ?case unfolding n
  proof (rule parse_member)
    show "parse_value n' (Marshal j @ r) = Some (j, r)" if "closes r" for r
      using "10.IH"(1) [OF that, of n'] "10.prems" n by simp
    show "parse_members n' (members_text kvs @ CHR ''}'' # r) = Some (kvs, r)" if "kvs \<noteq> []"
      using "10.IH"(2) [of n' r] that "10.prems" n Marshal_nonempty [of j] by simp
  qed
qed

lemma Unmarshal_Marshal: "Unmarshal (Marshal j) = Some j"
  using parse_Marshal(1) [of "[]" j "Suc (length (Marshal j))"] by (simp add: Unmarshal_def closes_structural skip_ws_def)

section \<open>The configuration in a class\<close>

text \<open>\<open>json.Marshal (config)\<close> in the class builders, and \<open>json.Unmarshal\<close> in \<open>getPartitionConfig\<close>.\<close>

definition marshal_config :: "PartitionConfig \<Rightarrow> string" where
  "marshal_config config = Marshal (encode_config config)"

definition unmarshal_config :: "string \<Rightarrow> PartitionConfig option" where
  "unmarshal_config raw = Option.bind (Unmarshal raw) decode_config"

lemma unmarshal_marshal_config: "wf_config c \<Longrightarrow> unmarshal_config (marshal_config c) = Some (canonical c)"
  by (simp add: unmarshal_config_def marshal_config_def Unmarshal_Marshal config_decodes)

text \<open>C31: the webhook reads back what the controller wrote: the text of a configuration, with every
  escape that JSON and its HTML-safe form need, is read as the configuration itself, up to the
  order of the capacity maps.  A configuration is a Go value: the keys of its maps are distinct and
  its counts fit \<open>int64\<close>.\<close>

theorem config_text_roundtrip:
  assumes "wf_config c"
  shows "unmarshal_config (marshal_config c) = Some (canonical c)"
  using assms by (rule unmarshal_marshal_config)

definition example_written :: PartitionConfig where
  "example_written = \<lparr> pc_Kind = ''PartitionConfig'', pc_SubResources = [\<lparr> sr_DeviceClass = ''gpu'', sr_Count = 2,
      sr_Capacity = [(''mem'', ''1''), (''cores'', ''8'')], sr_Selectors = [''a > 1 && b''], sr_PartitionMode = '''' \<rparr>],
      pc_Alignments = [\<lparr> ac_Attribute = ''a'', ac_Requests = [''gpu''], ac_Enforcement = ''required'' \<rparr>] \<rparr>"

theorem config_text_roundtrip_witness:
  "unmarshal_config (marshal_config example_written) =
   Some \<lparr> pc_Kind = ''PartitionConfig'', pc_SubResources = [\<lparr> sr_DeviceClass = ''gpu'', sr_Count = 2,
      sr_Capacity = [(''cores'', ''8''), (''mem'', ''1'')], sr_Selectors = [''a > 1 && b''], sr_PartitionMode = '''' \<rparr>],
      pc_Alignments = [\<lparr> ac_Attribute = ''a'', ac_Requests = [''gpu''], ac_Enforcement = ''required'' \<rparr>] \<rparr>"
  by (subst config_text_roundtrip)
    (simp_all add: example_written_def wf_config_def int64_id canonical_def canonical_sub_def sorted_map_def get_or_def)

text \<open>The text itself, as the API server stores it.\<close>

lemma example_written_text:
  \<open>marshal_config example_written = ''{"kind":"PartitionConfig","subResources":[{"deviceClass":"gpu","count":2,'' @
     ''"capacity":{"cores":"8","mem":"1"},"selectors":["a '' @ [CHR 0x5C] @ ''u003e 1 '' @ [CHR 0x5C] @ ''u0026'' @ [CHR 0x5C] @
     ''u0026 b"]}],"alignments":[{"attribute":"a","requests":["gpu"],"enforcement":"required"}]}''\<close>
  by code_simp

end
