(* ===== verification/Model_Partitions.thy ===== *)
theory Model_Partitions
  imports Json_Text
begin

text \<open>
  What the classes rely on of the partitions that \<open>BuildPartitions\<close>
  (\<open>internal/controller/partition_builder.go\<close>) makes of a topology model: it never panics; every
  partition of a node holds devices of that node only and counts each driver once; a PCIe root
  partition names a non-empty root; and the devices carry no list of reachable NUMA nodes, because
  the model never fills one in.
\<close>

section \<open>What a partition promises\<close>

text \<open>A PCIe root partition names a non-empty root.\<close>

definition rooted :: "PartitionDevice \<Rightarrow> bool" where
  "rooted p = (pd_Type p = PartitionPCIeRoot \<longrightarrow> pd_PCIeRoots p = [] \<or> hd (pd_PCIeRoots p) \<noteq> '''')"

definition all_rooted :: "PartitionResult list \<Rightarrow> bool" where
  "all_rooted results = list_all (\<lambda>r. list_all rooted (pr_Partitions r)) results"

definition local_devices :: "TopologyDevice list \<Rightarrow> bool" where
  "local_devices devices = list_all (\<lambda>dev. td_NUMANodes dev = []) devices"

definition plain_partition :: "PartitionDevice \<Rightarrow> bool" where
  "plain_partition p = (wf_map (pd_DeviceCounts p) \<and> local_devices (pd_Devices p))"

definition all_plain :: "PartitionResult list \<Rightarrow> bool" where
  "all_plain results = list_all (\<lambda>r. list_all plain_partition (pr_Partitions r)) results"

lemma those_Some: "(\<And>x. x \<in> set xs \<Longrightarrow> \<exists>y. f x = Some y) \<Longrightarrow> \<exists>ys. those (map f xs) = Some ys"
  by (induction xs) force+

lemma those_mem: "those (map f xs) = Some ys \<Longrightarrow> y \<in> set ys \<Longrightarrow> \<exists>x\<in>set xs. f x = Some y"
  by (induction xs arbitrary: ys) (auto split: option.splits)

section \<open>The partitions of a node, one by one\<close>

lemma node_partition_cases:
  assumes "buildNodePartitions Q node nt rules = Some r" and "p \<in> set (pr_Partitions r)"
  obtains (pcie) eff prof i k where "FilterToEffectiveDevices (AllDevices nt) = Some eff"
      "k \<noteq> ''''" "p = pcie_part Q node prof eff i k"
    | (numa) eff prof where "FilterToEffectiveDevices (AllDevices nt) = Some eff"
      "p \<in> set (buildPartitionsFromGroups node prof PartitionNUMA (groupDevicesByAttribute eff numa_key) rules)"
    | (full) eff prof where "FilterToEffectiveDevices (AllDevices nt) = Some eff"
      "p = buildPartitionFromDevices (node @ ''-full-0'') node prof PartitionFull eff"
proof (cases "AllDevices nt = []")
  case True
  with assms show thesis by (auto simp: buildNodePartitions_def Let_def)
next
  case False
  obtain eff where eff: "FilterToEffectiveDevices (AllDevices nt) = Some eff" by (simp add: FilterToEffectiveDevices_eq)
  define prof where "prof = inferProfile (EffectiveDeviceCount (AllDevices nt))"
  have ps: "pr_Partitions r = pcie_partitions Q node prof eff
      @ buildPartitionsFromGroups node prof PartitionNUMA (groupDevicesByAttribute eff numa_key) rules
      @ [buildPartitionFromDevices (node @ ''-full-0'') node prof PartitionFull eff]"
    using buildNodePartitions_eq [OF False eff prof_def, of Q node rules] assms(1) by simp
  have thesis if "p \<in> set (pcie_partitions Q node prof eff)"
  proof -
    from that obtain i k where k: "(i, k) \<in> set (enumerate 0 (pcie_roots eff))" and p: "p = pcie_part Q node prof eff i k"
      unfolding pcie_partitions_eq by auto
    from in_enumerate [OF k] have "k \<noteq> ''''" by auto
    then show thesis using pcie [OF eff] p by blast
  qed
  with assms(2) numa [OF eff] full [OF eff] show thesis unfolding ps by auto
qed

lemma result_partition:
  assumes "BuildPartitions Q model rules = Some results" and "r \<in> set results"
  obtains node nt where "(node, nt) \<in> set (tm_nodes model)"
    "buildNodePartitions Q node nt (GetGroupingRules rules) = Some r"
proof -
  from assms obtain rs where rs: "those (map (\<lambda>(n, nt). buildNodePartitions Q n nt (GetGroupingRules rules))
      (GetNodeTopologies model)) = Some rs" "r \<in> set rs"
    by (auto simp: BuildPartitions_def Option.bind_eq_Some_conv)
  from those_mem [OF this] that show thesis by (auto simp: GetNodeTopologies_def)
qed

lemma BuildPartitions_total: "\<exists>results. BuildPartitions Q model rules = Some results"
proof -
  have total: "\<exists>r. buildNodePartitions Q node nt grs = Some r" for node nt grs
  proof (cases "AllDevices nt = []")
    case False
    obtain eff where "FilterToEffectiveDevices (AllDevices nt) = Some eff" by (simp add: FilterToEffectiveDevices_eq)
    from buildNodePartitions_eq [OF False this refl] show ?thesis by blast
  qed (simp add: buildNodePartitions_def Let_def)
  have "\<exists>rs. those (map (\<lambda>(n, nt). buildNodePartitions Q n nt (GetGroupingRules rules)) (GetNodeTopologies model)) = Some rs"
    by (rule those_Some) (use total in auto)
  then show ?thesis by (force simp: BuildPartitions_def)
qed

section \<open>Every PCIe root partition names its root\<close>

lemma add_share_roots: "pd_PCIeRoots (foldl (add_share Q n) p ds) = pd_PCIeRoots p"
  by (induction ds arbitrary: p) (simp_all add: add_share_def Let_def)

lemma pcie_part_rooted:
  assumes "k \<noteq> ''''"
  shows "rooted (pcie_part Q node profile devices i k)"
proof -
  let ?ds = "filter (\<lambda>d. pcie_key d = k) devices"
  have roots: "pd_PCIeRoots (pcie_part Q node profile devices i k) = sort (collect_set td_PCIeRoot ?ds)"
    by (simp add: pcie_partition_def attr.bucket_get Let_def add_share_roots) (simp add: buildPartitionFromDevices_def)
  have "r \<noteq> ''''" if "r \<in> set (sort (collect_set td_PCIeRoot ?ds))" for r
    using that assms by (auto simp: pcie_key_def split: option.splits)
  then show ?thesis unfolding rooted_def roots by (meson hd_in_set)
qed

lemma numa_partition_types:
  "p \<in> set (buildPartitionsFromGroups node profile ty groups rules) \<Longrightarrow> pd_Type p = ty"
  by (auto simp: buildPartitionsFromGroups_def Let_def group_partition_def split: if_splits)

lemma BuildPartitions_rooted:
  assumes "BuildPartitions Q model rules = Some results"
  shows "all_rooted results"
proof -
  have "rooted p" if r: "r \<in> set results" and p: "p \<in> set (pr_Partitions r)" for r p
  proof -
    from assms r obtain node nt where "buildNodePartitions Q node nt (GetGroupingRules rules) = Some r"
      by (rule result_partition)
    from this p show ?thesis
    proof (cases rule: node_partition_cases)
      case (pcie eff prof i k)
      from pcie_part_rooted [OF pcie(2)] show ?thesis by (simp only: pcie(3))
    next
      case (numa eff prof)
      from numa_partition_types [OF numa(2)] show ?thesis by (simp add: rooted_def)
    qed (simp add: rooted_def)
  qed
  then show ?thesis by (simp add: all_rooted_def list_all_iff)
qed

section \<open>Partitions hold devices of their node\<close>

lemma wf_map_bumps: "wf_map m \<Longrightarrow> wf_map (foldl (\<lambda>m x. bump (key x) (n x) m) m xs)"
  by (induction xs arbitrary: m) simp_all

lemma wf_EffectiveDeviceCount [simp]: "wf_map (EffectiveDeviceCount ds)"
  unfolding EffectiveDeviceCount_def Let_def by (intro wf_map_bumps) simp

lemma enrich_capacity_counts [simp]: "pd_DeviceCounts (enrich_capacity ds p) = pd_DeviceCounts p"
  by (induction ds arbitrary: p) (simp_all add: enrich_capacity_def)

lemma shares_counts_wf: "wf_map (pd_DeviceCounts p) \<Longrightarrow> wf_map (pd_DeviceCounts (foldl (add_share Q k) p ds))"
proof (induction ds arbitrary: p)
  case (Cons d ds)
  have "wf_map (pd_DeviceCounts (add_share Q k p d))" using add_share_cases [of Q k p d] Cons.prems by auto
  then show ?case by (simp add: Cons.IH)
qed simp

lemma pcie_part_counts_wf: "wf_map (pd_DeviceCounts (pcie_part Q node prof devices i k))"
  by (simp add: pcie_partition_def Let_def shares_counts_wf)

lemma split_groups_within:
  assumes "\<And>e. e \<in> set vg \<Longrightarrow> set (snd e) \<subseteq> S" and "e \<in> set (split_groups rule vg)"
  shows "set (snd e) \<subseteq> S"
proof -
  have entries: "set (snd e) \<subseteq> S" if "e \<in> set (concat (map (split_entries rule) vg))" for e
  proof -
    from that obtain e0 where e0: "e0 \<in> set vg" "e \<in> set (split_entries rule e0)" by auto
    have "set (concat (map snd (split_entries rule e0))) = set (snd e0)"
      using split_entries_mset by (metis mset_eq_setD)
    with e0 have "set (snd e) \<subseteq> set (snd e0)" by auto
    with assms(1) [OF e0(1)] show ?thesis by blast
  qed
  have put: "set (put k v m) \<subseteq> insert (k, v) (set m)" for k v and m :: "('k, TopologyDevice list) gomap"
    by (induction m) (auto simp: put_def)
  have loop: "\<forall>e \<in> set (foldl (\<lambda>m e. put (fst e) (snd e) m) m es). set (snd e) \<subseteq> S"
    if "\<forall>e \<in> set m. set (snd e) \<subseteq> S" "\<forall>e \<in> set es. set (snd e) \<subseteq> S" for m es
    using that
  proof (induction es arbitrary: m)
    case (Cons e es)
    have "\<forall>e' \<in> set (put (fst e) (snd e) m). set (snd e') \<subseteq> S"
      using put [of "fst e" "snd e" m] Cons.prems by auto
    with Cons show ?case by simp
  qed simp
  from loop [of "[]" "concat (map (split_entries rule) vg)"] entries assms(2) show ?thesis
    unfolding split_groups_entries by auto
qed

lemma all_splits_within:
  assumes "\<And>e. e \<in> set vg \<Longrightarrow> set (snd e) \<subseteq> S" and "e \<in> set (foldl (\<lambda>vg rule. split_groups rule vg) vg rules)"
  shows "set (snd e) \<subseteq> S"
  using assms
proof (induction rules arbitrary: vg)
  case (Cons rule rules)
  show ?case
  proof (rule Cons.IH)
    show "e \<in> set (foldl (\<lambda>vg rule. split_groups rule vg) (split_groups rule vg) rules)" using Cons.prems(2) by simp
    show "set (snd e') \<subseteq> S" if "e' \<in> set (split_groups rule vg)" for e'
      using split_groups_within [OF Cons.prems(1) that] .
  qed
qed simp

lemma numa_partition_within:
  assumes "p \<in> set (buildPartitionsFromGroups node prof ty (groupDevicesByAttribute devices key) rules)"
  shows "set (pd_Devices p) \<subseteq> set devices \<and> wf_map (pd_DeviceCounts p)"
proof -
  let ?groups = "filter (\<lambda>(key, ds). key \<noteq> '''') (groupDevicesByAttribute devices key)"
  let ?vg = "foldl (\<lambda>vg rule. split_groups rule vg) ?groups rules"
  from assms obtain i k where p: "p = group_partition node prof ty ?vg i k"
    by (auto simp: buildPartitionsFromGroups_def Let_def split: if_splits)
  have groups: "set (snd e) \<subseteq> set devices" if "e \<in> set ?groups" for e
    using that attr.bucket_iff [of "fst e" "snd e" devices key] by auto
  have "set (get_list ?vg k) \<subseteq> set devices"
    using all_splits_within [where vg = ?groups and rules = rules, OF groups] map_of_SomeD [of ?vg k]
    by (cases "map_of ?vg k") (force simp: get_or_def)+
  with p show ?thesis by (simp add: group_partition_def Let_def)
qed

lemma node_partition_within:
  assumes "buildNodePartitions Q node nt rules = Some r" and "p \<in> set (pr_Partitions r)"
  shows "set (pd_Devices p) \<subseteq> set (AllDevices nt) \<and> wf_map (pd_DeviceCounts p)"
proof -
  have eff: "set eff \<subseteq> set (AllDevices nt)" if "FilterToEffectiveDevices (AllDevices nt) = Some eff" for eff
    using effective_subset [OF that] by (metis set_mset_mono set_mset_mset)
  from assms show ?thesis
  proof (cases rule: node_partition_cases)
    case (pcie eff prof i k)
    from pcie_partition_shape [of Q node prof eff i k] obtain extra where
      "pd_Devices p = filter (\<lambda>d. pcie_key d = k) eff @ extra" "set extra \<subseteq> set eff" unfolding pcie(3) by blast
    then show ?thesis using eff [OF pcie(1)] pcie_part_counts_wf [of Q node prof eff i k] pcie(3) by auto
  next
    case (numa eff prof)
    then show ?thesis using numa_partition_within eff [OF numa(1)] by blast
  next
    case (full eff prof)
    then show ?thesis using eff [OF full(1)] by simp
  qed
qed

lemma BuildPartitions_plain:
  assumes "wf_model model" and "BuildPartitions Q model rules = Some results"
  shows "all_plain results"
proof -
  have "plain_partition p" if r: "r \<in> set results" and p: "p \<in> set (pr_Partitions r)" for r p
  proof -
    from assms(2) r obtain node nt where nt: "(node, nt) \<in> set (tm_nodes model)"
      "buildNodePartitions Q node nt (GetGroupingRules rules) = Some r" by (rule result_partition)
    have "td_NUMANodes d = []" if "d \<in> set (AllDevices nt)" for d
      using assms(1) nt(1) that by (fastforce simp: wf_model_def wf_nodes_def wf_node_def wf_device_def AllDevices_def list_all_iff)
    with node_partition_within [OF nt(2) p] show ?thesis
      by (auto simp: plain_partition_def local_devices_def list_all_iff)
  qed
  then show ?thesis by (simp add: all_plain_def list_all_iff)
qed

end
