(* ===== verification/Device_Class.thy ===== *)
theory Device_Class
  imports Model_Partitions
begin

text \<open>
  \<open>internal/controller/deviceclass_manager.go\<close>, second part: the DeviceClass objects published
  for partitions and groupings, and the removal of stale ones.  The Kubernetes API is the
  argument \<open>api\<close>, a record of functions on a state \<open>'w\<close> of the world: every call may fail and
  may change the world.
\<close>

section \<open>Objects and the API\<close>

record OpaqueConfig =
  oc_Driver :: string
  oc_Raw :: string

record DeviceClass =
  dc_Name :: string
  dc_Labels :: "(string, string) gomap"
  dc_ResourceVersion :: string
  dc_Selectors :: "string list"
  dc_Config :: "OpaqueConfig option list"

datatype api_error = NotFound | ApiError string

record 'w dc_api =
  api_Get :: "string \<Rightarrow> 'w \<Rightarrow> (api_error + DeviceClass) \<times> 'w"
  api_Create :: "DeviceClass \<Rightarrow> 'w \<Rightarrow> api_error option \<times> 'w"
  api_Update :: "DeviceClass \<Rightarrow> 'w \<Rightarrow> api_error option \<times> 'w"
  api_Delete :: "string \<Rightarrow> 'w \<Rightarrow> api_error option \<times> 'w"
  api_List :: "string \<Rightarrow> 'w \<Rightarrow> (api_error + DeviceClass list) \<times> 'w"

datatype sync_error =
    CreateFailed string api_error
  | GetFailed string api_error
  | UpdateFailed string api_error
  | ListFailed api_error

text \<open>The label \<open>CoordinatorDriverName + "/" + name\<close>.\<close>

definition lbl :: "string \<Rightarrow> string" where
  "lbl name = CoordinatorDriverName @ ''/'' @ name"

lemma lbl_inj [simp]: "lbl a = lbl b \<longleftrightarrow> a = b"
  by (simp add: lbl_def)

section \<open>Publishing\<close>

definition publishDeviceClass :: "'w dc_api \<Rightarrow> DeviceClass \<Rightarrow> 'w \<Rightarrow> sync_error option \<times> 'w" where
  "publishDeviceClass api dc w =
    (case api_Get api (dc_Name dc) w of
       (Inl NotFound, w1) \<Rightarrow>
         (case api_Create api dc w1 of (None, w2) \<Rightarrow> (None, w2)
          | (Some e, w2) \<Rightarrow> (Some (CreateFailed (dc_Name dc) e), w2))
     | (Inl e, w1) \<Rightarrow> (Some (GetFailed (dc_Name dc) e), w1)
     | (Inr existing, w1) \<Rightarrow>
         (case api_Update api (dc\<lparr>dc_ResourceVersion := dc_ResourceVersion existing\<rparr>) w1 of
            (None, w2) \<Rightarrow> (None, w2)
          | (Some e, w2) \<Rightarrow> (Some (UpdateFailed (dc_Name dc) e), w2)))"

text \<open>A loop of publications that returns at the first error.\<close>

fun publish_all :: "'w dc_api \<Rightarrow> DeviceClass list \<Rightarrow> 'w \<Rightarrow> sync_error option \<times> 'w" where
  "publish_all api [] w = (None, w)"
| "publish_all api (dc # dcs) w =
    (case publishDeviceClass api dc w of (None, w1) \<Rightarrow> publish_all api dcs w1 | (Some e, w1) \<Rightarrow> (Some e, w1))"

text \<open>The loop of deletions: errors are logged, the loop goes on.\<close>

fun delete_all :: "'w dc_api \<Rightarrow> string list \<Rightarrow> 'w \<Rightarrow> 'w" where
  "delete_all api [] w = w"
| "delete_all api (n # ns) w = delete_all api ns (snd (api_Delete api n w))"

text \<open>The key of a listed class, rebuilt from its labels.\<close>

definition label_key :: "(string, string) gomap \<Rightarrow> string" where
  "label_key labels =
    (let profile = get_str labels (lbl ''profile''); partType = get_str labels (lbl ''partitionType'');
         tierName = get_str labels (lbl ''tierName''); numa = get_str labels (lbl ''numa'');
         coupling = get_str labels (lbl ''coupling'')
     in if tierName \<noteq> '''' then profile @ ''-'' @ tierName
        else profile @ ''-'' @ partType @ (if numa \<noteq> '''' then ''-'' @ numa else '''')
          @ (if coupling \<noteq> '''' then ''-'' @ coupling else ''''))"

definition partition_selector :: string where
  "partition_selector = lbl ''managed'' @ ''=true,'' @ lbl ''partitionType''"

definition cleanupStaleDeviceClasses :: "'w dc_api \<Rightarrow> string list \<Rightarrow> 'w \<Rightarrow> sync_error option \<times> 'w" where
  "cleanupStaleDeviceClasses api active w =
    (case api_List api partition_selector w of
       (Inl e, w1) \<Rightarrow> (Some (ListFailed e), w1)
     | (Inr classes, w1) \<Rightarrow>
         (None, delete_all api (map dc_Name (filter (\<lambda>dc. label_key (dc_Labels dc) \<notin> set active) classes)) w1))"

definition grouping_selector :: string where
  "grouping_selector = lbl ''managed'' @ ''=true,'' @ lbl ''grouping''"

definition cleanupStaleGroupingDeviceClasses :: "'w dc_api \<Rightarrow> string list \<Rightarrow> 'w \<Rightarrow> sync_error option \<times> 'w" where
  "cleanupStaleGroupingDeviceClasses api active w =
    (case api_List api grouping_selector w of
       (Inl e, w1) \<Rightarrow> (Some (ListFailed e), w1)
     | (Inr classes, w1) \<Rightarrow> (None, delete_all api (map dc_Name (filter (\<lambda>dc. dc_Name dc \<notin> set active) classes)) w1))"

section \<open>Classes for partitions\<close>

record profilePartition =
  pp_profile :: string
  pp_partType :: string
  pp_representative :: PartitionDevice
  pp_cachedConfig :: PartitionConfig
  pp_cachedCoupling :: string
  pp_count :: int

type_synonym aggregateKey = "string \<times> string"

text \<open>The suffix shared by the key and the name of a class: NUMA nodes, then the PCIe root.\<close>

definition part_suffix :: "string \<Rightarrow> PartitionDevice \<Rightarrow> string" where
  "part_suffix partType p =
     (if pd_NUMANodes p \<noteq> [] \<and> partType \<noteq> PartitionFull then numaKeySuffix (pd_NUMANodes p) else '''')
     @ (if partType = PartitionPCIeRoot \<and> pd_PCIeRoots p \<noteq> [] then ''-'' @ sanitizeForName (hd (pd_PCIeRoots p)) else '''')"

definition buildDeviceClassFromCache ::
  "string \<Rightarrow> string \<Rightarrow> string \<Rightarrow> PartitionDevice \<Rightarrow> PartitionConfig \<Rightarrow> string \<Rightarrow> int \<Rightarrow> DeviceClass" where
  "buildDeviceClassFromCache driverName profile partType rep config coupling n =
    (let nameSuffix = part_suffix partType rep;
         name = deviceClassName profile partType @ nameSuffix @ (if coupling \<noteq> CouplingNone then ''-'' @ coupling else '''');
         celExpr = ''device.driver == '' @ quote driverName @ '' && device.attributes['' @ quote driverName
           @ ''].partitionType == '' @ quote partType;
         labels = [(lbl ''managed'', ''true''), (lbl ''profile'', truncateLabel profile), (lbl ''partitionType'', partType)];
         labels1 = (if nameSuffix \<noteq> '''' then put (lbl ''numa'') (TrimPrefix nameSuffix ''-'') labels else labels);
         labels2 = (if coupling \<noteq> CouplingNone then put (lbl ''coupling'') coupling labels1 else labels1);
         labels3 = (if n > 1 then put (lbl ''count'') (itoa n) labels2 else labels2)
     in \<lparr> dc_Name = name, dc_Labels = labels3, dc_ResourceVersion = '''', dc_Selectors = [celExpr],
          dc_Config = [Some \<lparr> oc_Driver = driverName, oc_Raw = marshal_config config \<rparr>] \<rparr>)"

definition seen_key :: "string \<Rightarrow> PartitionDevice \<Rightarrow> string \<Rightarrow> string" where
  "seen_key profile p coupling = truncateLabel profile @ ''-'' @ pd_Type p @ part_suffix (pd_Type p) p
     @ (if coupling \<noteq> CouplingNone then ''-'' @ coupling else '''')"

definition add_seen ::
  "TopologyRuleStore \<Rightarrow> string \<Rightarrow> (string, profilePartition) gomap \<Rightarrow> PartitionDevice \<Rightarrow> (string, profilePartition) gomap" where
  "add_seen rules profile seen p =
    (let cc = buildPartitionConfig rules p; key = seen_key profile p (snd cc)
     in case map_of seen key of
          Some pp \<Rightarrow> put key (pp\<lparr>pp_count := pp_count pp + 1\<rparr>) seen
        | None \<Rightarrow> put key \<lparr> pp_profile = profile, pp_partType = pd_Type p, pp_representative = p,
            pp_cachedConfig = fst cc, pp_cachedCoupling = snd cc, pp_count = 1 \<rparr> seen)"

definition collect_seen :: "TopologyRuleStore \<Rightarrow> PartitionResult list \<Rightarrow> (string, profilePartition) gomap" where
  "collect_seen rules results =
     foldl (\<lambda>seen result. foldl (add_seen rules (pr_Profile result)) seen (pr_Partitions result)) [] results"

text \<open>Rail indices: the pcieroot entries in the order of their first PCIe root.\<close>

definition rail_index :: "(string, profilePartition) gomap \<Rightarrow> (string, int) gomap" where
  "rail_index seen =
    (let entries = map (\<lambda>(key, pp). (key, hd (pd_PCIeRoots (pp_representative pp))))
           (filter (\<lambda>(key, pp). pp_partType pp = PartitionPCIeRoot \<and> pd_PCIeRoots (pp_representative pp) \<noteq> []) seen)
     in foldl (\<lambda>m (i, key, root). put key (int i) m) [] (enumerate 0 (sort_key snd entries)))"

definition partition_class :: "string \<Rightarrow> (string, int) gomap \<Rightarrow> string \<times> profilePartition \<Rightarrow> DeviceClass" where
  "partition_class driverName rails kp =
    (let key = fst kp; pp = snd kp;
         dc = buildDeviceClassFromCache driverName (pp_profile pp) (pp_partType pp) (pp_representative pp)
           (pp_cachedConfig pp) (pp_cachedCoupling pp) (pp_count pp);
         dc1 = (if pp_partType pp = PartitionFull then dc\<lparr>dc_Name := PartitionFull\<rparr> else dc)
     in if pp_partType pp = PartitionPCIeRoot then
          (case map_of rails key of
             Some rail \<Rightarrow> dc1\<lparr>dc_Labels := put (lbl ''railIndex'') (itoa rail) (dc_Labels dc1),
               dc_Name := dc_Name dc1 @ ''-rail'' @ itoa rail\<rparr>
           | None \<Rightarrow> dc1)
        else dc1)"

section \<open>Aggregates\<close>

record aggregateState =
  as_profile :: string
  as_partType :: string
  as_driverSeen :: "(string, int) gomap"
  as_minCounts :: "(string, int) gomap"
  as_minCap :: "(string, (string, string) gomap) gomap"
  as_devices :: "TopologyDevice list"
  as_partitionNUMAs :: "int list"
  as_total :: int
  as_count :: int

definition agg_new :: "profilePartition \<Rightarrow> aggregateState" where
  "agg_new pp = (let r = pp_representative pp in
    \<lparr> as_profile = pp_profile pp, as_partType = pp_partType pp,
      as_driverSeen = map (\<lambda>(k, v). (k, 1)) (pd_DeviceCounts r), as_minCounts = pd_DeviceCounts r,
      as_minCap = pd_DeviceCapacity r, as_devices = pd_Devices r,
      as_partitionNUMAs = (case pd_NUMANodes r of n # _ \<Rightarrow> [n] | [] \<Rightarrow> []),
      as_total = 1, as_count = pp_count pp \<rparr>)"

definition agg_driver :: "PartitionDevice \<Rightarrow> aggregateState \<Rightarrow> string \<times> int \<Rightarrow> aggregateState" where
  "agg_driver r st dc = (let driver = fst dc; count = snd dc in
     st\<lparr>as_driverSeen := bump driver 1 (as_driverSeen st),
        as_minCounts := (case map_of (as_minCounts st) driver of
            Some prev \<Rightarrow> if count < prev then put driver count (as_minCounts st) else as_minCounts st
          | None \<Rightarrow> put driver count (as_minCounts st)),
        as_minCap := (case map_of (pd_DeviceCapacity r) driver of
            Some cap \<Rightarrow> put driver cap (as_minCap st) | None \<Rightarrow> as_minCap st)\<rparr>)"

definition agg_merge :: "profilePartition \<Rightarrow> aggregateState \<Rightarrow> aggregateState" where
  "agg_merge pp st = (let r = pp_representative pp;
       st1 = st\<lparr>as_count := as_count st + pp_count pp, as_total := as_total st + 1,
         as_partitionNUMAs := as_partitionNUMAs st @ (case pd_NUMANodes r of n # _ \<Rightarrow> [n] | [] \<Rightarrow> [])\<rparr>;
       st2 = foldl (agg_driver r) st1 (pd_DeviceCounts r)
     in st2\<lparr>as_devices := as_devices st2 @ pd_Devices r\<rparr>)"

definition add_aggregate ::
  "(aggregateKey, aggregateState) gomap \<Rightarrow> string \<times> profilePartition \<Rightarrow> (aggregateKey, aggregateState) gomap" where
  "add_aggregate states kp = (let pp = snd kp; ak = (pp_profile pp, pp_partType pp) in
     if pp_partType pp = PartitionFull then states
     else case map_of states ak of
       Some st \<Rightarrow> put ak (agg_merge pp st) states
     | None \<Rightarrow> put ak (agg_new pp) states)"

definition isDriverReachableToAll :: "string \<Rightarrow> int list \<Rightarrow> TopologyDevice list \<Rightarrow> bool" where
  "isDriverReachableToAll driver partitionNUMAs devices =
    (partitionNUMAs \<noteq> [] \<and> list_all (\<lambda>n. list_ex (\<lambda>dev. base_driver dev = driver \<and> n \<in> set (td_NUMANodes dev)) devices)
       partitionNUMAs)"

definition countSharingNUMAs :: "string \<Rightarrow> int list \<Rightarrow> TopologyDevice list \<Rightarrow> int" where
  "countSharingNUMAs driver partitionNUMAs devices =
     foldl (\<lambda>maxSharing dev. if base_driver dev \<noteq> driver then maxSharing
        else let sharing = int (length (filter (\<lambda>n. n \<in> set partitionNUMAs) (td_NUMANodes dev)))
          in if sharing > maxSharing then sharing else maxSharing) 0 devices"

definition intersect_driver ::
  "string \<Rightarrow> aggregateState \<Rightarrow> (string, int) gomap \<times> (string, (string, string) gomap) gomap \<Rightarrow> string \<times> int \<Rightarrow>
     (string, int) gomap \<times> (string, (string, string) gomap) gomap" where
  "intersect_driver partType st acc ds =
    (let driver = fst ds; seen = snd ds;
         caps = (case map_of (as_minCap st) driver of Some cap \<Rightarrow> put driver cap (snd acc) | None \<Rightarrow> snd acc)
     in if seen = as_total st then (put driver (get_int (as_minCounts st) driver) (fst acc), caps)
     else if partType = PartitionNUMA \<and> isDriverReachableToAll driver (as_partitionNUMAs st) (as_devices st) then
       let sharing = countSharingNUMAs driver (as_partitionNUMAs st) (as_devices st);
           count = get_int (as_minCounts st) driver;
           count1 = (if sharing > 1 then quot count sharing else count);
           count2 = (if count1 < 1 then 1 else count1)
       in (put driver count2 (fst acc), caps)
     else acc)"

definition aggregate_of :: "TopologyRuleStore \<Rightarrow> aggregateKey \<Rightarrow> aggregateState \<Rightarrow> profilePartition" where
  "aggregate_of rules ak st =
    (let ic = foldl (intersect_driver (snd ak) st) ([], []) (as_driverSeen st);
         mergedRep = \<lparr> pd_Name = '''', pd_NodeName = '''', pd_Type = as_partType st, pd_NUMANodes = [],
           pd_PCIeRoots = [], pd_Sockets = [], pd_DeviceCounts = fst ic, pd_DeviceCapacity = snd ic,
           pd_Devices = as_devices st, pd_CPUCount = 0, pd_MemoryBytes = 0, pd_ExtendedAttributes = [],
           pd_Profile = as_profile st \<rparr>;
         cc = buildPartitionAggregateConfig rules mergedRep
     in \<lparr> pp_profile = as_profile st, pp_partType = as_partType st, pp_representative = mergedRep,
          pp_cachedConfig = fst cc, pp_cachedCoupling = snd cc, pp_count = as_count st \<rparr>)"

definition collect_aggregates ::
  "TopologyRuleStore \<Rightarrow> (string, profilePartition) gomap \<Rightarrow> (aggregateKey, profilePartition) gomap" where
  "collect_aggregates rules seen =
     map (\<lambda>(ak, st). (ak, aggregate_of rules ak st)) (foldl add_aggregate [] seen)"

definition aggregate_class :: "string \<Rightarrow> profilePartition \<Rightarrow> DeviceClass" where
  "aggregate_class driverName pp =
     (buildDeviceClassFromCache driverName (pp_profile pp) (pp_partType pp) (pp_representative pp)
        (pp_cachedConfig pp) CouplingNone (pp_count pp))\<lparr>dc_Name := pp_partType pp\<rparr>"

section \<open>Tiers\<close>

definition countPCIeRootsInNUMA :: "PartitionDevice list \<Rightarrow> string \<Rightarrow> int list \<Rightarrow> int" where
  "countPCIeRootsInNUMA partitions profile numaNodes =
    (if numaNodes = [] then 0
     else int (length (filter (\<lambda>p. pd_Profile p = profile \<and> pd_Type p = PartitionPCIeRoot
       \<and> list_ex (\<lambda>n. n \<in> set numaNodes) (pd_NUMANodes p)) partitions)))"

definition computeTierName ::
  "string \<Rightarrow> profilePartition \<Rightarrow> PartitionDevice list \<Rightarrow> string \<Rightarrow> int \<Rightarrow> string option" where
  "computeTierName partType pp allPartitions profile pcieRootCount =
    (let finish = (\<lambda>roots. let tierName = fractionToTierName roots pcieRootCount in
           Some (if tierName = '''' \<or> tierName = ''full'' \<or> tierName = partType then '''' else tierName))
     in if partType = PartitionPCIeRoot then finish 1
     else if partType = PartitionNUMA then
       let roots = countPCIeRootsInNUMA allPartitions profile (pd_NUMANodes (pp_representative pp)) in
       if roots = 0 then (if pp_count pp = 0 then None else finish (quot pcieRootCount (pp_count pp)))
       else finish roots
     else Some '''')"

definition tier_names ::
  "(aggregateKey, profilePartition) gomap \<Rightarrow> PartitionDevice list \<Rightarrow> int \<Rightarrow> (aggregateKey, string) gomap option" where
  "tier_names aggregates allPartitions pcieRootCount =
    (if pcieRootCount > 0 then
       do {
         names \<leftarrow> those (map (\<lambda>(ak, pp). computeTierName (snd ak) pp allPartitions (fst ak) pcieRootCount) aggregates);
         Some (filter (\<lambda>(ak, n). n \<noteq> '''') (zip (keys aggregates) names))
       }
     else Some [])"

definition tier_class :: "string \<Rightarrow> profilePartition \<Rightarrow> string \<Rightarrow> DeviceClass" where
  "tier_class driverName pp tierName =
    (let aggRep = (pp_representative pp)\<lparr>pd_NUMANodes := [], pd_PCIeRoots := []\<rparr>;
         dc = buildDeviceClassFromCache driverName (pp_profile pp) (pp_partType pp) aggRep (pp_cachedConfig pp)
           CouplingNone (pp_count pp)
     in dc\<lparr>dc_Name := tierName, dc_Labels := put (lbl ''tierName'') tierName (dc_Labels dc)\<rparr>)"

section \<open>Synchronisation\<close>

definition pcie_root_count :: "(string, profilePartition) gomap \<Rightarrow> int" where
  "pcie_root_count seen = int (length (filter (\<lambda>(key, pp). pp_partType pp = PartitionPCIeRoot) seen))"

text \<open>The active keys: of the partitions, of the aggregates and of the tiers.\<close>

definition active_keys ::
  "(string, profilePartition) gomap \<Rightarrow> (aggregateKey, profilePartition) gomap \<Rightarrow> (aggregateKey, string) gomap \<Rightarrow> string list" where
  "active_keys seen aggregates tiers =
     keys seen @ map (\<lambda>(ak, pp). truncateLabel (fst ak) @ ''-'' @ snd ak) aggregates
     @ map (\<lambda>(ak, tierName). truncateLabel (fst ak) @ ''-'' @ tierName) tiers"

definition SyncDeviceClasses ::
  "(nat \<Rightarrow> range_order) \<Rightarrow> 'w dc_api \<Rightarrow> string \<Rightarrow> TopologyRuleStore \<Rightarrow> PartitionResult list \<Rightarrow> 'w \<Rightarrow>
     (sync_error option \<times> 'w) option" where
  "SyncDeviceClasses ro api driverName rules results w =
    (let seen = collect_seen rules results;
         rails = rail_index (visit (ro 0) seen)
     in case publish_all api (map (partition_class driverName rails) (visit (ro 1) seen)) w of
          (Some e, w1) \<Rightarrow> Some (Some e, w1)
        | (None, w1) \<Rightarrow>
            let aggregates = collect_aggregates rules (visit (ro 2) seen) in
            (case publish_all api (map (\<lambda>(ak, pp). aggregate_class driverName pp) (visit (ro 3) aggregates)) w1 of
               (Some e, w2) \<Rightarrow> Some (Some e, w2)
             | (None, w2) \<Rightarrow>
                 do {
                   tiers \<leftarrow> tier_names aggregates (concat (map pr_Partitions results)) (pcie_root_count seen);
                   Some (case publish_all api (map (\<lambda>(ak, t). tier_class driverName (the (map_of aggregates ak)) t)
                         (visit (ro 4) tiers)) w2 of
                       (Some e, w3) \<Rightarrow> (Some e, w3)
                     | (None, w3) \<Rightarrow>
                         (None, snd (cleanupStaleDeviceClasses api (active_keys seen aggregates tiers) w3)))
                 }))"

section \<open>Classes for groupings\<close>

record groupingEntry =
  ge_representative :: GroupingInstance
  ge_config :: PartitionConfig
  ge_count :: int

definition grouping_key :: "GroupingInstance \<Rightarrow> string" where
  "grouping_key inst =
    (let nk = numaKey (gi_NUMANodes inst); pk = Join (gi_PCIeRoots inst) ''-'';
         key = truncateLabel (gi_GroupingName inst) @ ''-'' @ sanitizeForName (gi_Alignment inst)
     in if pk \<noteq> '''' then key @ ''-'' @ sanitizeForName pk
        else if nk \<noteq> '''' then key @ ''-numa'' @ nk else key)"

definition add_grouping ::
  "TopologyRuleStore \<Rightarrow> (string, groupingEntry) gomap \<Rightarrow> GroupingInstance \<Rightarrow> (string, groupingEntry) gomap" where
  "add_grouping rules seen inst = (let key = grouping_key inst in
     case map_of seen key of
       Some e \<Rightarrow> put key (e\<lparr>ge_count := ge_count e + 1\<rparr>) seen
     | None \<Rightarrow> put key \<lparr> ge_representative = inst, ge_config = buildGroupingConfig rules inst, ge_count = 1 \<rparr> seen)"

definition collect_groupings :: "TopologyRuleStore \<Rightarrow> GroupingResult list \<Rightarrow> (string, groupingEntry) gomap" where
  "collect_groupings rules results =
     foldl (\<lambda>seen result. foldl (add_grouping rules) seen (gr_Instances result)) [] results"

definition buildGroupingDeviceClass :: "string \<Rightarrow> string \<Rightarrow> GroupingInstance \<Rightarrow> PartitionConfig \<Rightarrow> int \<Rightarrow> DeviceClass" where
  "buildGroupingDeviceClass driverName key rep config n =
    (let celExpr = ''device.driver == '' @ quote driverName @ '' && device.attributes['' @ quote driverName
           @ ''].grouping == '' @ quote (gi_GroupingName rep);
         labels = [(lbl ''managed'', ''true''), (lbl ''grouping'', truncateLabel (gi_GroupingName rep)),
           (lbl ''alignment'', gi_Alignment rep), (lbl ''railIndex'', itoa (gi_RailIndex rep))];
         labels1 = (if gi_NUMANodes rep \<noteq> [] then put (lbl ''numa'') (numaKey (gi_NUMANodes rep)) labels else labels);
         labels2 = (if n > 1 then put (lbl ''count'') (itoa n) labels1 else labels1)
     in \<lparr> dc_Name = sanitizeDNSLabel key, dc_Labels = labels2, dc_ResourceVersion = '''', dc_Selectors = [celExpr],
          dc_Config = [Some \<lparr> oc_Driver = driverName, oc_Raw = marshal_config config \<rparr>] \<rparr>)"

definition rail_name :: "GroupingInstance \<Rightarrow> string" where
  "rail_name inst = sanitizeForName (gi_GroupingName inst) @ ''-rail'' @ itoa (gi_RailIndex inst)"

definition instance_class :: "string \<Rightarrow> string \<times> groupingEntry \<Rightarrow> DeviceClass" where
  "instance_class driverName ke =
     (buildGroupingDeviceClass driverName (fst ke) (ge_representative (snd ke)) (ge_config (snd ke)) (ge_count (snd ke)))
       \<lparr>dc_Name := rail_name (ge_representative (snd ke))\<rparr>"

definition add_grouping_aggregate ::
  "TopologyRuleStore \<Rightarrow> (string, groupingEntry) gomap \<Rightarrow> string \<times> groupingEntry \<Rightarrow> (string, groupingEntry) gomap" where
  "add_grouping_aggregate rules aggregates ke =
    (let entry = snd ke; name = gi_GroupingName (ge_representative entry) in
     case map_of aggregates name of
       None \<Rightarrow> put name \<lparr> ge_representative = ge_representative entry,
         ge_config = buildGroupingAggregateConfig rules (ge_representative entry), ge_count = ge_count entry \<rparr> aggregates
     | Some a \<Rightarrow> put name (a\<lparr>ge_count := ge_count a + ge_count entry\<rparr>) aggregates)"

definition grouping_aggregate_class :: "string \<Rightarrow> groupingEntry \<Rightarrow> DeviceClass" where
  "grouping_aggregate_class driverName entry =
    (let r = ge_representative entry;
         aggKey = truncateLabel (gi_GroupingName r) @ ''-'' @ sanitizeForName (gi_Alignment r);
         dc = buildGroupingDeviceClass driverName aggKey r (ge_config entry) (ge_count entry)
     in dc\<lparr>dc_Name := sanitizeForName (gi_GroupingName r), dc_Labels := del (lbl ''numa'') (dc_Labels dc)\<rparr>)"

definition SyncGroupingDeviceClasses ::
  "(nat \<Rightarrow> range_order) \<Rightarrow> 'w dc_api \<Rightarrow> string \<Rightarrow> TopologyRuleStore \<Rightarrow> GroupingResult list \<Rightarrow> 'w \<Rightarrow>
     sync_error option \<times> 'w" where
  "SyncGroupingDeviceClasses ro api driverName rules results w =
    (let seen = collect_groupings rules results;
         aggregates = foldl (add_grouping_aggregate rules) [] (visit (ro 1) seen);
         activeNames = map (\<lambda>(key, e). rail_name (ge_representative e)) seen
           @ map (\<lambda>(name, e). sanitizeForName (gi_GroupingName (ge_representative e))) aggregates
     in case publish_all api (map (instance_class driverName) (visit (ro 0) seen)) w of
          (Some e, w1) \<Rightarrow> (Some e, w1)
        | (None, w1) \<Rightarrow>
            (case publish_all api (map (\<lambda>(name, e). grouping_aggregate_class driverName e) (visit (ro 2) aggregates)) w1 of
               (Some e, w2) \<Rightarrow> (Some e, w2)
             | (None, w2) \<Rightarrow> (None, snd (cleanupStaleGroupingDeviceClasses api activeNames w2))))"

definition NewDeviceClassManager :: "string \<Rightarrow> string" where
  "NewDeviceClassManager driverName = (if driverName = '''' then CoordinatorDriverName else driverName)"

section \<open>Keys of published classes\<close>

text \<open>A suffix that survives the cut of its leading dash.\<close>

definition good_suffix :: "string \<Rightarrow> bool" where
  "good_suffix s = (s = '''' \<or> (\<exists>t. t \<noteq> '''' \<and> s = ''-'' @ t))"


lemma foldl_extends: "\<exists>t. foldl (\<lambda>s n. s @ f n) (s0 :: string) ns = s0 @ t"
  by (simp add: foldl_append_concat)

lemma numaKeySuffix_Cons: "\<exists>t. numaKeySuffix (n # ns) = ''-n'' @ t"
  using foldl_extends [of "\<lambda>n. ''-'' @ itoa n" "''-numa'' @ itoa n" ns] by (auto simp: numaKeySuffix_def)

lemma sanitizeForName_Nil [simp]: "sanitizeForName s = [] \<longleftrightarrow> s = []"
  by (simp add: sanitizeForName_def ToLower_def replace_bytes_def)

lemma part_suffix_good: "rooted p \<Longrightarrow> good_suffix (part_suffix (pd_Type p) p)"
  using numaKeySuffix_Cons [of "hd (pd_NUMANodes p)" "tl (pd_NUMANodes p)"]
  by (auto simp: part_suffix_def good_suffix_def rooted_def)

lemma part_suffix_bare: "pd_NUMANodes p = [] \<Longrightarrow> pd_PCIeRoots p = [] \<Longrightarrow> part_suffix t p = ''''"
  by (simp add: part_suffix_def)

text \<open>The key that the clean-up rebuilds from the labels of a class is the key it was built under.\<close>

lemma class_labels:
  fixes d profile partType p config coupling n
  defines "L \<equiv> dc_Labels (buildDeviceClassFromCache d profile partType p config coupling n)"
  shows "get_str L (lbl ''profile'') = truncateLabel profile" "get_str L (lbl ''partitionType'') = partType"
    "get_str L (lbl ''tierName'') = ''''" "get_str L (lbl ''coupling'') = coupling"
    "get_str L (lbl ''numa'') = TrimPrefix (part_suffix partType p) ''-''"
  unfolding L_def buildDeviceClassFromCache_def Let_def by (simp_all add: get_or_def TrimPrefix_def)

lemma label_key_class:
  assumes "good_suffix (part_suffix partType p)"
  shows "label_key (dc_Labels (buildDeviceClassFromCache d profile partType p config coupling n)) =
    truncateLabel profile @ ''-'' @ partType @ part_suffix partType p @ (if coupling \<noteq> '''' then ''-'' @ coupling else '''')"
proof -
  define s where "s = part_suffix partType p"
  have "(if TrimPrefix s ''-'' \<noteq> '''' then ''-'' @ TrimPrefix s ''-'' else '''') = s"
    using assms unfolding good_suffix_def s_def [symmetric] by (elim disjE exE conjE) (simp_all add: TrimPrefix_def)
  then show ?thesis
    unfolding label_key_def class_labels Let_def s_def [symmetric] by simp
qed

lemma label_key_rail: "label_key (put (lbl ''railIndex'') v labels) = label_key labels"
  by (simp add: label_key_def)

lemma label_key_tier:
  "t \<noteq> '''' \<Longrightarrow> label_key (put (lbl ''tierName'') t (dc_Labels (buildDeviceClassFromCache d profile partType p config coupling n))) =
    truncateLabel profile @ ''-'' @ t"
  by (simp add: buildDeviceClassFromCache_def label_key_def Let_def get_or_def)

section \<open>Collected partitions\<close>

text \<open>Every partition of the results with its profile, in the order of the two loops.\<close>

definition offers :: "PartitionResult list \<Rightarrow> (string \<times> PartitionDevice) list" where
  "offers results = concat (map (\<lambda>r. map (Pair (pr_Profile r)) (pr_Partitions r)) results)"

definition offer_key :: "TopologyRuleStore \<Rightarrow> string \<times> PartitionDevice \<Rightarrow> string" where
  "offer_key rules o1 = seen_key (fst o1) (snd o1) (snd (buildPartitionConfig rules (snd o1)))"

definition offer_entry :: "TopologyRuleStore \<Rightarrow> string \<times> PartitionDevice \<Rightarrow> int \<Rightarrow> profilePartition" where
  "offer_entry rules o1 n = \<lparr> pp_profile = fst o1, pp_partType = pd_Type (snd o1), pp_representative = snd o1,
     pp_cachedConfig = fst (buildPartitionConfig rules (snd o1)),
     pp_cachedCoupling = snd (buildPartitionConfig rules (snd o1)), pp_count = n \<rparr>"

lemma collect_seen_flat:
  "collect_seen rules results = foldl (\<lambda>seen o1. add_seen rules (fst o1) seen (snd o1)) [] (offers results)"
proof -
  have "foldl (\<lambda>seen r. foldl (add_seen rules (pr_Profile r)) seen (pr_Partitions r)) s results =
      foldl (\<lambda>seen o1. add_seen rules (fst o1) seen (snd o1)) s (offers results)" for s
    by (induction results arbitrary: s) (simp_all add: offers_def foldl_map)
  then show ?thesis by (simp add: collect_seen_def)
qed

text \<open>The map holds, under each key, the first partition with this key and their number.\<close>

lemma map_of_add_seen:
  "map_of (add_seen rules profile seen p) k =
    (if k = offer_key rules (profile, p) then
       Some (case map_of seen k of Some pp \<Rightarrow> pp\<lparr>pp_count := pp_count pp + 1\<rparr>
             | None \<Rightarrow> offer_entry rules (profile, p) 1)
     else map_of seen k)"
  by (simp add: add_seen_def offer_key_def offer_entry_def Let_def split: option.splits)

lemma wf_map_add_seen [simp]: "wf_map seen \<Longrightarrow> wf_map (add_seen rules profile seen p)"
  by (simp add: add_seen_def Let_def split: option.splits)

definition seen_spec :: "TopologyRuleStore \<Rightarrow> (string \<times> PartitionDevice) list \<Rightarrow> string \<Rightarrow> profilePartition option" where
  "seen_spec rules os k = (case filter (\<lambda>o1. offer_key rules o1 = k) os of
     [] \<Rightarrow> None | o1 # same \<Rightarrow> Some (offer_entry rules o1 (1 + int (length same))))"

lemma collect_seen_spec:
  "wf_map (collect_seen rules results)" "map_of (collect_seen rules results) k = seen_spec rules (offers results) k"
proof -
  have "wf_map s \<and> map_of s = seen_spec rules os"
    if "s = foldl (\<lambda>seen o1. add_seen rules (fst o1) seen (snd o1)) [] os" for s os
    using that
  proof (induction os arbitrary: s rule: rev_induct)
    case Nil
    then show ?case by (auto simp: seen_spec_def)
  next
    case (snoc o1 os)
    let ?s = "foldl (\<lambda>seen o1. add_seen rules (fst o1) seen (snd o1)) [] os"
    have s: "s = add_seen rules (fst o1) ?s (snd o1)" and IH: "wf_map ?s" "map_of ?s = seen_spec rules os"
      using snoc by auto
    have "map_of s k = seen_spec rules (os @ [o1]) k" for k
      unfolding s map_of_add_seen IH(2)
      by (auto simp: seen_spec_def offer_entry_def split: list.splits)
    with IH(1) s show ?case by auto
  qed
  from this [OF collect_seen_flat [of rules results]]
  show "wf_map (collect_seen rules results)" "map_of (collect_seen rules results) k = seen_spec rules (offers results) k"
    by simp_all
qed

lemma collect_seen_mem:
  assumes "(k, pp) \<in> set (collect_seen rules results)"
  obtains o1 n where "o1 \<in> set (offers results)" "k = offer_key rules o1" "pp = offer_entry rules o1 n" "1 \<le> n"
proof -
  have "seen_spec rules (offers results) k = Some pp"
    using assms collect_seen_spec by (metis wf_map_mem)
  then obtain o1 same where f: "filter (\<lambda>o1. offer_key rules o1 = k) (offers results) = o1 # same"
    and pp: "pp = offer_entry rules o1 (1 + int (length same))"
    by (auto simp: seen_spec_def split: list.splits)
  from f have "o1 \<in> set (filter (\<lambda>o1. offer_key rules o1 = k) (offers results))" by simp
  with pp show ?thesis by (intro that) auto
qed


section \<open>Aggregates: the intersection of the partitions of a type\<close>

text \<open>The entries merged into the aggregate of a profile and a partition type.\<close>

definition members :: "(string, profilePartition) gomap \<Rightarrow> aggregateKey \<Rightarrow> profilePartition list" where
  "members seen ak = filter (\<lambda>pp. pp_partType pp \<noteq> PartitionFull \<and> (pp_profile pp, pp_partType pp) = ak) (map snd seen)"

definition agg_state :: "profilePartition list \<Rightarrow> aggregateState option" where
  "agg_state ms = (case ms of [] \<Rightarrow> None | m # ms \<Rightarrow> Some (foldl (\<lambda>st pp. agg_merge pp st) (agg_new m) ms))"

lemma agg_state_snoc:
  "agg_state (ms @ [pp]) = Some (case agg_state ms of None \<Rightarrow> agg_new pp | Some st \<Rightarrow> agg_merge pp st)"
  by (simp add: agg_state_def split: list.splits)

lemma map_of_add_aggregate:
  "map_of (add_aggregate states kp) ak =
    (if pp_partType (snd kp) \<noteq> PartitionFull \<and> (pp_profile (snd kp), pp_partType (snd kp)) = ak
     then Some (case map_of states ak of Some st \<Rightarrow> agg_merge (snd kp) st | None \<Rightarrow> agg_new (snd kp))
     else map_of states ak)"
  by (auto simp: add_aggregate_def Let_def split: option.splits)

lemma wf_map_add_aggregate: "wf_map states \<Longrightarrow> wf_map (add_aggregate states kp)"
  by (simp add: add_aggregate_def Let_def split: option.splits)

lemma add_aggregates_spec:
  "wf_map (foldl add_aggregate [] seen)" "map_of (foldl add_aggregate [] seen) ak = agg_state (members seen ak)"
proof (induction seen rule: rev_induct)
  case Nil
  show "wf_map (foldl add_aggregate [] [])" by simp
  show "map_of (foldl add_aggregate [] []) ak = agg_state (members [] ak)" by (simp add: members_def agg_state_def)
next
  case (snoc kp seen)
  show "wf_map (foldl add_aggregate [] (seen @ [kp]))" using snoc(1) by (simp add: wf_map_add_aggregate)
  have "members (seen @ [kp]) ak = members seen ak @
      (if pp_partType (snd kp) \<noteq> PartitionFull \<and> (pp_profile (snd kp), pp_partType (snd kp)) = ak then [snd kp] else [])"
    unfolding members_def by (simp only: map_append filter_append list.map filter.simps)
  moreover have "map_of (foldl add_aggregate [] (seen @ [kp])) ak =
      map_of (add_aggregate (foldl add_aggregate [] seen) kp) ak" by simp
  ultimately show "map_of (foldl add_aggregate [] (seen @ [kp])) ak = agg_state (members (seen @ [kp]) ak)"
    unfolding map_of_add_aggregate snoc(2) by (simp add: agg_state_snoc split: option.splits)
qed

lemma collect_aggregates_spec:
  "wf_map (collect_aggregates rules seen)"
  "map_of (collect_aggregates rules seen) ak = map_option (aggregate_of rules ak) (agg_state (members seen ak))"
proof -
  have "map fst (collect_aggregates rules seen) = map fst (foldl add_aggregate [] seen)"
    by (simp add: collect_aggregates_def case_prod_unfold)
  then show "wf_map (collect_aggregates rules seen)" using add_aggregates_spec(1) by simp
  have "map_of (map (\<lambda>(ak, st). (ak, aggregate_of rules ak st)) xs) ak = map_option (aggregate_of rules ak) (map_of xs ak)" for xs
    by (induction xs) auto
  then show "map_of (collect_aggregates rules seen) ak = map_option (aggregate_of rules ak) (agg_state (members seen ak))"
    by (simp add: collect_aggregates_def add_aggregates_spec(2))
qed

text \<open>The counters of the merge: how many members carry a driver, and the least count among them.\<close>

definition carriers :: "profilePartition list \<Rightarrow> string \<Rightarrow> int list" where
  "carriers ms driver = List.map_filter (\<lambda>pp. map_of (pd_DeviceCounts (pp_representative pp)) driver) ms"

definition least :: "int list \<Rightarrow> int option" where
  "least xs = (if xs = [] then None else Some (Min (set xs)))"

lemma carriers_snoc:
  "carriers (ms @ [pp]) driver = carriers ms driver @
     (case map_of (pd_DeviceCounts (pp_representative pp)) driver of None \<Rightarrow> [] | Some n \<Rightarrow> [n])"
  by (simp add: carriers_def map_filter_def split: option.splits)

lemma least_snoc: "least (xs @ [n]) = Some (case least xs of None \<Rightarrow> n | Some m \<Rightarrow> if n < m then n else m)"
proof (cases "xs = []")
  case False
  have "min n m = (if n < m then n else m)" for m by simp
  with False have "Min (insert n (set xs)) = (if n < Min (set xs) then n else Min (set xs))"
    by (metis Min_insert List.finite_set set_empty)
  with False show ?thesis by (simp only: least_def) simp
qed (simp add: least_def)

lemma agg_driver_foldl:
  assumes "wf_map dcs"
  shows "get_int (as_driverSeen (foldl (agg_driver r) st dcs)) d =
      get_int (as_driverSeen st) d + (if d \<in> fst ` set dcs then 1 else 0)"
    "d \<in> fst ` set (as_driverSeen (foldl (agg_driver r) st dcs)) \<longleftrightarrow> d \<in> fst ` set (as_driverSeen st) \<or> d \<in> fst ` set dcs"
    "map_of (as_minCounts (foldl (agg_driver r) st dcs)) d =
      (case map_of dcs d of None \<Rightarrow> map_of (as_minCounts st) d
       | Some n \<Rightarrow> Some (case map_of (as_minCounts st) d of None \<Rightarrow> n | Some m \<Rightarrow> if n < m then n else m))"
  using assms
proof (induction dcs arbitrary: st)
  case (Cons e dcs)
  { case 1
    then show ?case using Cons.IH(1) by (auto simp: agg_driver_def Let_def)
  next
    case 2
    then show ?case using Cons.IH(2) by (auto simp: agg_driver_def Let_def)
  next
    case 3
    then show ?case using Cons.IH(3) [of "agg_driver r st e"]
      by (auto simp: agg_driver_def Let_def map_of_eq_None_iff [THEN iffD2] split: option.splits)
  }
qed simp_all


lemma agg_new_sel [simp]:
  "as_profile (agg_new pp) = pp_profile pp" "as_partType (agg_new pp) = pp_partType pp"
  "as_total (agg_new pp) = 1" "as_count (agg_new pp) = pp_count pp"
  "as_devices (agg_new pp) = pd_Devices (pp_representative pp)"
  "as_minCounts (agg_new pp) = pd_DeviceCounts (pp_representative pp)"
  "as_driverSeen (agg_new pp) = map (\<lambda>(k, v). (k, 1)) (pd_DeviceCounts (pp_representative pp))"
  by (simp_all add: agg_new_def Let_def)

lemma agg_driver_frame:
  "as_profile (foldl (agg_driver r) st dcs) = as_profile st" "as_partType (foldl (agg_driver r) st dcs) = as_partType st"
  "as_total (foldl (agg_driver r) st dcs) = as_total st" "as_count (foldl (agg_driver r) st dcs) = as_count st"
  "as_devices (foldl (agg_driver r) st dcs) = as_devices st"
  "wf_map (as_driverSeen st) \<Longrightarrow> wf_map (as_driverSeen (foldl (agg_driver r) st dcs))"
  by (induction dcs arbitrary: st) (simp_all add: agg_driver_def Let_def)

lemma agg_merge_sel [simp]:
  "as_profile (agg_merge pp st) = as_profile st" "as_partType (agg_merge pp st) = as_partType st"
  "as_total (agg_merge pp st) = as_total st + 1" "as_count (agg_merge pp st) = as_count st + pp_count pp"
  "as_devices (agg_merge pp st) = as_devices st @ pd_Devices (pp_representative pp)"
  "wf_map (as_driverSeen st) \<Longrightarrow> wf_map (as_driverSeen (agg_merge pp st))"
  by (simp_all add: agg_merge_def Let_def agg_driver_frame)

lemma agg_merge_counts:
  assumes "wf_map (pd_DeviceCounts (pp_representative pp))"
  shows "get_int (as_driverSeen (agg_merge pp st)) d =
      get_int (as_driverSeen st) d + (if d \<in> fst ` set (pd_DeviceCounts (pp_representative pp)) then 1 else 0)"
    "d \<in> fst ` set (as_driverSeen (agg_merge pp st)) \<longleftrightarrow>
      d \<in> fst ` set (as_driverSeen st) \<or> d \<in> fst ` set (pd_DeviceCounts (pp_representative pp))"
    "map_of (as_minCounts (agg_merge pp st)) d =
      (case map_of (pd_DeviceCounts (pp_representative pp)) d of None \<Rightarrow> map_of (as_minCounts st) d
       | Some n \<Rightarrow> Some (case map_of (as_minCounts st) d of None \<Rightarrow> n | Some m \<Rightarrow> if n < m then n else m))"
  using assms by (simp_all add: agg_merge_def Let_def agg_driver_foldl split: option.splits)

definition wf_member :: "profilePartition \<Rightarrow> bool" where
  "wf_member pp = wf_map (pd_DeviceCounts (pp_representative pp))"

definition agg_inv :: "profilePartition list \<Rightarrow> aggregateState \<Rightarrow> bool" where
  "agg_inv ms st \<longleftrightarrow> as_profile st = pp_profile (hd ms) \<and> as_partType st = pp_partType (hd ms) \<and>
     as_total st = int (length ms) \<and> as_count st = sum_list (map pp_count ms) \<and>
     as_devices st = concat (map (\<lambda>pp. pd_Devices (pp_representative pp)) ms) \<and> wf_map (as_driverSeen st) \<and>
     (\<forall>d. get_int (as_driverSeen st) d = int (length (carriers ms d)) \<and>
       (d \<in> fst ` set (as_driverSeen st) \<longleftrightarrow> carriers ms d \<noteq> []) \<and> map_of (as_minCounts st) d = least (carriers ms d))"

lemma carriers_single: "carriers [pp] d = (case map_of (pd_DeviceCounts (pp_representative pp)) d of None \<Rightarrow> [] | Some n \<Rightarrow> [n])"
  using carriers_snoc [of "[]" pp d] by (simp add: carriers_def map_filter_def)

lemma agg_inv_new: "wf_member pp \<Longrightarrow> agg_inv [pp] (agg_new pp)"
proof -
  assume wf: "wf_member pp"
  let ?c = "pd_DeviceCounts (pp_representative pp)"
  have ks: "map fst (map (\<lambda>(k, v). (k, 1 :: int)) ?c) = map fst ?c" by (simp add: case_prod_unfold)
  have get: "get_int (map (\<lambda>(k, v). (k, 1)) c) d = (case map_of c d of None \<Rightarrow> 0 | Some _ \<Rightarrow> 1)" for c :: "(string, int) gomap" and d
    by (induction c) (auto simp: get_or_def)
  have dom: "d \<in> fst ` set (map (\<lambda>(k, v). (k, 1 :: int)) ?c) \<longleftrightarrow> map_of ?c d \<noteq> None" for d
    using ks by (metis (no_types, lifting) list.set_map map_of_eq_None_iff)
  have "wf_map (map (\<lambda>(k, v). (k, 1 :: int)) ?c)" using wf ks unfolding wf_member_def by (simp only:)
  moreover have "least (carriers [pp] d) = map_of ?c d" "carriers [pp] d \<noteq> [] \<longleftrightarrow> map_of ?c d \<noteq> None"
    "int (length (carriers [pp] d)) = (case map_of ?c d of None \<Rightarrow> 0 | Some _ \<Rightarrow> 1)" for d
    by (simp_all add: carriers_single least_def split: option.splits)
  ultimately show ?thesis
    unfolding agg_inv_def agg_new_sel get dom by (simp only:) simp
qed

lemma agg_inv_merge:
  assumes "wf_member pp" and "agg_inv ms st" and "ms \<noteq> []"
  shows "agg_inv (ms @ [pp]) (agg_merge pp st)"
  unfolding agg_inv_def
proof (intro conjI allI)
  have wf: "wf_map (pd_DeviceCounts (pp_representative pp))" using assms(1) by (simp add: wf_member_def)
  note inv = assms(2) [unfolded agg_inv_def]
  fix d
  have key: "d \<in> fst ` set (pd_DeviceCounts (pp_representative pp)) \<longleftrightarrow> map_of (pd_DeviceCounts (pp_representative pp)) d \<noteq> None"
    by (metis map_of_eq_None_iff)
  show "get_int (as_driverSeen (agg_merge pp st)) d = int (length (carriers (ms @ [pp]) d))"
    using inv by (simp add: agg_merge_counts [OF wf] carriers_snoc key split: option.splits)
  show "(d \<in> fst ` set (as_driverSeen (agg_merge pp st))) = (carriers (ms @ [pp]) d \<noteq> [])"
    using inv by (simp add: agg_merge_counts [OF wf] carriers_snoc key split: option.splits)
  show "map_of (as_minCounts (agg_merge pp st)) d = least (carriers (ms @ [pp]) d)"
    using inv by (simp add: agg_merge_counts [OF wf] carriers_snoc least_snoc split: option.splits)
qed (use assms in \<open>simp_all add: agg_inv_def hd_append\<close>)

lemma agg_state_inv:
  assumes "\<And>pp. pp \<in> set ms \<Longrightarrow> wf_member pp" and "agg_state ms = Some st"
  shows "agg_inv ms st"
  using assms
proof (induction ms arbitrary: st rule: rev_induct)
  case (snoc pp ms)
  show ?case
  proof (cases "ms = []")
    case True
    with snoc.prems agg_inv_new [of pp] show ?thesis by (simp add: agg_state_def)
  next
    case False
    then obtain st0 where st0: "agg_state ms = Some st0" by (cases ms) (simp_all add: agg_state_def)
    with snoc.prems(2) have "st = agg_merge pp st0" by (simp add: agg_state_snoc)
    with snoc.IH [OF _ st0] snoc.prems(1) False show ?thesis by (simp add: agg_inv_merge)
  qed
qed (simp add: agg_state_def)


lemma local_unreachable: "local_devices devices \<Longrightarrow> \<not> isDriverReachableToAll driver ns devices"
  by (cases ns) (auto simp: isDriverReachableToAll_def local_devices_def list_all_iff list_ex_iff)

lemma intersect_foldl:
  assumes "local_devices (as_devices st)" and "wf_map ds"
  shows "map_of (fst (foldl (intersect_driver t st) acc ds)) d =
    (if map_of ds d = Some (as_total st) then Some (get_int (as_minCounts st) d) else map_of (fst acc) d)"
  using assms(2)
proof (induction ds arbitrary: acc)
  case (Cons e ds)
  have "map_of (fst (intersect_driver t st acc e)) d =
      (if d = fst e \<and> snd e = as_total st then Some (get_int (as_minCounts st) d) else map_of (fst acc) d)"
    by (auto simp: intersect_driver_def Let_def local_unreachable [OF assms(1)])
  moreover have "map_of ds (fst e) = None" using Cons.prems by (simp add: map_of_eq_None_iff)
  ultimately show ?case using Cons.IH [of "intersect_driver t st acc e"] Cons.prems by auto
qed simp

lemma length_filter_full: "length (filter P xs) = length xs \<longleftrightarrow> (\<forall>x\<in>set xs. P x)"
proof (induction xs)
  case (Cons x xs)
  have "length (filter P xs) \<noteq> Suc (length xs)" using length_filter_le [of P xs] by linarith
  with Cons show ?case by auto
qed simp

lemma carriers_full:
  "length (carriers ms d) = length ms \<longleftrightarrow> (\<forall>pp\<in>set ms. map_of (pd_DeviceCounts (pp_representative pp)) d \<noteq> None)"
proof -
  have len: "length (carriers ms d) = length (filter (\<lambda>pp. map_of (pd_DeviceCounts (pp_representative pp)) d \<noteq> None) ms)"
    by (simp add: carriers_def map_filter_def)
  show ?thesis unfolding len length_filter_full ..
qed

lemma set_carriers: "set (carriers ms d) = {n. \<exists>pp\<in>set ms. map_of (pd_DeviceCounts (pp_representative pp)) d = Some n}"
  by (force simp: carriers_def map_filter_def)

text \<open>The counts an aggregate asks for: a driver is in exactly when every member has it, with the
  least of their counts.\<close>

definition common_count :: "profilePartition list \<Rightarrow> string \<Rightarrow> int option" where
  "common_count ms d =
    (if list_all (\<lambda>pp. map_of (pd_DeviceCounts (pp_representative pp)) d \<noteq> None) ms then least (carriers ms d) else None)"

lemma intersection_counts:
  assumes inv: "agg_inv ms st" and "ms \<noteq> []" and "local_devices (as_devices st)"
  shows "map_of (fst (foldl (intersect_driver t st) ([], []) (as_driverSeen st))) d = common_count ms d"
proof -
  have "map_of (as_driverSeen st) d = (if carriers ms d = [] then None else Some (int (length (carriers ms d))))"
    using inv by (simp add: agg_inv_def map_of_get_or [of _ _ 0])
  moreover have "get_int (as_minCounts st) d = (case least (carriers ms d) of None \<Rightarrow> 0 | Some n \<Rightarrow> n)"
    using inv by (simp add: agg_inv_def get_or_def)
  moreover have "carriers ms d \<noteq> []" if "length (carriers ms d) = length ms" using that assms(2) by auto
  ultimately show ?thesis
    using inv carriers_full [of ms d] intersect_foldl [OF assms(3), of "as_driverSeen st" t "([], [])" d]
    by (auto simp: agg_inv_def common_count_def list_all_iff least_def)
qed

lemma aggregate_of_sel [simp]:
  "pp_profile (aggregate_of rules ak st) = as_profile st" "pp_partType (aggregate_of rules ak st) = as_partType st"
  "pp_count (aggregate_of rules ak st) = as_count st"
  "pd_NUMANodes (pp_representative (aggregate_of rules ak st)) = []"
  "pd_PCIeRoots (pp_representative (aggregate_of rules ak st)) = []"
  "pd_DeviceCounts (pp_representative (aggregate_of rules ak st)) =
    fst (foldl (intersect_driver (snd ak) st) ([], []) (as_driverSeen st))"
  by (simp_all add: aggregate_of_def Let_def)

lemma aggregate_entry:
  assumes "pp \<in> set (members seen ak)" and "\<And>pp. pp \<in> set (members seen ak) \<Longrightarrow> wf_member pp"
  obtains st where "map_of (collect_aggregates rules seen) ak = Some (aggregate_of rules ak st)"
    "agg_inv (members seen ak) st"
proof -
  from assms(1) obtain st where "agg_state (members seen ak) = Some st"
    by (cases "members seen ak") (simp_all add: agg_state_def)
  with assms(2) show ?thesis by (intro that [of st]) (simp_all add: collect_aggregates_spec agg_state_inv)
qed

lemma members_offers:
  assumes "pp \<in> set (members seen ak)" and "set seen = set (collect_seen rules results)"
  shows "\<exists>r\<in>set results. pp_representative pp \<in> set (pr_Partitions r) \<and> pp_profile pp = pr_Profile r"
proof -
  from assms obtain k where "(k, pp) \<in> set (collect_seen rules results)" by (auto simp: members_def)
  then show ?thesis by (rule collect_seen_mem) (auto simp: offers_def offer_entry_def)
qed

lemma members_mset: "mset seen = mset seen' \<Longrightarrow> mset (members seen ak) = mset (members seen' ak)"
  by (simp add: members_def)

lemma common_count_mset:
  assumes "mset ms = mset ms'"
  shows "common_count ms d = common_count ms' d"
proof -
  have "set ms = set ms'" using assms by (rule mset_eq_setD)
  moreover have "set (carriers ms d) = set (carriers ms' d)" by (simp add: set_carriers calculation)
  moreover have "carriers ms d = [] \<longleftrightarrow> carriers ms' d = []" using calculation(2) by (metis set_empty)
  ultimately show ?thesis by (simp add: common_count_def list_all_iff least_def)
qed

lemma sum_counts_mset: "mset ms = mset ms' \<Longrightarrow> sum_list (map pp_count ms) = sum_list (map pp_count ms')"
  by (metis mset_map sum_mset_sum_list)

lemma plain_aggregate:
  assumes "all_plain results"
    and "range_ok order" and "pp \<in> set (members (collect_seen rules results) ak)"
  shows "\<exists>agg. map_of (collect_aggregates rules (visit order (collect_seen rules results))) ak = Some agg \<and>
    pp_count agg = sum_list (map pp_count (members (collect_seen rules results) ak)) \<and>
    (\<forall>d. map_of (pd_DeviceCounts (pp_representative agg)) d = common_count (members (collect_seen rules results) ak) d) \<and>
    (\<forall>d n. map_of (pd_DeviceCounts (pp_representative agg)) d = Some n \<longrightarrow>
      (\<exists>m. map_of (pd_DeviceCounts (pp_representative pp)) d = Some m \<and> n \<le> m))"
proof -
  define seen where "seen = visit order (collect_seen rules results)"
  let ?ms = "members seen ak"
  have same: "mset seen = mset (collect_seen rules results)" "set seen = set (collect_seen rules results)"
    by (simp_all add: seen_def mset_visit [OF assms(2)] set_visit [OF assms(2)])
  note perm = members_mset [OF same(1), of ak]
  have mem: "pp \<in> set ?ms" using assms(3) mset_eq_setD [OF perm] by simp
  have plain: "plain_partition (pp_representative qq)" if "qq \<in> set ?ms" for qq
    using members_offers [OF that same(2)] assms(1) by (auto simp: all_plain_def list_all_iff)
  obtain st where agg: "map_of (collect_aggregates rules seen) ak = Some (aggregate_of rules ak st)"
    and inv: "agg_inv ?ms st"
    using aggregate_entry [OF mem] plain by (metis plain_partition_def wf_member_def)
  have "local_devices (as_devices st)"
    using inv plain by (auto simp: agg_inv_def local_devices_def plain_partition_def list_all_iff)
  then have counts: "map_of (pd_DeviceCounts (pp_representative (aggregate_of rules ak st))) d = common_count ?ms d" for d
    using intersection_counts [OF inv] mem by (metis aggregate_of_sel(6) empty_iff list.set(1))
  have "\<exists>m. map_of (pd_DeviceCounts (pp_representative pp)) d = Some m \<and> n \<le> m" if "common_count ?ms d = Some n" for d n
  proof -
    from that mem obtain m where m: "map_of (pd_DeviceCounts (pp_representative pp)) d = Some m"
      by (auto simp: common_count_def list_all_iff split: if_splits)
    with mem have "m \<in> set (carriers ?ms d)" by (auto simp: set_carriers)
    with that have "n \<le> m" by (auto simp: common_count_def least_def split: if_splits)
    with m show ?thesis by simp
  qed
  with agg inv counts show ?thesis
    unfolding seen_def [symmetric] common_count_mset [OF perm, symmetric] sum_counts_mset [OF perm, symmetric]
    by (auto simp: agg_inv_def)
qed



text \<open>A node with two GPUs on NUMA node 0 and one on NUMA node 1.\<close>

definition example_gpus :: ResourceSlice where
  "example_gpus = (example_slice ''s1'' ''gpu'' ''a'')\<lparr>rs_Devices := map (\<lambda>(name, numa).
     \<lparr> dev_Name = name, dev_Attributes = [(AttrNUMANode, int_attr numa)], dev_Capacity = [], dev_ConsumesCounters = [] \<rparr>)
     [(''g0'', 0), (''g1'', 0), (''g2'', 1)]\<rparr>"

definition example_results :: "PartitionResult list" where
  "example_results = the (BuildPartitions decimal_lib (model_run [SliceUpserted (Some example_gpus)]) NewTopologyRuleStore)"

definition example_seen :: "(string, profilePartition) gomap" where
  "example_seen = collect_seen NewTopologyRuleStore example_results"


definition example_numa :: "string \<Rightarrow> int \<Rightarrow> string list \<Rightarrow> PartitionDevice" where
  "example_numa node numa names = buildPartitionFromDevices (node @ ''-numa'') node ''gpu'' PartitionNUMA
     (map (\<lambda>name. example_device ''gpu'' name None numa []) names)"

definition example_result :: "string \<Rightarrow> PartitionDevice list \<Rightarrow> PartitionResult" where
  "example_result node ps = \<lparr> pr_NodeName = node, pr_Profile = ''gpu'', pr_Partitions = ps \<rparr>"

text \<open>
  Partitions of two nodes with the same profile and NUMA node share one key whatever their
  device counts, and only the first one is looked at.  With four GPUs on NUMA node 0 of node
  \<open>a\<close> and one GPU on that of node \<open>b\<close>, the published aggregate asks for four, although the
  count label says that it stands for both.
\<close>

theorem same_key_hides_smaller_partition:
  "map (\<lambda>(ak, agg). (ak, pp_count agg, pd_DeviceCounts (pp_representative agg)))
     (collect_aggregates NewTopologyRuleStore (collect_seen NewTopologyRuleStore
        [example_result ''a'' [example_numa ''a'' 0 [''g0'', ''g1'', ''g2'', ''g3'']],
         example_result ''b'' [example_numa ''b'' 0 [''g0'']]])) =
   [((''gpu'', PartitionNUMA), 2, [(''gpu'', 4)])]"
  by code_simp


section \<open>The plan of a synchronisation\<close>

text \<open>The classes \<open>SyncDeviceClasses\<close> publishes, in order, and the keys it protects from the clean-up.\<close>

definition planned ::
  "(nat \<Rightarrow> range_order) \<Rightarrow> string \<Rightarrow> TopologyRuleStore \<Rightarrow> PartitionResult list \<Rightarrow>
     (DeviceClass list \<times> string list) option" where
  "planned ro driverName rules results =
    (let seen = collect_seen rules results; aggregates = collect_aggregates rules (visit (ro 2) seen)
     in map_option (\<lambda>tiers.
         (map (partition_class driverName (rail_index (visit (ro 0) seen))) (visit (ro 1) seen)
          @ map (\<lambda>(ak, pp). aggregate_class driverName pp) (visit (ro 3) aggregates)
          @ map (\<lambda>(ak, t). tier_class driverName (the (map_of aggregates ak)) t) (visit (ro 4) tiers),
          active_keys seen aggregates tiers))
       (tier_names aggregates (concat (map pr_Partitions results)) (pcie_root_count seen)))"

lemma publish_all_append:
  "publish_all api (xs @ ys) w =
    (case publish_all api xs w of (None, w1) \<Rightarrow> publish_all api ys w1 | (Some e, w1) \<Rightarrow> (Some e, w1))"
  by (induction xs arbitrary: w) (simp_all split: prod.splits option.splits)

lemma SyncDeviceClasses_planned:
  assumes "planned ro driverName rules results = Some (classes, active)"
  shows "SyncDeviceClasses ro api driverName rules results w =
    Some (case publish_all api classes w of (Some e, w1) \<Rightarrow> (Some e, w1)
      | (None, w1) \<Rightarrow> (None, snd (cleanupStaleDeviceClasses api active w1)))"
  using assms
  by (auto simp: planned_def SyncDeviceClasses_def Let_def publish_all_append split: prod.splits option.splits)

lemma computeTierName_total: "1 \<le> pp_count pp \<Longrightarrow> \<exists>t. computeTierName ty pp ps profile n = Some t"
  by (simp add: computeTierName_def Let_def)


lemma agg_state_frame:
  assumes "agg_state ms = Some st"
  shows "as_profile st = pp_profile (hd ms) \<and> as_partType st = pp_partType (hd ms) \<and>
    as_count st = sum_list (map pp_count ms) \<and> ms \<noteq> []"
  using assms
proof (induction ms arbitrary: st rule: rev_induct)
  case (snoc pp ms)
  then show ?case
    by (cases "agg_state ms") (auto simp: agg_state_snoc agg_state_def split: list.splits)
qed (simp add: agg_state_def)

lemma aggregate_mem:
  assumes "(ak, agg) \<in> set (collect_aggregates rules seen)"
  shows "pp_profile agg = fst ak" "pp_partType agg = snd ak"
    "pp_count agg = sum_list (map pp_count (members seen ak))" "members seen ak \<noteq> []"
    "pd_NUMANodes (pp_representative agg) = []" "pd_PCIeRoots (pp_representative agg) = []"
proof -
  have "map_of (collect_aggregates rules seen) ak = Some agg"
    using wf_map_mem [OF collect_aggregates_spec(1)] assms by blast
  then obtain st where st: "agg_state (members seen ak) = Some st" "agg = aggregate_of rules ak st"
    by (auto simp: collect_aggregates_spec(2))
  note frame = agg_state_frame [OF st(1)]
  from frame show "members seen ak \<noteq> []" by simp
  then have "hd (members seen ak) \<in> set (members seen ak)" by simp
  then have "(pp_profile (hd (members seen ak)), pp_partType (hd (members seen ak))) = ak"
    by (simp only: members_def set_filter mem_Collect_eq)
  then have "pp_profile (hd (members seen ak)) = fst ak" "pp_partType (hd (members seen ak)) = snd ak" by (metis fst_conv, metis snd_conv)
  with frame st(2) show "pp_profile agg = fst ak" "pp_partType agg = snd ak"
    "pp_count agg = sum_list (map pp_count (members seen ak))"
    "pd_NUMANodes (pp_representative agg) = []" "pd_PCIeRoots (pp_representative agg) = []" by auto
qed

lemma sum_list_pos: "xs \<noteq> [] \<Longrightarrow> (\<And>x. x \<in> set xs \<Longrightarrow> 1 \<le> (x :: int)) \<Longrightarrow> 1 \<le> sum_list xs"
proof (induction xs)
  case (Cons x xs)
  then show ?case by (cases "xs = []") force+
qed simp

lemma aggregate_count_pos:
  assumes "(ak, agg) \<in> set (collect_aggregates rules seen)" and "set seen = set (collect_seen rules results)"
  shows "1 \<le> pp_count agg"
  unfolding aggregate_mem(3) [OF assms(1)]
proof (rule sum_list_pos)
  fix n
  assume "n \<in> set (map pp_count (members seen ak))"
  then obtain k pp where "(k, pp) \<in> set (collect_seen rules results)" "n = pp_count pp"
    using assms(2) by (auto simp: members_def)
  then show "1 \<le> n" by (elim collect_seen_mem) (simp add: offer_entry_def)
qed (use aggregate_mem(4) [OF assms(1)] in simp)

definition all_orders_ok :: "(nat \<Rightarrow> range_order) \<Rightarrow> bool" where
  "all_orders_ok ro = (\<forall>i. range_ok (ro i))"

lemma all_orders_okD: "all_orders_ok ro \<Longrightarrow> range_ok (ro i)"
  by (simp add: all_orders_ok_def)

text \<open>No division by zero: the plan always exists.\<close>

lemma planned_total:
  assumes "all_orders_ok ro"
  shows "\<exists>plan. planned ro driverName rules results = Some plan"
proof -
  let ?aggs = "collect_aggregates rules (visit (ro 2) (collect_seen rules results))"
  have "\<exists>names. those (map (\<lambda>(ak, pp). computeTierName (snd ak) pp ps (fst ak) n) ?aggs) = Some names" for ps n
    by (rule those_Some) (auto dest: aggregate_count_pos [OF _ set_visit [OF all_orders_okD [OF assms]]] intro: computeTierName_total)
  then have "\<exists>tiers. tier_names ?aggs ps n = Some tiers" for ps n
    unfolding tier_names_def using option.distinct by (cases "n > 0") (fastforce simp: Option.bind_eq_Some_conv)+
  then obtain tiers where "tier_names ?aggs (concat (map pr_Partitions results))
      (pcie_root_count (collect_seen rules results)) = Some tiers" by blast
  then show ?thesis by (simp add: planned_def Let_def)
qed


lemma tier_names_mem:
  assumes "tier_names aggregates ps n = Some tiers" and "(ak, t) \<in> set tiers"
  shows "t \<noteq> ''''" "ak \<in> fst ` set aggregates"
proof -
  from assms obtain names where "tiers = filter (\<lambda>(ak, n). n \<noteq> '''') (zip (keys aggregates) names)"
    by (auto simp: tier_names_def split: if_splits option.splits bind_splits)
  with assms(2) show "t \<noteq> ''''" "ak \<in> fst ` set aggregates" by (auto dest: set_zip_leftD)
qed


text \<open>The labels of every planned class spell a protected key.\<close>

lemma partition_class_labels:
  "label_key (dc_Labels (partition_class d rails (k, pp))) =
    label_key (dc_Labels (buildDeviceClassFromCache d (pp_profile pp) (pp_partType pp) (pp_representative pp)
      (pp_cachedConfig pp) (pp_cachedCoupling pp) (pp_count pp)))"
  by (simp add: partition_class_def Let_def label_key_rail split: option.splits)

lemma partition_class_key:
  assumes "(k, pp) \<in> set (collect_seen rules results)" and "all_rooted results"
  shows "label_key (dc_Labels (partition_class d rails (k, pp))) = k"
proof -
  from assms(1) obtain o1 n where o1: "o1 \<in> set (offers results)" "k = offer_key rules o1" "pp = offer_entry rules o1 n"
    by (rule collect_seen_mem)
  then have "rooted (snd o1)" using assms(2) by (auto simp: offers_def all_rooted_def list_all_iff)
  note key = label_key_class [OF part_suffix_good [OF this]]
  show ?thesis
    unfolding partition_class_labels o1(2,3) offer_entry_def profilePartition.select_convs key offer_key_def seen_key_def ..
qed

lemma aggregate_class_key:
  assumes "(ak, agg) \<in> set (collect_aggregates rules seen)"
  shows "label_key (dc_Labels (aggregate_class d agg)) = truncateLabel (fst ak) @ ''-'' @ snd ak"
    and "t \<noteq> '''' \<Longrightarrow> label_key (dc_Labels (tier_class d agg t)) = truncateLabel (fst ak) @ ''-'' @ t"
proof -
  note m = aggregate_mem [OF assms]
  have "part_suffix (snd ak) (pp_representative agg) = ''''" by (rule part_suffix_bare [OF m(5) m(6)])
  then show "label_key (dc_Labels (aggregate_class d agg)) = truncateLabel (fst ak) @ ''-'' @ snd ak"
    using m(1) m(2) by (simp add: aggregate_class_def label_key_class good_suffix_def)
  assume "t \<noteq> ''''"
  then show "label_key (dc_Labels (tier_class d agg t)) = truncateLabel (fst ak) @ ''-'' @ t"
    using m(1) by (simp add: tier_class_def Let_def label_key_tier)
qed

lemma active_keysI:
  "(k, pp) \<in> set seen \<Longrightarrow> k \<in> set (active_keys seen aggs tiers)"
  "(ak, agg) \<in> set aggs \<Longrightarrow> truncateLabel (fst ak) @ ''-'' @ snd ak \<in> set (active_keys seen aggs tiers)"
  "(ak, t) \<in> set tiers \<Longrightarrow> truncateLabel (fst ak) @ ''-'' @ t \<in> set (active_keys seen aggs tiers)"
  unfolding active_keys_def by (auto simp: image_iff intro: bexI [rotated])

text \<open>Every planned class is that of a collected partition, of an aggregate or of a tier.\<close>

lemma planned_cases [consumes 3, case_names part agg tier]:
  assumes "planned ro d rules results = Some (classes, active)" and "all_orders_ok ro" and "dc \<in> set classes"
  obtains rails k pp where "(k, pp) \<in> set (collect_seen rules results)" "dc = partition_class d rails (k, pp)"
      "rails = rail_index (visit (ro 0) (collect_seen rules results))" "k \<in> set active"
    | seen ak pp where "(ak, pp) \<in> set (collect_aggregates rules seen)" "dc = aggregate_class d pp"
      "set seen = set (collect_seen rules results)" "truncateLabel (fst ak) @ ''-'' @ snd ak \<in> set active"
    | seen ak pp t where "(ak, pp) \<in> set (collect_aggregates rules seen)" "dc = tier_class d pp t" "t \<noteq> ''''"
      "set seen = set (collect_seen rules results)" "truncateLabel (fst ak) @ ''-'' @ t \<in> set active"
proof -
  define seen where "seen = collect_seen rules results"
  define seen2 where "seen2 = visit (ro 2) seen"
  define aggs where "aggs = collect_aggregates rules seen2"
  have ok: "set (visit (ro i) xs) = set xs" for i and xs :: "'z list" using assms(2) by (simp add: set_visit all_orders_okD)
  obtain tiers where tiers: "tier_names aggs (concat (map pr_Partitions results)) (pcie_root_count seen) = Some tiers"
    and cls: "classes = map (partition_class d (rail_index (visit (ro 0) seen))) (visit (ro 1) seen)
      @ map (\<lambda>(ak, pp). aggregate_class d pp) (visit (ro 3) aggs)
      @ map (\<lambda>(ak, t). tier_class d (the (map_of aggs ak)) t) (visit (ro 4) tiers)"
    and act: "active = active_keys seen aggs tiers"
    using assms(1) unfolding planned_def Let_def seen_def seen2_def aggs_def by auto
  have s2: "set seen2 = set (collect_seen rules results)" by (simp add: seen2_def seen_def ok)
  from assms(3) cls consider
      (part) k pp where "(k, pp) \<in> set seen" "dc = partition_class d (rail_index (visit (ro 0) seen)) (k, pp)"
    | (agg) ak pp where "(ak, pp) \<in> set aggs" "dc = aggregate_class d pp"
    | (tier) ak t where "(ak, t) \<in> set tiers" "dc = tier_class d (the (map_of aggs ak)) t"
    by (auto simp: ok)
  then show ?thesis
  proof cases
    case part
    then show ?thesis using that(1) active_keysI(1) unfolding act seen_def by metis
  next
    case agg
    then show ?thesis using that(2) s2 active_keysI(2) unfolding act aggs_def by metis
  next
    case tier
    note t = tier_names_mem [OF tiers tier(1)]
    have wf: "wf_map aggs" by (simp add: aggs_def collect_aggregates_spec(1))
    obtain pp where pp: "(ak, pp) \<in> set aggs" using t(2) by auto
    then have "map_of aggs ak = Some pp" using wf_map_mem [OF wf] by blast
    with tier(2) have "dc = tier_class d pp t" by simp
    with pp t(1) s2 active_keysI(3) [OF tier(1)] show ?thesis using that(3) unfolding act aggs_def by metis
  qed
qed

lemma planned_protected:
  assumes "planned ro d rules results = Some (classes, active)" and "all_orders_ok ro"
    and "all_rooted results" and "dc \<in> set classes"
  shows "label_key (dc_Labels dc) \<in> set active"
  using assms(1,2,4)
proof (cases rule: planned_cases)
  case (part rails k pp)
  with partition_class_key [OF _ assms(3)] have "label_key (dc_Labels dc) = k" by blast
  with part(4) show ?thesis by simp
next
  case (agg seen ak pp)
  with aggregate_class_key(1) have "label_key (dc_Labels dc) = truncateLabel (fst ak) @ ''-'' @ snd ak" by blast
  with agg(4) show ?thesis by simp
next
  case (tier seen ak pp t)
  with aggregate_class_key(2) have "label_key (dc_Labels dc) = truncateLabel (fst ak) @ ''-'' @ t" by blast
  with tier(5) show ?thesis by simp
qed

text \<open>
  C10: \<open>SyncDeviceClasses\<close> on the partitions of any topology model never panics (the tier names
  divide by a count that is at least one), whatever the API answers and in whatever order it visits
  its maps; and it never deletes what it publishes: the key that the clean-up rebuilds from the labels of each class it publishes
  (profile, partition type, NUMA or PCIe suffix, coupling, or tier) is among the active keys.
\<close>

theorem published_classes_protected:
  assumes "all_orders_ok ro"
  shows "\<exists>results classes active. BuildPartitions Q model rules = Some results
     \<and> planned ro driverName rules results = Some (classes, active)
     \<and> list_all (\<lambda>dc. label_key (dc_Labels dc) \<in> set active) classes
     \<and> (\<forall>w. SyncDeviceClasses ro api driverName rules results w =
          Some (case publish_all api classes w of (Some e, w1) \<Rightarrow> (Some e, w1)
            | (None, w1) \<Rightarrow> (None, snd (cleanupStaleDeviceClasses api active w1))))"
proof -
  obtain results where r: "BuildPartitions Q model rules = Some results" using BuildPartitions_total by blast
  obtain plan where "planned ro driverName rules results = Some plan"
    using planned_total [OF assms] by blast
  then obtain classes active where p: "planned ro driverName rules results = Some (classes, active)" by (cases plan) blast
  have prot: "list_all (\<lambda>dc. label_key (dc_Labels dc) \<in> set active) classes"
    unfolding list_all_iff using planned_protected [OF p assms BuildPartitions_rooted [OF r]] by blast
  show ?thesis
    by (intro exI [of _ results] exI [of _ classes] exI [of _ active] conjI allI r p prot SyncDeviceClasses_planned)
qed

lemma insertion_orders_ok [simp]: "all_orders_ok (\<lambda>_. insertion_order)"
  by (simp add: all_orders_ok_def)

theorem published_classes_protected_witness:
  "\<exists>results classes active. BuildPartitions decimal_lib NewTopologyModel NewTopologyRuleStore = Some results
     \<and> planned (\<lambda>_. insertion_order) CoordinatorDriverName NewTopologyRuleStore results = Some (classes, active)
     \<and> list_all (\<lambda>dc. label_key (dc_Labels dc) \<in> set active) classes"
  using published_classes_protected [OF insertion_orders_ok, of decimal_lib NewTopologyModel NewTopologyRuleStore CoordinatorDriverName]
  by blast

end
