(* ===== verification/Class_Sync.thy ===== *)
theory Class_Sync
  imports Device_Class
begin

text \<open>
  The DeviceClasses of a cluster after a synchronisation.  The Kubernetes API is outside the
  program; \<open>api_laws\<close> says what the manager relies on when no call fails and nobody else writes:
  the five calls read and write one map from names to objects, the server chooses resource
  versions, and a list call with one of the two label selectors returns the objects that carry
  the labels.
\<close>

section \<open>What the manager relies on\<close>

type_synonym cluster = "string \<Rightarrow> DeviceClass option"

definition erase :: "DeviceClass \<Rightarrow> DeviceClass" where
  "erase dc = dc\<lparr>dc_ResourceVersion := ''''\<rparr>"

definition managed_with :: "string \<Rightarrow> DeviceClass \<Rightarrow> bool" where
  "managed_with name dc = (map_of (dc_Labels dc) (lbl ''managed'') = Some ''true'' \<and> map_of (dc_Labels dc) (lbl name) \<noteq> None)"

definition stored :: "cluster \<Rightarrow> DeviceClass \<Rightarrow> cluster \<Rightarrow> bool" where
  "stored v dc v' = (\<exists>rv. v' = v(dc_Name dc \<mapsto> dc\<lparr>dc_ResourceVersion := rv\<rparr>))"

definition selects :: "string \<Rightarrow> string \<Rightarrow> bool" where
  "selects sel name = (sel = partition_selector \<and> name = ''partitionType'' \<or> sel = grouping_selector \<and> name = ''grouping'')"

definition get_law :: "'w dc_api \<Rightarrow> ('w \<Rightarrow> cluster) \<Rightarrow> bool" where
  "get_law api view = (\<forall>w n. view (snd (api_Get api n w)) = view w \<and>
     fst (api_Get api n w) = (case view w n of None \<Rightarrow> Inl NotFound | Some dc \<Rightarrow> Inr dc))"

definition create_law :: "'w dc_api \<Rightarrow> ('w \<Rightarrow> cluster) \<Rightarrow> bool" where
  "create_law api view = (\<forall>w dc. view w (dc_Name dc) = None \<longrightarrow>
     fst (api_Create api dc w) = None \<and> stored (view w) dc (view (snd (api_Create api dc w))))"

definition update_law :: "'w dc_api \<Rightarrow> ('w \<Rightarrow> cluster) \<Rightarrow> bool" where
  "update_law api view = (\<forall>w dc old. view w (dc_Name dc) = Some old \<longrightarrow> dc_ResourceVersion dc = dc_ResourceVersion old \<longrightarrow>
     fst (api_Update api dc w) = None \<and> stored (view w) dc (view (snd (api_Update api dc w))))"

definition delete_law :: "'w dc_api \<Rightarrow> ('w \<Rightarrow> cluster) \<Rightarrow> bool" where
  "delete_law api view = (\<forall>w n. view (snd (api_Delete api n w)) = (view w)(n := None))"

definition list_law :: "'w dc_api \<Rightarrow> ('w \<Rightarrow> cluster) \<Rightarrow> bool" where
  "list_law api view = (\<forall>w sel name. selects sel name \<longrightarrow> view (snd (api_List api sel w)) = view w \<and>
     (\<exists>cs. fst (api_List api sel w) = Inr cs \<and> set cs = {dc \<in> ran (view w). managed_with name dc}))"

definition api_laws :: "'w dc_api \<Rightarrow> ('w \<Rightarrow> cluster) \<Rightarrow> bool" where
  "api_laws api view = ((\<forall>w n dc. view w n = Some dc \<longrightarrow> dc_Name dc = n) \<and> get_law api view \<and> create_law api view \<and>
     update_law api view \<and> delete_law api view \<and> list_law api view)"

lemma api_lawsD:
  assumes "api_laws api view"
  shows "view w n = Some dc \<Longrightarrow> dc_Name dc = n"
    "view (snd (api_Get api n w)) = view w"
    "fst (api_Get api n w) = (case view w n of None \<Rightarrow> Inl NotFound | Some dc \<Rightarrow> Inr dc)"
    "view w (dc_Name dc) = None \<Longrightarrow> fst (api_Create api dc w) = None"
    "view w (dc_Name dc) = None \<Longrightarrow> stored (view w) dc (view (snd (api_Create api dc w)))"
    "view w (dc_Name dc) = Some old \<Longrightarrow> dc_ResourceVersion dc = dc_ResourceVersion old \<Longrightarrow> fst (api_Update api dc w) = None"
    "view w (dc_Name dc) = Some old \<Longrightarrow> dc_ResourceVersion dc = dc_ResourceVersion old \<Longrightarrow>
      stored (view w) dc (view (snd (api_Update api dc w)))"
    "view (snd (api_Delete api n w)) = (view w)(n := None)"
  using assms unfolding api_laws_def get_law_def create_law_def update_law_def delete_law_def by simp_all

lemma api_lawsD_list:
  assumes "api_laws api view" and "selects sel name"
  obtains cs where "fst (api_List api sel w) = Inr cs" "set cs = {dc \<in> ran (view w). managed_with name dc}"
    "view (snd (api_List api sel w)) = view w"
proof -
  have "list_law api view" using assms(1) by (simp add: api_laws_def)
  then show ?thesis using assms(2) that unfolding list_law_def by metis
qed

section \<open>Publishing and deleting\<close>

lemma publishDeviceClass_stores:
  assumes "api_laws api view"
  shows "\<exists>w'. publishDeviceClass api dc w = (None, w') \<and> stored (view w) dc (view w')"
proof -
  note laws = api_lawsD [OF assms]
  obtain g w1 where g: "api_Get api (dc_Name dc) w = (g, w1)" by (cases "api_Get api (dc_Name dc) w")
  then have v1: "view w1 = view w" and gv: "g = (case view w (dc_Name dc) of None \<Rightarrow> Inl NotFound | Some dc \<Rightarrow> Inr dc)"
    using laws(2,3) [where w = w and n = "dc_Name dc"] by simp_all
  show ?thesis
  proof (cases "view w (dc_Name dc)")
    case None
    with laws(4,5) [of w1 dc] v1 g gv show ?thesis
      by (cases "api_Create api dc w1") (simp add: publishDeviceClass_def)
  next
    case (Some old)
    let ?dc = "dc\<lparr>dc_ResourceVersion := dc_ResourceVersion old\<rparr>"
    have "fst (api_Update api ?dc w1) = None" "stored (view w1) ?dc (view (snd (api_Update api ?dc w1)))"
      using laws(6,7) [of w1 ?dc old] Some v1 by simp_all
    with Some g gv v1 show ?thesis
      by (cases "api_Update api ?dc w1") (simp add: publishDeviceClass_def stored_def)
  qed
qed

text \<open>The abstract effect of a sequence of publications: the last class of a name stands.\<close>

definition overwrite :: "DeviceClass list \<Rightarrow> cluster \<Rightarrow> cluster" where
  "overwrite classes v = map_option erase \<circ> v ++ map_of (map (\<lambda>dc. (dc_Name dc, dc)) classes)"

lemma overwrite_Nil: "overwrite [] v = map_option erase \<circ> v"
  by (simp add: overwrite_def)

lemma overwrite_stored:
  "stored v dc v' \<Longrightarrow> overwrite (rev dcs) v' = overwrite (rev (dc # dcs)) v"
  by (auto simp: overwrite_def stored_def erase_def fun_eq_iff map_add_def split: option.splits)

lemma publish_all_stores:
  assumes "api_laws api view"
  shows "\<exists>w'. publish_all api dcs w = (None, w') \<and> map_option erase \<circ> view w' = overwrite (rev dcs) (view w)"
proof (induction dcs arbitrary: w)
  case (Cons dc dcs)
  obtain w1 where w1: "publishDeviceClass api dc w = (None, w1)" "stored (view w) dc (view w1)"
    using publishDeviceClass_stores [OF assms] by blast
  with Cons [of w1] show ?case by (simp add: overwrite_stored)
qed (simp add: overwrite_Nil)

lemma delete_all_removes:
  assumes "api_laws api view"
  shows "view (delete_all api ns w) = (view w) |` (- set ns)"
  by (induction ns arbitrary: w)
    (auto simp: api_lawsD(8) [OF assms] restrict_map_def fun_eq_iff)

text \<open>The abstract effect of a clean-up: managed objects of a kind that are stale go.\<close>

definition prune :: "string \<Rightarrow> (DeviceClass \<Rightarrow> bool) \<Rightarrow> cluster \<Rightarrow> cluster" where
  "prune name live v = (\<lambda>n. case v n of None \<Rightarrow> None | Some dc \<Rightarrow> if managed_with name dc \<and> \<not> live dc then None else Some dc)"

lemma managed_with_erase [simp]: "managed_with name (erase dc) = managed_with name dc"
  by (simp add: managed_with_def erase_def)

lemma cleanup_prunes:
  assumes "api_laws api view" and "selects sel name"
    and "\<And>dc. live (erase dc) = live dc"
  shows "\<exists>cs w1. api_List api sel w = (Inr cs, w1) \<and>
    map_option erase \<circ> view (delete_all api (map dc_Name (filter (\<lambda>dc. \<not> live dc) cs)) w1) =
      prune name live (map_option erase \<circ> view w)"
proof -
  obtain cs where cs: "fst (api_List api sel w) = Inr cs" "set cs = {dc \<in> ran (view w). managed_with name dc}"
    and v: "view (snd (api_List api sel w)) = view w"
    by (rule api_lawsD_list [OF assms(1,2)])
  have named: "view w n = Some dc \<Longrightarrow> dc_Name dc = n" for n dc by (rule api_lawsD(1) [OF assms(1)])
  let ?stale = "dc_Name ` {dc \<in> ran (view w). managed_with name dc \<and> \<not> live dc}"
  have stale: "n \<in> ?stale \<longleftrightarrow> (\<exists>dc. view w n = Some dc \<and> managed_with name dc \<and> \<not> live dc)" for n
    using named by (fastforce simp: ran_def)
  have "set (map dc_Name (filter (\<lambda>dc. \<not> live dc) cs)) = ?stale" using cs(2) by auto
  then have deleted: "view (delete_all api (map dc_Name (filter (\<lambda>dc. \<not> live dc) cs)) (snd (api_List api sel w))) =
      view w |` (- ?stale)" by (simp only: delete_all_removes [OF assms(1)] v)
  have pruned: "(map_option erase \<circ> (view w |` (- ?stale))) n = prune name live (map_option erase \<circ> view w) n" for n
  proof (cases "view w n")
    case (Some dc)
    then have "n \<in> ?stale \<longleftrightarrow> managed_with name dc \<and> \<not> live dc" unfolding stale by simp
    with Some assms(3) show ?thesis unfolding restrict_map_def prune_def o_def by (simp del: mem_Collect_eq image_iff)
  qed (simp add: restrict_map_def prune_def)
  have "api_List api sel w = (Inr cs, snd (api_List api sel w))" using cs(1) by (simp add: prod_eq_iff)
  then show ?thesis
    by (intro exI [of _ cs] exI [of _ "snd (api_List api sel w)"] conjI ext) (simp_all only: deleted pruned)
qed

lemma prune_overwrite:
  assumes "\<And>dc. dc \<in> set classes \<Longrightarrow> live (erase dc)" and "\<And>dc. live (erase dc) = live dc"
  shows "prune name live (overwrite (rev classes) v) = overwrite (rev classes) (prune name live v)"
proof
  fix n
  let ?m = "map_of (map (\<lambda>dc. (dc_Name dc, dc)) (rev classes))"
  have "live (erase dc)" if "?m n = Some dc" for dc
    using map_of_SomeD [OF that] assms(1) by auto
  then show "prune name live (overwrite (rev classes) v) n = overwrite (rev classes) (prune name live v) n"
    using assms(2)
    by (auto simp: prune_def overwrite_def map_add_def managed_with_def erase_def split: option.splits)
qed


lemma publish_cleanup:
  assumes laws: "api_laws api view" and sel: "selects sel name" and live: "\<And>dc. live (erase dc) = live dc"
    and safe: "\<And>dc. dc \<in> set classes \<Longrightarrow> live dc"
  shows "\<exists>w1 cs w2. publish_all api classes w = (None, w1) \<and> api_List api sel w1 = (Inr cs, w2) \<and>
    map_option erase \<circ> view (delete_all api (map dc_Name (filter (\<lambda>dc. \<not> live dc) cs)) w2) =
      overwrite (rev classes) (prune name live (view w))"
proof -
  obtain w1 where w1: "publish_all api classes w = (None, w1)"
    and v1: "map_option erase \<circ> view w1 = overwrite (rev classes) (view w)"
    using publish_all_stores [OF laws] by blast
  obtain cs w2 where w2: "api_List api sel w1 = (Inr cs, w2)"
    and v2: "map_option erase \<circ> view (delete_all api (map dc_Name (filter (\<lambda>dc. \<not> live dc) cs)) w2) =
      prune name live (map_option erase \<circ> view w1)"
    using cleanup_prunes [where live = live, OF laws sel live] by blast
  have "prune name live (overwrite (rev classes) (view w)) = overwrite (rev classes) (prune name live (view w))"
    using safe live by (intro prune_overwrite) auto
  with w1 w2 v1 v2 show ?thesis by (intro exI [of _ w1] exI [of _ cs] exI [of _ w2]) simp
qed

section \<open>Partition classes\<close>

lemma sync_partitions:
  assumes "api_laws api view" and "all_orders_ok ro"
  shows "\<exists>results classes active w'. BuildPartitions Q model rules = Some results
    \<and> planned ro driverName rules results = Some (classes, active)
    \<and> SyncDeviceClasses ro api driverName rules results w = Some (None, w')
    \<and> map_option erase \<circ> view w' = overwrite (rev classes)
        (prune ''partitionType'' (\<lambda>dc. label_key (dc_Labels dc) \<in> set active) (view w))"
proof -
  obtain results where r: "BuildPartitions Q model rules = Some results" using BuildPartitions_total by blast
  obtain plan where "planned ro driverName rules results = Some plan" using planned_total [OF assms(2)] by blast
  then obtain classes active where p: "planned ro driverName rules results = Some (classes, active)" by (cases plan) blast
  let ?live = "\<lambda>dc. label_key (dc_Labels dc) \<in> set active"
  have sel: "selects partition_selector ''partitionType''" by (simp add: selects_def)
  have live: "?live (erase dc) = ?live dc" for dc by (simp add: erase_def)
  obtain w1 cs w2 where w1: "publish_all api classes w = (None, w1)" and w2: "api_List api partition_selector w1 = (Inr cs, w2)"
    and v: "map_option erase \<circ> view (delete_all api (map dc_Name (filter (\<lambda>dc. \<not> ?live dc) cs)) w2) =
      overwrite (rev classes) (prune ''partitionType'' ?live (view w))"
    using publish_cleanup [where live = ?live and w = w, OF assms(1) sel live planned_protected [OF p assms(2) BuildPartitions_rooted [OF r]]] by blast
  have "SyncDeviceClasses ro api driverName rules results w =
      Some (None, delete_all api (map dc_Name (filter (\<lambda>dc. \<not> ?live dc) cs)) w2)"
    unfolding SyncDeviceClasses_planned [OF p] w1 cleanupStaleDeviceClasses_def by (simp only: w2 prod.case option.case sum.case snd_conv)
  with r p v show ?thesis by (intro exI conjI)
qed

text \<open>
  C1: \<open>SyncDeviceClasses\<close> refines one atomic update of the cluster.  On the partitions of any
  topology model, with an API that keeps its documented contract, it returns without error, and
  then the cluster holds (up to resource versions) the last class published under each name,
  every other object of before except the managed partition classes whose labels spell no active
  key, and nothing else.
\<close>

theorem SyncDeviceClasses_refines:
  assumes "api_laws api view" and "all_orders_ok ro"
  shows "\<exists>results classes active w'. BuildPartitions Q model rules = Some results
    \<and> planned ro driverName rules results = Some (classes, active)
    \<and> SyncDeviceClasses ro api driverName rules results w = Some (None, w')
    \<and> map_option erase \<circ> view w' = overwrite (rev classes)
        (prune ''partitionType'' (\<lambda>dc. label_key (dc_Labels dc) \<in> set active) (view w))"
  by (rule sync_partitions [OF assms])

text \<open>An API server that keeps its objects in a list satisfies the contract.\<close>

definition mem_view :: "DeviceClass list \<Rightarrow> cluster" where
  "mem_view w n = find (\<lambda>dc. dc_Name dc = n) w"

definition mem_list :: "string \<Rightarrow> DeviceClass list \<Rightarrow> DeviceClass list" where
  "mem_list name w = filter (\<lambda>dc. mem_view w (dc_Name dc) = Some dc \<and> managed_with name dc) w"

definition mem_api :: "DeviceClass list dc_api" where
  "mem_api = \<lparr> api_Get = \<lambda>n w. (case mem_view w n of None \<Rightarrow> Inl NotFound | Some dc \<Rightarrow> Inr dc, w),
     api_Create = \<lambda>dc w. (None, dc # w),
     api_Update = \<lambda>dc w. (None, dc # w),
     api_Delete = \<lambda>n w. (None, filter (\<lambda>dc. dc_Name dc \<noteq> n) w),
     api_List = \<lambda>sel w. (Inr (mem_list (if sel = partition_selector then ''partitionType'' else ''grouping'') w), w) \<rparr>"

lemma mem_view_named: "mem_view w n = Some dc \<Longrightarrow> dc_Name dc = n \<and> dc \<in> set w"
  by (induction w) (auto simp: mem_view_def split: if_splits)

lemma mem_view_delete: "mem_view (filter (\<lambda>dc. dc_Name dc \<noteq> n) w) = (mem_view w)(n := None)"
proof
  fix m
  show "mem_view (filter (\<lambda>dc. dc_Name dc \<noteq> n) w) m = ((mem_view w)(n := None)) m"
    by (induction w) (auto simp: mem_view_def)
qed

lemma mem_view_store: "stored (mem_view w) dc (mem_view (dc # w))"
  unfolding stored_def by (rule exI [of _ "dc_ResourceVersion dc"]) (auto simp: mem_view_def fun_eq_iff)

lemma mem_list_set: "set (mem_list name w) = {dc \<in> ran (mem_view w). managed_with name dc}"
  by (auto simp: mem_list_def ran_def dest: mem_view_named)

lemma selectors_differ: "grouping_selector \<noteq> partition_selector"
  by (simp add: grouping_selector_def partition_selector_def lbl_def)

lemma mem_api_laws: "api_laws mem_api mem_view"
  unfolding api_laws_def get_law_def create_law_def update_law_def delete_law_def list_law_def
proof (intro conjI allI impI)
  fix w sel name
  assume "selects sel name"
  then have "name = (if sel = partition_selector then ''partitionType'' else ''grouping'')"
    using selectors_differ by (auto simp: selects_def)
  then show "\<exists>cs. fst (api_List mem_api sel w) = Inr cs \<and> set cs = {dc \<in> ran (mem_view w). managed_with name dc}"
    by (simp add: mem_api_def mem_list_set del: if_split)
qed (simp_all add: mem_api_def mem_view_store mem_view_delete mem_view_named)

definition example_model :: TopologyModel where
  "example_model = NewTopologyModel\<lparr>tm_nodes := [(''node1'', \<lparr> nt_NodeName = ''node1'',
     nt_DevicesByDriver = [(''s1'', example_devices)] \<rparr>)]\<rparr>"

theorem SyncDeviceClasses_refines_witness:
  "\<exists>results classes active w'. BuildPartitions decimal_lib example_model NewTopologyRuleStore = Some results
    \<and> planned (\<lambda>_. insertion_order) CoordinatorDriverName NewTopologyRuleStore results = Some (classes, active)
    \<and> SyncDeviceClasses (\<lambda>_. insertion_order) mem_api CoordinatorDriverName NewTopologyRuleStore results [] = Some (None, w')
    \<and> map_option erase \<circ> mem_view w' = overwrite (rev classes)
        (prune ''partitionType'' (\<lambda>dc. label_key (dc_Labels dc) \<in> set active) (mem_view []))"
  by (rule SyncDeviceClasses_refines [OF mem_api_laws insertion_orders_ok])

section \<open>Grouping classes\<close>

definition grouping_planned :: "(nat \<Rightarrow> range_order) \<Rightarrow> string \<Rightarrow> TopologyRuleStore \<Rightarrow> GroupingResult list \<Rightarrow> DeviceClass list" where
  "grouping_planned ro driverName rules results =
    (let seen = collect_groupings rules results;
         aggregates = foldl (add_grouping_aggregate rules) [] (visit (ro 1) seen)
     in map (instance_class driverName) (visit (ro 0) seen)
       @ map (\<lambda>(name, e). grouping_aggregate_class driverName e) (visit (ro 2) aggregates))"

lemma SyncGroupingDeviceClasses_planned:
  assumes "all_orders_ok ro"
  shows "\<exists>names. set names = dc_Name ` set (grouping_planned ro driverName rules results) \<and>
    (\<forall>w. SyncGroupingDeviceClasses ro api driverName rules results w =
      (case publish_all api (grouping_planned ro driverName rules results) w of (Some e, w1) \<Rightarrow> (Some e, w1)
       | (None, w1) \<Rightarrow> (None, snd (cleanupStaleGroupingDeviceClasses api names w1))))"
proof -
  define seen where "seen = collect_groupings rules results"
  define aggs where "aggs = foldl (add_grouping_aggregate rules) [] (visit (ro 1) seen)"
  define names where "names = map (\<lambda>(key, e). rail_name (ge_representative e)) seen
    @ map (\<lambda>(name, e). sanitizeForName (gi_GroupingName (ge_representative e))) aggs"
  have cls: "grouping_planned ro driverName rules results = map (instance_class driverName) (visit (ro 0) seen)
      @ map (\<lambda>(name, e). grouping_aggregate_class driverName e) (visit (ro 2) aggs)"
    by (simp add: grouping_planned_def seen_def aggs_def Let_def)
  have ok: "set (visit (ro i) xs) = set xs" for i and xs :: "'z list" using assms by (simp add: set_visit all_orders_okD)
  show ?thesis
  proof (intro exI [of _ names] conjI allI)
    show "set names = dc_Name ` set (grouping_planned ro driverName rules results)"
      by (simp add: cls names_def ok image_Un image_image instance_class_def grouping_aggregate_class_def Let_def case_prod_unfold)
    show "SyncGroupingDeviceClasses ro api driverName rules results w =
      (case publish_all api (grouping_planned ro driverName rules results) w of (Some e, w1) \<Rightarrow> (Some e, w1)
       | (None, w1) \<Rightarrow> (None, snd (cleanupStaleGroupingDeviceClasses api names w1)))" for w
      unfolding SyncGroupingDeviceClasses_def Let_def cls publish_all_append seen_def [symmetric] aggs_def [symmetric] names_def [symmetric]
      by (simp split: prod.splits option.splits)
  qed
qed

lemma sync_groupings:
  assumes "api_laws api view" and "all_orders_ok ro"
  shows "\<exists>w'. SyncGroupingDeviceClasses ro api driverName rules results w = (None, w')
    \<and> map_option erase \<circ> view w' = overwrite (rev (grouping_planned ro driverName rules results))
        (prune ''grouping'' (\<lambda>dc. dc_Name dc \<in> dc_Name ` set (grouping_planned ro driverName rules results)) (view w))"
proof -
  define classes where "classes = grouping_planned ro driverName rules results"
  obtain names where nset: "set names = dc_Name ` set classes"
    and sync: "\<And>w. SyncGroupingDeviceClasses ro api driverName rules results w =
      (case publish_all api classes w of (Some e, w1) \<Rightarrow> (Some e, w1)
       | (None, w1) \<Rightarrow> (None, snd (cleanupStaleGroupingDeviceClasses api names w1)))"
    unfolding classes_def using SyncGroupingDeviceClasses_planned [OF assms(2)] by blast
  let ?live = "\<lambda>dc. dc_Name dc \<in> set names"
  have sel: "selects grouping_selector ''grouping''" by (simp add: selects_def)
  have live: "?live (erase dc) = ?live dc" for dc by (simp add: erase_def)
  have safe: "dc \<in> set classes \<Longrightarrow> ?live dc" for dc unfolding nset by (rule imageI)
  obtain w1 cs w2 where w1: "publish_all api classes w = (None, w1)" and w2: "api_List api grouping_selector w1 = (Inr cs, w2)"
    and v: "map_option erase \<circ> view (delete_all api (map dc_Name (filter (\<lambda>dc. \<not> ?live dc) cs)) w2) =
      overwrite (rev classes) (prune ''grouping'' ?live (view w))"
    using publish_cleanup [where live = ?live and w = w, OF assms(1) sel live safe] by blast
  have "SyncGroupingDeviceClasses ro api driverName rules results w =
      (None, delete_all api (map dc_Name (filter (\<lambda>dc. \<not> ?live dc) cs)) w2)"
    unfolding sync w1 cleanupStaleGroupingDeviceClasses_def by (simp only: w2 prod.case option.case sum.case snd_conv)
  then show ?thesis using v unfolding nset classes_def by blast
qed

text \<open>
  C26: \<open>SyncGroupingDeviceClasses\<close> refines one atomic update too: the classes of the grouping
  instances and of their aggregates are written, the last one of a name stands, and the managed
  grouping classes whose name is not among them are removed.
\<close>

theorem SyncGroupingDeviceClasses_refines:
  assumes "api_laws api view" and "all_orders_ok ro"
  shows "\<exists>w'. SyncGroupingDeviceClasses ro api driverName rules results w = (None, w')
    \<and> map_option erase \<circ> view w' = overwrite (rev (grouping_planned ro driverName rules results))
        (prune ''grouping'' (\<lambda>dc. dc_Name dc \<in> dc_Name ` set (grouping_planned ro driverName rules results)) (view w))"
  by (rule sync_groupings [OF assms])

theorem SyncGroupingDeviceClasses_refines_witness:
  "\<exists>w'. SyncGroupingDeviceClasses (\<lambda>_. insertion_order) mem_api CoordinatorDriverName NewTopologyRuleStore [] [] = (None, w')
    \<and> map_option erase \<circ> mem_view w' = overwrite (rev (grouping_planned (\<lambda>_. insertion_order) CoordinatorDriverName NewTopologyRuleStore []))
        (prune ''grouping'' (\<lambda>dc. dc_Name dc \<in> dc_Name ` set (grouping_planned (\<lambda>_. insertion_order) CoordinatorDriverName NewTopologyRuleStore []))
           (mem_view []))"
  by (rule SyncGroupingDeviceClasses_refines [OF mem_api_laws insertion_orders_ok])

end
