(* ===== verification/Claim_Expander.thy ===== *)
theory Claim_Expander
  imports Class_Sync
begin

text \<open>
  \<open>internal/webhook/webhook.go\<close>, first part: the expansion of a ResourceClaim.  A request for a
  partition class is replaced by one request per sub-resource of the class's configuration, with
  constraints for its alignments.  The answers of the Kubernetes API during one review are the
  argument \<open>getClass\<close>; the quantity library is \<open>Q\<close>; the topology model is optional, as in
  \<open>NewClaimExpander\<close>.
\<close>

section \<open>Objects\<close>

abbreviation (input) webhook_driverName :: string where "webhook_driverName \<equiv> ''nodepartition.dra.k8s.io''"

record ExactDeviceRequest =
  ex_DeviceClassName :: string
  ex_Selectors :: "string list"
  ex_AllocationMode :: string
  ex_Count :: int
  ex_AdminAccess :: "bool option"
  ex_Tolerations :: "json list"
  ex_Capacity :: "(string, Quantity) gomap option"

record DeviceRequest =
  dr_Name :: string
  dr_Exactly :: "ExactDeviceRequest option"
  dr_FirstAvailable :: "json list"

record DeviceConstraint =
  dn_Requests :: "string list"
  dn_MatchAttribute :: "string option"
  dn_DistinctAttribute :: "string option"

record DeviceClaimConfiguration =
  cc_Requests :: "string list"
  cc_Opaque :: "OpaqueConfig option"

record ResourceClaim =
  rc_Namespace :: string
  rc_Name :: string
  rc_Annotations :: "(string, string) gomap option"
  rc_Requests :: "DeviceRequest list"
  rc_Constraints :: "DeviceConstraint list"
  rc_Config :: "DeviceClaimConfiguration list"

text \<open>The claim references of containers in a Pod, and the values a patch can carry.\<close>

record ContainerClaim =
  kc_Name :: string
  kc_Request :: string

datatype patch_value =
    VRequests "DeviceRequest list"
  | VConstraints "DeviceConstraint list"
  | VConfig "DeviceClaimConfiguration list"
  | VAnnotations "(string, string) gomap"
  | VAnnotation string
  | VClaims "ContainerClaim list"
  | VJson json

record jsonPatch =
  jp_Op :: string
  jp_Path :: string
  jp_Value :: patch_value

section \<open>The configuration of a class\<close>

definition config_of_entry :: "OpaqueConfig option \<Rightarrow> PartitionConfig option" where
  "config_of_entry cfg = (case cfg of None \<Rightarrow> None
     | Some oc \<Rightarrow>
         if oc_Driver oc \<noteq> webhook_driverName then None
         else case unmarshal_config (oc_Raw oc) of None \<Rightarrow> None
           | Some c \<Rightarrow> if pc_Kind c \<noteq> ''PartitionConfig'' then None else Some c)"

fun first_config :: "OpaqueConfig option list \<Rightarrow> PartitionConfig option" where
  "first_config [] = None"
| "first_config (cfg # cfgs) = (case config_of_entry cfg of Some c \<Rightarrow> Some c | None \<Rightarrow> first_config cfgs)"

definition getPartitionConfig ::
  "(string \<Rightarrow> api_error + DeviceClass) \<Rightarrow> string \<Rightarrow> api_error + PartitionConfig option" where
  "getPartitionConfig getClass className =
    (case getClass className of Inl e \<Rightarrow> Inl e | Inr dc \<Rightarrow> Inr (first_config (dc_Config dc)))"

section \<open>One partition instance\<close>

text \<open>The names of the requests made for one sub-resource; \<open>splitCount\<close> is one.\<close>

definition split_names :: "string \<Rightarrow> string \<Rightarrow> nat \<Rightarrow> string list" where
  "split_names pre sanitized splitCount =
     map (\<lambda>si. if splitCount > 1 then pre @ ''-'' @ sanitized @ ''-'' @ itoa (int si) else pre @ ''-'' @ sanitized)
       [0..<splitCount]"

definition sub_names :: "string \<Rightarrow> SubResourceConfig \<Rightarrow> string list" where
  "sub_names pre sr = split_names pre (sanitizeDeviceClassName (sr_DeviceClass sr)) 1"

definition capacity_requests :: "quantity_lib \<Rightarrow> (string, string) gomap \<Rightarrow> (string, Quantity) gomap" where
  "capacity_requests Q cap = foldl (\<lambda>m (capName, capVal).
     case ParseQuantity Q capVal of Some qty \<Rightarrow> put capName qty m | None \<Rightarrow> m) [] cap"

definition exact_request :: "quantity_lib \<Rightarrow> DeviceRequest \<Rightarrow> SubResourceConfig \<Rightarrow> ExactDeviceRequest" where
  "exact_request Q req sr =
    \<lparr> ex_DeviceClassName = sr_DeviceClass sr,
      ex_Selectors = sr_Selectors sr @ (case dr_Exactly req of Some ex \<Rightarrow> ex_Selectors ex | None \<Rightarrow> []),
      ex_AllocationMode = '''', ex_Count = sr_Count sr, ex_AdminAccess = None, ex_Tolerations = [],
      ex_Capacity = (if sr_Capacity sr = [] then None else Some (capacity_requests Q (sr_Capacity sr))) \<rparr>"

definition sub_requests :: "quantity_lib \<Rightarrow> string \<Rightarrow> DeviceRequest \<Rightarrow> SubResourceConfig \<Rightarrow> DeviceRequest list" where
  "sub_requests Q pre req sr =
     map (\<lambda>name. \<lparr> dr_Name = name, dr_Exactly = Some (exact_request Q req sr), dr_FirstAvailable = [] \<rparr>) (sub_names pre sr)"

definition request_name_map :: "string \<Rightarrow> SubResourceConfig list \<Rightarrow> (string, string list) gomap" where
  "request_name_map pre srs =
     foldl (\<lambda>m sr. foldl (\<lambda>m name. push (sr_DeviceClass sr) name m) m (sub_names pre sr)) [] srs"

definition driver_counts :: "SubResourceConfig list \<Rightarrow> (string, int) gomap" where
  "driver_counts srs = foldl (\<lambda>m sr. put (sr_DeviceClass sr) (sr_Count sr) m) [] srs"

text \<open>The request names that one entry of an alignment stands for.\<close>

definition resolve_request ::
  "string \<Rightarrow> SubResourceConfig list \<Rightarrow> (string, string list) gomap \<Rightarrow> string \<Rightarrow> (string \<times> string list) option" where
  "resolve_request pre srs nameMap reqName =
    (case map_of nameMap reqName of
       Some mapped \<Rightarrow> Some (reqName, mapped)
     | None \<Rightarrow>
         (case find (\<lambda>sr. reqName = sanitizeDeviceClassName (sr_DeviceClass sr)) srs of
            Some sr \<Rightarrow> Some (reqName, [pre @ ''-'' @ sanitizeDeviceClassName (sr_DeviceClass sr)])
          | None \<Rightarrow> None))"

definition match_constraint :: "string \<Rightarrow> string list \<Rightarrow> DeviceConstraint list" where
  "match_constraint attr names =
    (if length names \<ge> 2 then [\<lparr> dn_Requests = names, dn_MatchAttribute = Some attr, dn_DistinctAttribute = None \<rparr>] else [])"

definition pair_requests :: "(string \<times> string list) list \<Rightarrow> nat \<Rightarrow> string list" where
  "pair_requests perDriver idx = concat (map (\<lambda>(driver, names).
     if idx < length names then [names ! idx] else if length names = 1 then [names ! 0] else []) perDriver)"

definition max_split :: "(string \<times> string list) list \<Rightarrow> nat" where
  "max_split perDriver = foldl (\<lambda>m (driver, names). if length names > m then length names else m) 0 perDriver"

definition alignment_constraints ::
  "TopologyModel option \<Rightarrow> string \<Rightarrow> SubResourceConfig list \<Rightarrow> AlignmentConfig \<Rightarrow> DeviceConstraint list" where
  "alignment_constraints model pre srs alignment =
    (if ac_Enforcement alignment = EnforcementPreferred \<and>
        (case model of None \<Rightarrow> True | Some m \<Rightarrow> \<not> IsConstraintSatisfiable m (ac_Attribute alignment) (driver_counts srs))
     then []
     else
       let perDriver = List.map_filter (resolve_request pre srs (request_name_map pre srs)) (ac_Requests alignment);
           maxSplit = max_split perDriver;
           attr = ac_Attribute alignment
       in if maxSplit \<le> 1 then match_constraint attr (concat (map snd perDriver))
          else if Contains attr ''numaNode'' then match_constraint attr (concat (map snd perDriver))
          else concat (map (\<lambda>idx. match_constraint attr (pair_requests perDriver idx)) [0..<maxSplit]))"

definition expandSinglePartition ::
  "quantity_lib \<Rightarrow> TopologyModel option \<Rightarrow> string \<Rightarrow> DeviceRequest \<Rightarrow> PartitionConfig \<Rightarrow>
     DeviceRequest list \<times> DeviceConstraint list" where
  "expandSinglePartition Q model pre req config =
    (concat (map (sub_requests Q pre req) (pc_SubResources config)),
     concat (map (alignment_constraints model pre (pc_SubResources config)) (pc_Alignments config)))"

section \<open>One request\<close>

definition request_count :: "DeviceRequest \<Rightarrow> int" where
  "request_count req = (case dr_Exactly req of Some ex \<Rightarrow> if ex_Count ex > 1 then ex_Count ex else 1 | None \<Rightarrow> 1)"

definition instance_prefix :: "DeviceRequest \<Rightarrow> nat \<Rightarrow> string" where
  "instance_prefix req i = (if request_count req > 1 then dr_Name req @ ''-'' @ itoa (int i) else dr_Name req)"

definition expandRequest ::
  "quantity_lib \<Rightarrow> TopologyModel option \<Rightarrow> DeviceRequest \<Rightarrow> PartitionConfig \<Rightarrow> DeviceRequest list \<times> DeviceConstraint list" where
  "expandRequest Q model req config =
    foldl (\<lambda>(allSubRequests, allConstraints) i.
        let (subRequests, constraints) = expandSinglePartition Q model (instance_prefix req i) req config
        in (allSubRequests @ subRequests, allConstraints @ constraints))
      ([], []) [0..<nat (request_count req)]"

section \<open>A claim\<close>

record expansion =
  xp_requests :: "DeviceRequest list"
  xp_constraints :: "DeviceConstraint list"
  xp_any :: bool
  xp_map :: "(string, string list) gomap"

definition expand_step ::
  "quantity_lib \<Rightarrow> TopologyModel option \<Rightarrow> (string \<Rightarrow> api_error + DeviceClass) \<Rightarrow> expansion \<Rightarrow> DeviceRequest \<Rightarrow> expansion" where
  "expand_step Q model getClass st req =
    (let keep = st\<lparr>xp_requests := xp_requests st @ [req]\<rparr> in
     case dr_Exactly req of None \<Rightarrow> keep
     | Some ex \<Rightarrow>
         (case getPartitionConfig getClass (ex_DeviceClassName ex) of
            Inl e \<Rightarrow> keep
          | Inr None \<Rightarrow> keep
          | Inr (Some config) \<Rightarrow>
              let (subRequests, subConstraints) = expandRequest Q model req config
              in \<lparr> xp_requests = xp_requests st @ subRequests, xp_constraints = xp_constraints st @ subConstraints,
                   xp_any = True, xp_map = put (dr_Name req) (map dr_Name subRequests) (xp_map st) \<rparr>))"

definition expand_requests ::
  "quantity_lib \<Rightarrow> TopologyModel option \<Rightarrow> (string \<Rightarrow> api_error + DeviceClass) \<Rightarrow> DeviceRequest list \<Rightarrow> expansion" where
  "expand_requests Q model getClass reqs =
     foldl (expand_step Q model getClass) \<lparr> xp_requests = [], xp_constraints = [], xp_any = False, xp_map = [] \<rparr> reqs"

definition sriov_vfio :: string where
  \<open>sriov_vfio = ''{"apiVersion":"sriovnetwork.k8snetworkplumbingwg.io/v1alpha1","kind":"VfConfig","driver":"vfio-pci"}''\<close>

definition amd_vfio :: string where
  \<open>amd_vfio = ''{"apiVersion":"gpu.resource.amd.com/v1alpha1","kind":"VfioDeviceConfig"}''\<close>

definition buildVfioConfig :: "string \<Rightarrow> DeviceClaimConfiguration option" where
  "buildVfioConfig driver =
    (let lc = ToLower driver;
         opaque = (\<lambda>raw. Some \<lparr> cc_Requests = [], cc_Opaque = Some \<lparr> oc_Driver = driver, oc_Raw = raw \<rparr> \<rparr>)
     in if Contains lc ''sriov'' \<or> Contains lc ''net'' \<or> Contains lc ''rdma'' then opaque sriov_vfio
        else if Contains lc ''gpu'' \<and> (Contains lc ''amd'' \<or> Contains lc ''1002'') then opaque amd_vfio
        else None)"

definition config_drivers :: "DeviceClaimConfiguration list \<Rightarrow> string list" where
  "config_drivers cfgs = List.map_filter (\<lambda>cfg. map_option oc_Driver (cc_Opaque cfg)) cfgs"

definition vfio_step ::
  "string list \<times> DeviceClaimConfiguration list \<Rightarrow> DeviceRequest \<Rightarrow> string list \<times> DeviceClaimConfiguration list" where
  "vfio_step st sr = (case dr_Exactly sr of None \<Rightarrow> st
     | Some ex \<Rightarrow> let driver = ex_DeviceClassName ex in
         if driver \<in> set (fst st) then st
         else case buildVfioConfig driver of None \<Rightarrow> st
           | Some c \<Rightarrow> (set_add driver (fst st), snd st @ [c]))"

definition vfio_configs :: "DeviceClaimConfiguration list \<Rightarrow> DeviceRequest list \<Rightarrow> DeviceClaimConfiguration list" where
  "vfio_configs existing requests = snd (foldl vfio_step (config_drivers existing, []) requests)"

text \<open>The expansion map as JSON, keys sorted; an empty list of names is \<open>null\<close>.\<close>

definition encode_names :: "(string, string list) gomap \<Rightarrow> json" where
  "encode_names m = JObj (map (\<lambda>k. (k, enc_list JStr (get_list m k))) (sort (keys m)))"

definition marshal_names :: "(string, string list) gomap \<Rightarrow> string" where
  "marshal_names m = Marshal (encode_names m)"

definition expansion_annotation :: string where
  "expansion_annotation = webhook_driverName @ ''/expanded-requests''"

definition patch :: "string \<Rightarrow> string \<Rightarrow> patch_value \<Rightarrow> jsonPatch" where
  "patch op path v = \<lparr> jp_Op = op, jp_Path = path, jp_Value = v \<rparr>"

definition constraint_patches :: "ResourceClaim \<Rightarrow> DeviceConstraint list \<Rightarrow> jsonPatch list" where
  "constraint_patches claim constraints =
    (if constraints = [] then []
     else if rc_Constraints claim = [] then [patch ''add'' ''/spec/devices/constraints'' (VConstraints constraints)]
     else [patch ''replace'' ''/spec/devices/constraints'' (VConstraints (rc_Constraints claim @ constraints))])"

definition config_patches :: "ResourceClaim \<Rightarrow> DeviceClaimConfiguration list \<Rightarrow> jsonPatch list" where
  "config_patches claim vfio =
    (if vfio = [] then []
     else [patch (if rc_Config claim = [] then ''add'' else ''replace'') ''/spec/devices/config'' (VConfig (rc_Config claim @ vfio))])"

definition annotation_patches :: "ResourceClaim \<Rightarrow> (string, string list) gomap \<Rightarrow> jsonPatch list" where
  "annotation_patches claim m =
    (if m = [] then []
     else case rc_Annotations claim of
         None \<Rightarrow> [patch ''add'' ''/metadata/annotations'' (VAnnotations [(expansion_annotation, marshal_names m)])]
       | Some _ \<Rightarrow> [patch ''add'' (''/metadata/annotations/'' @ escapeJSONPointer expansion_annotation)
           (VAnnotation (marshal_names m))])"

definition expandClaim ::
  "quantity_lib \<Rightarrow> TopologyModel option \<Rightarrow> (string \<Rightarrow> api_error + DeviceClass) \<Rightarrow> ResourceClaim \<Rightarrow> jsonPatch list" where
  "expandClaim Q model getClass claim =
    (if rc_Requests claim = [] then []
     else let x = expand_requests Q model getClass (rc_Requests claim) in
       if \<not> xp_any x then []
       else patch ''replace'' ''/spec/devices/requests'' (VRequests (xp_requests x))
         # constraint_patches claim (xp_constraints x)
         @ config_patches claim (vfio_configs (rc_Config claim) (xp_requests x))
         @ annotation_patches claim (xp_map x))"


section \<open>Expansion of one request\<close>

lemma sub_names_single [simp]: "sub_names pre sr = [pre @ ''-'' @ sanitizeDeviceClassName (sr_DeviceClass sr)]"
  by (simp add: sub_names_def split_names_def)

definition instance_names :: "DeviceRequest \<Rightarrow> PartitionConfig \<Rightarrow> nat \<Rightarrow> string list" where
  "instance_names req config i =
     map (\<lambda>sr. instance_prefix req i @ ''-'' @ sanitizeDeviceClassName (sr_DeviceClass sr)) (pc_SubResources config)"

definition instance_requests :: "quantity_lib \<Rightarrow> DeviceRequest \<Rightarrow> PartitionConfig \<Rightarrow> nat \<Rightarrow> DeviceRequest list" where
  "instance_requests Q req config i = map (\<lambda>sr.
     \<lparr> dr_Name = instance_prefix req i @ ''-'' @ sanitizeDeviceClassName (sr_DeviceClass sr),
       dr_Exactly = Some (exact_request Q req sr), dr_FirstAvailable = [] \<rparr>) (pc_SubResources config)"

lemma expandRequest_eq:
  "expandRequest Q model req config =
    (concat (map (instance_requests Q req config) [0..<nat (request_count req)]),
     concat (map (\<lambda>i. snd (expandSinglePartition Q model (instance_prefix req i) req config)) [0..<nat (request_count req)]))"
proof -
  have "concat (map (sub_requests Q pre req) srs) = map (\<lambda>sr.
      \<lparr> dr_Name = pre @ ''-'' @ sanitizeDeviceClassName (sr_DeviceClass sr),
        dr_Exactly = Some (exact_request Q req sr), dr_FirstAvailable = [] \<rparr>) srs" for pre srs
    by (induction srs) (simp_all add: sub_requests_def)
  then have fst_eq: "fst (expandSinglePartition Q model (instance_prefix req i) req config) = instance_requests Q req config i" for i
    by (simp add: expandSinglePartition_def instance_requests_def)
  have "foldl (\<lambda>(a, c) i. let (s, k) = expandSinglePartition Q model (instance_prefix req i) req config in (a @ s, c @ k)) (a, c) is =
      (a @ concat (map (instance_requests Q req config) is),
       c @ concat (map (\<lambda>i. snd (expandSinglePartition Q model (instance_prefix req i) req config)) is))" for a c "is"
    by (induction "is" arbitrary: a c) (simp_all add: case_prod_unfold Let_def fst_eq)
  then show ?thesis by (simp add: expandRequest_def)
qed

lemma instance_requests_names: "map dr_Name (instance_requests Q req config i) = instance_names req config i"
  by (simp add: instance_requests_def instance_names_def)

text \<open>The names an alignment is resolved to are names of the same instance.\<close>

lemma request_name_map_names:
  "map_of (request_name_map pre srs) c = Some names \<Longrightarrow>
    set names \<subseteq> (\<lambda>sr. pre @ ''-'' @ sanitizeDeviceClassName (sr_DeviceClass sr)) ` set srs"
proof (induction srs arbitrary: names rule: rev_induct)
  case (snoc sr srs)
  have step: "request_name_map pre (srs @ [sr]) =
      push (sr_DeviceClass sr) (pre @ ''-'' @ sanitizeDeviceClassName (sr_DeviceClass sr)) (request_name_map pre srs)"
    by (simp add: request_name_map_def)
  show ?case
  proof (cases "c = sr_DeviceClass sr")
    case True
    with snoc.prems have "names = get_list (request_name_map pre srs) c @ [pre @ ''-'' @ sanitizeDeviceClassName (sr_DeviceClass sr)]"
      by (simp add: step push_def)
    with snoc.IH show ?thesis by (cases "map_of (request_name_map pre srs) c") (auto simp: get_or_def)
  next
    case False
    with snoc.prems have "map_of (request_name_map pre srs) c = Some names" by (simp add: step push_def)
    with snoc.IH show ?thesis by auto
  qed
qed (simp add: request_name_map_def)

lemma resolve_request_names:
  assumes "resolve_request pre srs (request_name_map pre srs) r = Some (d, names)"
  shows "set names \<subseteq> (\<lambda>sr. pre @ ''-'' @ sanitizeDeviceClassName (sr_DeviceClass sr)) ` set srs"
proof (cases "map_of (request_name_map pre srs) r")
  case None
  then obtain sr where sr: "find (\<lambda>sr. r = sanitizeDeviceClassName (sr_DeviceClass sr)) srs = Some sr"
    and names: "names = [pre @ ''-'' @ sanitizeDeviceClassName (sr_DeviceClass sr)]"
    using assms by (auto simp: resolve_request_def split: option.splits)
  from sr have "sr \<in> set srs" by (auto simp: find_Some_iff)
  with names show ?thesis by simp
next
  case (Some mapped)
  with assms have "names = mapped" by (simp add: resolve_request_def)
  with request_name_map_names [OF Some] show ?thesis by simp
qed

lemma match_constraint_mem:
  "cn \<in> set (match_constraint attr names) \<Longrightarrow> dn_Requests cn = names \<and> 2 \<le> length names \<and> dn_MatchAttribute cn = Some attr"
  by (auto simp: match_constraint_def split: if_splits)

lemma alignment_constraint_names:
  assumes "cn \<in> set (alignment_constraints model pre srs alignment)"
  shows "2 \<le> length (dn_Requests cn) \<and> dn_MatchAttribute cn = Some (ac_Attribute alignment) \<and>
    set (dn_Requests cn) \<subseteq> (\<lambda>sr. pre @ ''-'' @ sanitizeDeviceClassName (sr_DeviceClass sr)) ` set srs"
proof -
  define perDriver where "perDriver = List.map_filter (resolve_request pre srs (request_name_map pre srs)) (ac_Requests alignment)"
  let ?N = "(\<lambda>sr. pre @ ''-'' @ sanitizeDeviceClassName (sr_DeviceClass sr)) ` set srs"
  have sub: "set names \<subseteq> ?N" if "(d, names) \<in> set perDriver" for d names
    using that resolve_request_names unfolding perDriver_def map_filter_def by fastforce
  then have all: "set (concat (map snd perDriver)) \<subseteq> ?N" by fastforce
  have pair: "set (pair_requests perDriver idx) \<subseteq> ?N" for idx
  proof
    fix x
    assume "x \<in> set (pair_requests perDriver idx)"
    then obtain d names where "(d, names) \<in> set perDriver" "x \<in> set names"
      by (auto simp: pair_requests_def split: if_splits) (metis lessI nth_mem)
    with sub show "x \<in> ?N" by blast
  qed
  from assms obtain names where "cn \<in> set (match_constraint (ac_Attribute alignment) names)" "set names \<subseteq> ?N"
    using all pair unfolding alignment_constraints_def Let_def perDriver_def [symmetric] by (auto split: if_splits)
  then show ?thesis using match_constraint_mem by metis
qed


text \<open>The devices of a class that a list of requests asks for.\<close>

definition asked :: "DeviceRequest list \<Rightarrow> string \<Rightarrow> int" where
  "asked reqs c = sum_list (map (\<lambda>r. case dr_Exactly r of Some ex \<Rightarrow> if ex_DeviceClassName ex = c then ex_Count ex else 0 | None \<Rightarrow> 0) reqs)"

definition per_instance :: "PartitionConfig \<Rightarrow> string \<Rightarrow> int" where
  "per_instance config c = sum_list (map (\<lambda>sr. if sr_DeviceClass sr = c then sr_Count sr else 0) (pc_SubResources config))"

lemma exact_request_sel [simp]:
  "ex_DeviceClassName (exact_request Q req sr) = sr_DeviceClass sr" "ex_Count (exact_request Q req sr) = sr_Count sr"
  by (simp_all add: exact_request_def)

lemma asked_instance: "asked (instance_requests Q req config i) c = per_instance config c"
  by (simp add: asked_def per_instance_def instance_requests_def comp_def cong: if_cong)

lemma expandRequest_names:
  "map dr_Name (fst (expandRequest Q model req config)) = concat (map (instance_names req config) [0..<nat (request_count req)])"
proof -
  have "map dr_Name (concat (map (instance_requests Q req config) is)) = concat (map (instance_names req config) is)" for "is"
    by (induction "is") (simp_all add: instance_requests_names)
  then show ?thesis by (simp add: expandRequest_eq)
qed

lemma asked_append: "asked (xs @ ys) c = asked xs c + asked ys c"
  by (simp add: asked_def)

lemma asked_concat: "asked (concat (map (instance_requests Q req config) is)) c = int (length is) * per_instance config c"
  by (induction "is") (simp_all add: asked_append asked_instance algebra_simps, simp add: asked_def)

text \<open>
  C13: \<open>expandRequest\<close> asks for what the partition stands for: a request for \<open>n\<close> partitions (one
  when no count above one is given) becomes \<open>n\<close> sets of sub-requests which ask, for every device
  class, for \<open>n\<close> times the count of one partition; every constraint ties at least two sub-requests
  of one and the same set, by an attribute of the configuration.
\<close>

theorem expandRequest_spec:
  "case expandRequest Q model req config of (subs, cons) \<Rightarrow>
     request_count req = (case dr_Exactly req of Some ex \<Rightarrow> max 1 (ex_Count ex) | None \<Rightarrow> 1)
     \<and> map dr_Name subs = concat (map (instance_names req config) [0..<nat (request_count req)])
     \<and> (\<forall>c. asked subs c = request_count req * per_instance config c)
     \<and> list_all (\<lambda>cn. 2 \<le> length (dn_Requests cn)
          \<and> (\<exists>i < nat (request_count req). set (dn_Requests cn) \<subseteq> set (instance_names req config i))
          \<and> (\<exists>a \<in> set (pc_Alignments config). dn_MatchAttribute cn = Some (ac_Attribute a))) cons"
proof -
  have pos: "request_count req > 0" by (simp add: request_count_def split: option.splits)
  have cnt: "request_count req = (case dr_Exactly req of Some ex \<Rightarrow> max 1 (ex_Count ex) | None \<Rightarrow> 1)"
    by (simp add: request_count_def split: option.splits)
  have "2 \<le> length (dn_Requests cn) \<and> set (dn_Requests cn) \<subseteq> set (instance_names req config i)
      \<and> (\<exists>a \<in> set (pc_Alignments config). dn_MatchAttribute cn = Some (ac_Attribute a))"
    if cn: "cn \<in> set (snd (expandSinglePartition Q model (instance_prefix req i) req config))" for cn i
  proof -
    from cn obtain a where a: "a \<in> set (pc_Alignments config)"
      "cn \<in> set (alignment_constraints model (instance_prefix req i) (pc_SubResources config) a)"
      by (auto simp: expandSinglePartition_def)
    from alignment_constraint_names [OF a(2)] a(1) show ?thesis by (auto simp: instance_names_def)
  qed
  then have "case expandRequest Q model req config of (subs, cons) \<Rightarrow>
      map dr_Name subs = concat (map (instance_names req config) [0..<nat (request_count req)])
      \<and> (\<forall>c. asked subs c = request_count req * per_instance config c)
      \<and> (\<forall>cn \<in> set cons. 2 \<le> length (dn_Requests cn)
          \<and> (\<exists>i < nat (request_count req). set (dn_Requests cn) \<subseteq> set (instance_names req config i))
          \<and> (\<exists>a \<in> set (pc_Alignments config). dn_MatchAttribute cn = Some (ac_Attribute a)))"
    using pos expandRequest_names [of Q model req config] by (fastforce simp: expandRequest_eq asked_concat)
  with cnt show ?thesis by (simp add: case_prod_unfold list_all_iff)
qed

lemma itoa_dash_inj:
  assumes "itoa (int i) @ ''-'' @ s = itoa (int j) @ ''-'' @ t"
  shows "i = j \<and> s = t"
proof -
  have nodash: "CHR ''-'' \<notin> set (itoa (int n))" for n by (simp add: itoa_def dash_notin_show_nat)
  have cut: "takeWhile (\<lambda>c. c \<noteq> CHR ''-'') (itoa (int n) @ ''-'' @ u) = itoa (int n)" for n u
    using nodash [of n] by (subst takeWhile_append2) auto
  from assms have "itoa (int i) = itoa (int j)" by (metis cut)
  with assms show ?thesis by simp
qed

text \<open>
  The sub-requests of one partition request have distinct names as soon as the sanitised names
  of the sub-resource classes are distinct, for any number of instances.
\<close>

theorem expandRequest_distinct_names:
  assumes "distinct (map (sanitizeDeviceClassName \<circ> sr_DeviceClass) (pc_SubResources config))"
  shows "distinct (map dr_Name (fst (expandRequest Q model req config)))"
proof -
  let ?n = "nat (request_count req)"
  have one: "distinct (instance_names req config i)" for i
    using assms by (auto simp: instance_names_def distinct_map inj_on_def)
  have disj: "i = j" if "i < ?n" "j < ?n" "x \<in> set (instance_names req config i)" "x \<in> set (instance_names req config j)" for i j x
  proof (cases "request_count req > 1")
    case True
    with that(3,4) obtain s t where "itoa (int i) @ ''-'' @ s = itoa (int j) @ ''-'' @ t"
      by (auto simp: instance_names_def instance_prefix_def)
    then show ?thesis using itoa_dash_inj by blast
  next
    case False
    with that(1,2) show ?thesis by simp
  qed
  have "distinct (concat (map (instance_names req config) is))" if "distinct is" "set is \<subseteq> {..<?n}" for "is"
    using that
  proof (induction "is")
    case (Cons i "is")
    then have "set (instance_names req config i) \<inter> set (concat (map (instance_names req config) is)) = {}"
      using disj by fastforce
    with Cons one show ?case by simp
  qed simp
  from this [of "[0..<?n]"] show ?thesis unfolding expandRequest_names by force
qed


definition example_request :: "string \<Rightarrow> string \<Rightarrow> int \<Rightarrow> DeviceRequest" where
  "example_request name cls n = \<lparr> dr_Name = name, dr_Exactly = Some \<lparr> ex_DeviceClassName = cls, ex_Selectors = [],
     ex_AllocationMode = '''', ex_Count = n, ex_AdminAccess = None, ex_Tolerations = [], ex_Capacity = None \<rparr>,
     dr_FirstAvailable = [] \<rparr>"

definition example_sub :: "string \<Rightarrow> int \<Rightarrow> SubResourceConfig" where
  "example_sub cls n = \<lparr> sr_DeviceClass = cls, sr_Count = n, sr_Capacity = [], sr_Selectors = [], sr_PartitionMode = '''' \<rparr>"

definition example_config :: PartitionConfig where
  "example_config = \<lparr> pc_Kind = ''PartitionConfig'', pc_SubResources = [example_sub ''gpu.nvidia.com'' 2, example_sub ''net'' 1],
     pc_Alignments = [\<lparr> ac_Attribute = ''numaNode'', ac_Requests = [''gpu.nvidia.com'', ''net''], ac_Enforcement = ''required'' \<rparr>] \<rparr>"

theorem expandRequest_distinct_names_witness:
  "distinct (map dr_Name (fst (expandRequest decimal_lib None (example_request ''r'' ''half'' 2) example_config)))"
  by (rule expandRequest_distinct_names) code_simp

section \<open>Expansion of a claim\<close>

definition partition_config :: "(string \<Rightarrow> api_error + DeviceClass) \<Rightarrow> DeviceRequest \<Rightarrow> PartitionConfig option" where
  "partition_config getClass req = (case dr_Exactly req of None \<Rightarrow> None
     | Some ex \<Rightarrow> (case getPartitionConfig getClass (ex_DeviceClassName ex) of Inr (Some c) \<Rightarrow> Some c | _ \<Rightarrow> None))"

definition expand_one ::
  "quantity_lib \<Rightarrow> TopologyModel option \<Rightarrow> (string \<Rightarrow> api_error + DeviceClass) \<Rightarrow> DeviceRequest \<Rightarrow> DeviceRequest list \<times> DeviceConstraint list" where
  "expand_one Q model getClass req = (case partition_config getClass req of None \<Rightarrow> ([req], []) | Some c \<Rightarrow> expandRequest Q model req c)"

lemma expand_step_eq:
  "expand_step Q model getClass st req =
    (case partition_config getClass req of
       None \<Rightarrow> st\<lparr>xp_requests := xp_requests st @ [req]\<rparr>
     | Some c \<Rightarrow> \<lparr> xp_requests = xp_requests st @ fst (expandRequest Q model req c),
         xp_constraints = xp_constraints st @ snd (expandRequest Q model req c), xp_any = True,
         xp_map = put (dr_Name req) (map dr_Name (fst (expandRequest Q model req c))) (xp_map st) \<rparr>)"
  by (simp add: expand_step_def partition_config_def Let_def case_prod_unfold split: option.splits sum.splits)

definition expansion_of ::
  "quantity_lib \<Rightarrow> TopologyModel option \<Rightarrow> (string \<Rightarrow> api_error + DeviceClass) \<Rightarrow> DeviceRequest list \<Rightarrow> (string, string list) gomap" where
  "expansion_of Q model getClass reqs = foldl (\<lambda>m req. case partition_config getClass req of None \<Rightarrow> m
     | Some c \<Rightarrow> put (dr_Name req) (map dr_Name (fst (expandRequest Q model req c))) m) [] reqs"

lemma expand_requests_eq:
  "expand_requests Q model getClass reqs =
    \<lparr> xp_requests = concat (map (fst \<circ> expand_one Q model getClass) reqs),
      xp_constraints = concat (map (snd \<circ> expand_one Q model getClass) reqs),
      xp_any = list_ex (\<lambda>req. partition_config getClass req \<noteq> None) reqs,
      xp_map = expansion_of Q model getClass reqs \<rparr>"
  unfolding expand_requests_def
proof (induction reqs rule: rev_induct)
  case (snoc req reqs)
  then show ?case
    by (simp add: expand_step_eq expand_one_def expansion_of_def split: option.splits)
qed (simp add: expansion_of_def)

lemma expansion_of_Nil:
  "expansion_of Q model getClass reqs = [] \<longleftrightarrow> \<not> list_ex (\<lambda>req. partition_config getClass req \<noteq> None) reqs"
  by (induction reqs rule: rev_induct) (auto simp: expansion_of_def split: option.splits)

lemma wf_expansion_of: "wf_map (expansion_of Q model getClass reqs)"
  by (induction reqs rule: rev_induct) (auto simp: expansion_of_def split: option.splits)

text \<open>JSON Patch (RFC 6902) on the fields the webhook touches: \<open>replace\<close> needs its target, a member
  of the annotations needs the annotations; a field without a value is absent from the object.\<close>

definition set_field :: "string \<Rightarrow> bool \<Rightarrow> 'a \<Rightarrow> 'a option" where
  "set_field op present v = (if op = ''add'' \<or> op = ''replace'' \<and> present then Some v else None)"

definition apply_patch :: "ResourceClaim \<Rightarrow> jsonPatch \<Rightarrow> ResourceClaim option" where
  "apply_patch claim p = (case jp_Value p of
      VRequests rs \<Rightarrow> if jp_Path p = ''/spec/devices/requests''
        then set_field (jp_Op p) (rc_Requests claim \<noteq> []) (claim\<lparr>rc_Requests := rs\<rparr>) else None
    | VConstraints cs \<Rightarrow> if jp_Path p = ''/spec/devices/constraints''
        then set_field (jp_Op p) (rc_Constraints claim \<noteq> []) (claim\<lparr>rc_Constraints := cs\<rparr>) else None
    | VConfig cs \<Rightarrow> if jp_Path p = ''/spec/devices/config''
        then set_field (jp_Op p) (rc_Config claim \<noteq> []) (claim\<lparr>rc_Config := cs\<rparr>) else None
    | VAnnotations m \<Rightarrow> if jp_Path p = ''/metadata/annotations''
        then set_field (jp_Op p) (rc_Annotations claim \<noteq> None) (claim\<lparr>rc_Annotations := Some m\<rparr>) else None
    | VAnnotation a \<Rightarrow>
        (let root = ''/metadata/annotations/'';
             key = unescapeJSONPointer (drop (length root) (jp_Path p))
         in case rc_Annotations claim of None \<Rightarrow> None
          | Some m \<Rightarrow> if take (length root) (jp_Path p) = root
              then set_field (jp_Op p) (has_key m key) (claim\<lparr>rc_Annotations := Some (put key a m)\<rparr>) else None)
    | _ \<Rightarrow> None)"

definition expanded ::
  "quantity_lib \<Rightarrow> TopologyModel option \<Rightarrow> (string \<Rightarrow> api_error + DeviceClass) \<Rightarrow> ResourceClaim \<Rightarrow> ResourceClaim" where
  "expanded Q model getClass claim =
    (let reqs = rc_Requests claim; new = concat (map (fst \<circ> expand_one Q model getClass) reqs) in
     if list_ex (\<lambda>req. partition_config getClass req \<noteq> None) reqs
     then claim\<lparr>rc_Requests := new,
       rc_Constraints := rc_Constraints claim @ concat (map (snd \<circ> expand_one Q model getClass) reqs),
       rc_Config := rc_Config claim @ vfio_configs (rc_Config claim) new,
       rc_Annotations := Some (put expansion_annotation (marshal_names (expansion_of Q model getClass reqs))
         (case rc_Annotations claim of None \<Rightarrow> [] | Some m \<Rightarrow> m))\<rparr>
     else claim)"

lemma apply_constraint_patches:
  "fold_opt apply_patch claim (constraint_patches claim0 cs) = Some (claim\<lparr>rc_Constraints := rc_Constraints claim @ cs\<rparr>)"
  if "rc_Constraints claim0 = rc_Constraints claim"
  using that by (simp add: constraint_patches_def apply_patch_def patch_def set_field_def)

lemma apply_config_patches:
  "fold_opt apply_patch claim (config_patches claim0 cs) = Some (claim\<lparr>rc_Config := rc_Config claim @ cs\<rparr>)"
  if "rc_Config claim0 = rc_Config claim"
  using that by (simp add: config_patches_def apply_patch_def patch_def set_field_def)

lemma put_Nil: "put k v [] = [(k, v)]"
  by (simp add: put_def)

lemma unescape_escape: "unescapeJSONPointer (escapeJSONPointer s) = s"
  unfolding escapeJSONPointer_bytes by (induction s) (auto simp: unescape_other)

lemma apply_annotation_patches:
  "fold_opt apply_patch claim (annotation_patches claim0 m) =
    Some (claim\<lparr>rc_Annotations := Some (put expansion_annotation (marshal_names m)
      (case rc_Annotations claim of None \<Rightarrow> [] | Some m \<Rightarrow> m))\<rparr>)"
  if "rc_Annotations claim0 = rc_Annotations claim" and "m \<noteq> []"
  using that by (simp add: annotation_patches_def apply_patch_def patch_def set_field_def put_Nil unescape_escape Let_def split: option.splits)


text \<open>
  C6: the patches of \<open>expandClaim\<close> always apply, in order, to the claim they were made for, and
  they give the expanded claim: requests of partition classes are replaced in place by their
  sub-requests and all others kept, the constraints and configurations of the user are kept with
  the new ones behind them, and the expansion is recorded in the annotation.  A claim without a
  partition request is not touched.
\<close>

theorem expandClaim_applies:
  "fold_opt apply_patch claim (expandClaim Q model getClass claim) = Some (expanded Q model getClass claim)"
proof (cases "list_ex (\<lambda>req. partition_config getClass req \<noteq> None) (rc_Requests claim)")
  case False
  then show ?thesis by (simp add: expandClaim_def expand_requests_eq expanded_def Let_def)
next
  case True
  define x where "x = expand_requests Q model getClass (rc_Requests claim)"
  define c1 where "c1 = claim\<lparr>rc_Requests := xp_requests x\<rparr>"
  define c2 where "c2 = c1\<lparr>rc_Constraints := rc_Constraints claim @ xp_constraints x\<rparr>"
  define c3 where "c3 = c2\<lparr>rc_Config := rc_Config claim @ vfio_configs (rc_Config claim) (xp_requests x)\<rparr>"
  have ne: "rc_Requests claim \<noteq> []" using True by auto
  have any: "xp_any x" and map_ne: "xp_map x \<noteq> []"
    using True expansion_of_Nil [of Q model getClass "rc_Requests claim"] by (simp_all add: x_def expand_requests_eq)
  have p1: "fold_opt apply_patch claim (patch ''replace'' ''/spec/devices/requests'' (VRequests (xp_requests x)) # ps) =
      fold_opt apply_patch c1 ps" for ps
    using ne by (simp add: apply_patch_def patch_def set_field_def c1_def)
  have p2: "fold_opt apply_patch c1 (constraint_patches claim (xp_constraints x)) = Some c2"
    using apply_constraint_patches [of claim c1 "xp_constraints x"] by (simp add: c1_def c2_def)
  have p3: "fold_opt apply_patch c2 (config_patches claim (vfio_configs (rc_Config claim) (xp_requests x))) = Some c3"
    using apply_config_patches [of claim c2] by (simp add: c1_def c2_def c3_def)
  have p4: "fold_opt apply_patch c3 (annotation_patches claim (xp_map x)) = Some (expanded Q model getClass claim)"
    using apply_annotation_patches [of claim c3 "xp_map x"] map_ne True
    by (simp add: c1_def c2_def c3_def expanded_def x_def expand_requests_eq Let_def)
  show ?thesis
    unfolding expandClaim_def Let_def x_def [symmetric] if_not_P [OF ne] using any
    by (simp add: p1 p2 p3 p4 del: fold_opt_simps)
qed

text \<open>
  C23: every constraint that the expansion adds names only requests of the expanded claim, ties at
  least two of them, and the annotation maps each expanded request to requests of the expanded
  claim.
\<close>

theorem expansion_closed:
  fixes Q model getClass reqs
  defines "x \<equiv> expand_requests Q model getClass reqs"
  shows "list_all (\<lambda>cn. 2 \<le> length (dn_Requests cn) \<and> set (dn_Requests cn) \<subseteq> dr_Name ` set (xp_requests x)) (xp_constraints x)
    \<and> list_all (\<lambda>(name, names). name \<in> dr_Name ` set reqs \<and> set names \<subseteq> dr_Name ` set (xp_requests x)) (xp_map x)"
proof
  show "list_all (\<lambda>cn. 2 \<le> length (dn_Requests cn) \<and> set (dn_Requests cn) \<subseteq> dr_Name ` set (xp_requests x)) (xp_constraints x)"
    unfolding list_all_iff
  proof
    fix cn
    assume "cn \<in> set (xp_constraints x)"
    then obtain req where req: "req \<in> set reqs" "cn \<in> set (snd (expand_one Q model getClass req))"
      by (auto simp: x_def expand_requests_eq)
    then obtain c where c: "partition_config getClass req = Some c" "cn \<in> set (snd (expandRequest Q model req c))"
      by (auto simp: expand_one_def split: option.splits)
    then obtain i a where i: "i < nat (request_count req)"
      and a: "cn \<in> set (alignment_constraints model (instance_prefix req i) (pc_SubResources c) a)"
      by (auto simp: expandRequest_eq expandSinglePartition_def)
    note names = alignment_constraint_names [OF a]
    then have "set (dn_Requests cn) \<subseteq> set (instance_names req c i)" by (auto simp: instance_names_def)
    also have "\<dots> \<subseteq> set (map dr_Name (fst (expandRequest Q model req c)))" using i by (auto simp: expandRequest_names)
    also have "\<dots> \<subseteq> dr_Name ` set (xp_requests x)" using req(1) c(1) by (force simp: x_def expand_requests_eq expand_one_def)
    finally show "2 \<le> length (dn_Requests cn) \<and> set (dn_Requests cn) \<subseteq> dr_Name ` set (xp_requests x)" using names by simp
  qed
  have "list_all (\<lambda>(name, names). name \<in> dr_Name ` set reqs \<and>
      set names \<subseteq> dr_Name ` (\<Union>req \<in> set reqs. set (fst (expand_one Q model getClass req)))) (expansion_of Q model getClass reqs)"
  proof (induction reqs rule: rev_induct)
    case (snoc req reqs)
    let ?m = "expansion_of Q model getClass reqs"
    have old: "list_all (\<lambda>(name, names). name \<in> dr_Name ` set (reqs @ [req]) \<and>
        set names \<subseteq> dr_Name ` (\<Union>r \<in> set (reqs @ [req]). set (fst (expand_one Q model getClass r)))) ?m"
      using snoc by (force simp: list_all_iff)
    show ?case
    proof (cases "partition_config getClass req")
      case None
      then have "expansion_of Q model getClass (reqs @ [req]) = ?m" by (simp add: expansion_of_def)
      with old show ?thesis by simp
    next
      case (Some c)
      then have "expansion_of Q model getClass (reqs @ [req]) = put (dr_Name req) (map dr_Name (fst (expandRequest Q model req c))) ?m"
        by (simp add: expansion_of_def)
      moreover have "(k, v) \<in> set (put k' v' m) \<Longrightarrow> (k, v) \<in> set m \<or> (k, v) = (k', v')" for k v k' v' and m :: "(string, string list) gomap"
        by (induction m) (auto simp: put_def split: if_splits)
      ultimately show ?thesis using old Some by (fastforce simp: list_all_iff expand_one_def)
    qed
  qed (simp add: expansion_of_def)
  then show "list_all (\<lambda>(name, names). name \<in> dr_Name ` set reqs \<and> set names \<subseteq> dr_Name ` set (xp_requests x)) (xp_map x)"
    by (simp add: x_def expand_requests_eq image_UN)
qed

definition is_partition_class :: "(string \<Rightarrow> api_error + DeviceClass) \<Rightarrow> string \<Rightarrow> bool" where
  "is_partition_class getClass cls = (case getPartitionConfig getClass cls of Inr (Some c) \<Rightarrow> True | _ \<Rightarrow> False)"

definition flat_configs :: "(string \<Rightarrow> api_error + DeviceClass) \<Rightarrow> DeviceRequest list \<Rightarrow> bool" where
  "flat_configs getClass reqs = list_all (\<lambda>req. case partition_config getClass req of None \<Rightarrow> True
     | Some c \<Rightarrow> list_all (\<lambda>sr. \<not> is_partition_class getClass (sr_DeviceClass sr)) (pc_SubResources c)) reqs"

lemma expand_one_flat:
  assumes "flat_configs getClass reqs" and "req \<in> set reqs" and "r \<in> set (fst (expand_one Q model getClass req))"
  shows "partition_config getClass r = None"
proof (cases "partition_config getClass req")
  case None
  with assms(3) show ?thesis by (simp add: expand_one_def)
next
  case (Some c)
  with assms(3) obtain i sr where sr: "sr \<in> set (pc_SubResources c)"
    "r = \<lparr> dr_Name = instance_prefix req i @ ''-'' @ sanitizeDeviceClassName (sr_DeviceClass sr),
       dr_Exactly = Some (exact_request Q req sr), dr_FirstAvailable = [] \<rparr>"
    by (auto simp: expand_one_def expandRequest_eq instance_requests_def)
  from assms(1,2) Some sr(1) have "\<not> is_partition_class getClass (sr_DeviceClass sr)"
    by (auto simp: flat_configs_def list_all_iff split: option.splits)
  then show ?thesis using sr(2) by (simp add: partition_config_def is_partition_class_def split: sum.splits option.splits)
qed


definition example_class :: DeviceClass where
  "example_class = buildDeviceClassFromCache CoordinatorDriverName ''p'' PartitionNUMA (example_numa ''a'' 0 [''g0'']) example_config '''' 1"

definition example_getClass :: "string \<Rightarrow> api_error + DeviceClass" where
  "example_getClass name = (if name = ''half'' then Inr example_class else Inl NotFound)"

definition example_claim :: ResourceClaim where
  "example_claim = \<lparr> rc_Namespace = ''ns'', rc_Name = ''c'', rc_Annotations = None,
     rc_Requests = [example_request ''r'' ''half'' 2, example_request ''s'' ''other'' 1],
     rc_Constraints = [\<lparr> dn_Requests = [''r'', ''s''], dn_MatchAttribute = Some ''zone'', dn_DistinctAttribute = None \<rparr>],
     rc_Config = [] \<rparr>"

lemma example_partition: "partition_config example_getClass (example_request ''r'' ''half'' 2) = Some example_config"
  by code_simp


text \<open>
  The constraints of the user are kept as they are: one that names a partition request names no
  request of the expanded claim.
\<close>

theorem user_constraint_dangles:
  "map dr_Name (rc_Requests (expanded decimal_lib None example_getClass example_claim)) =
     [''r-0-gpu-nvidia-com'', ''r-0-net'', ''r-1-gpu-nvidia-com'', ''r-1-net'', ''s'']
   \<and> hd (rc_Constraints (expanded decimal_lib None example_getClass example_claim)) =
     \<lparr> dn_Requests = [''r'', ''s''], dn_MatchAttribute = Some ''zone'', dn_DistinctAttribute = None \<rparr>"
  by code_simp

section \<open>Controller and webhook\<close>

text \<open>
  The webhook finds the configuration that the controller put into a class: for a class built
  with the default driver name and a configuration of kind \<open>PartitionConfig\<close>, as all builders
  make, \<open>getPartitionConfig\<close> returns this configuration, up to the order of the capacity maps.
  With any other driver name it returns none, so nothing is ever expanded.
\<close>

theorem webhook_reads_controller_class:
  assumes "wf_config config" and "pc_Kind config = ''PartitionConfig''"
    and "getClass name = Inr (buildDeviceClassFromCache driverName profile partType rep config coupling n)"
  shows "getPartitionConfig getClass name = Inr (if driverName = CoordinatorDriverName then Some (canonical config) else None)"
proof -
  have "pc_Kind (canonical config) = ''PartitionConfig''" using assms(2) by (simp add: canonical_def)
  moreover have "dc_Config (buildDeviceClassFromCache driverName profile partType rep config coupling n) =
      [Some \<lparr> oc_Driver = driverName, oc_Raw = marshal_config config \<rparr>]"
    by (simp add: buildDeviceClassFromCache_def Let_def)
  ultimately show ?thesis
    using assms(3) unmarshal_marshal_config [OF assms(1)]
    by (simp add: getPartitionConfig_def config_of_entry_def CoordinatorDriverName_def)
qed

theorem webhook_reads_controller_class_witness:
  "getPartitionConfig example_getClass ''half'' = Inr (Some (canonical example_config))"
  using webhook_reads_controller_class [of example_config example_getClass "''half''" CoordinatorDriverName "''p''" PartitionNUMA
      "example_numa ''a'' 0 [''g0'']" "''''" 1]
  by (simp add: example_getClass_def example_class_def)
    (simp add: example_config_def example_sub_def wf_config_def int64_id)


definition example_root_partition :: PartitionDevice where
  "example_root_partition = buildPartitionFromDevices ''a-pcieRoot-0'' ''a'' ''gpu_nic'' PartitionPCIeRoot
     [example_device ''gpu'' ''g0'' (Some ''pci0'') 0 [], example_device ''nic'' ''n0'' (Some ''pci0'') 0 []]"

definition required_root_rule :: "string \<Rightarrow> TopologyRule" where
  "required_root_rule cls = (example_rule ''a'' ''gpu'' cls)\<lparr>tr_Attribute := AttrPCIeRoot\<rparr>"

text \<open>
  The alignments of a configuration name drivers, the webhook looks them up among DeviceClass
  names.  A GPU and a NIC on one PCIe root with a required match rule: without a \<open>deviceClass\<close>
  override the expanded claim ties them together; with one for the GPU driver the required
  constraint is silently dropped.
\<close>

theorem override_drops_required_alignment:
  "map dn_Requests (snd (expandSinglePartition decimal_lib None ''r'' (example_request ''r'' ''pcieroot'' 1)
      (fst (buildPartitionConfig [(''ns/a'', required_root_rule '''')] example_root_partition)))) = [[''r-gpu'', ''r-nic'']]
   \<and> snd (expandSinglePartition decimal_lib None ''r'' (example_request ''r'' ''pcieroot'' 1)
      (fst (buildPartitionConfig [(''ns/a'', required_root_rule ''vfio-gpu'')] example_root_partition))) = []"
  by code_simp

end
