(* ===== verification/Admission.thy ===== *)
theory Admission
  imports Claim_Expander
begin

text \<open>
  \<open>internal/webhook/webhook.go\<close>, second part: the admission of Pods and of KubeVirt
  VirtualMachineInstances, the routing of a review and the HTTP handler.  The object of a request
  is given by what \<open>json.Unmarshal\<close> makes of its bytes for each target type (\<open>None\<close> is a decoding
  error); a decoded JSON object has distinct keys.  A panic of the handler is \<open>None\<close>.
\<close>

section \<open>Objects\<close>

record webhook_api =
  wa_GetClass :: "string \<Rightarrow> api_error + DeviceClass"
  wa_GetClaim :: "string \<Rightarrow> string \<Rightarrow> api_error + ResourceClaim"
  wa_GetTemplate :: "string \<Rightarrow> string \<Rightarrow> api_error + DeviceRequest list"

record PodResourceClaim =
  prc_Name :: string
  prc_ResourceClaimName :: "string option"
  prc_ResourceClaimTemplateName :: "string option"

record Container =
  ctr_Claims :: "ContainerClaim list"

record Pod =
  pod_ResourceClaims :: "PodResourceClaim list"
  pod_Containers :: "Container list"
  pod_InitContainers :: "Container list"

record AdmissionRequest =
  ar_UID :: string
  ar_Group :: string
  ar_Resource :: string
  ar_Operation :: string
  ar_Namespace :: string
  ar_Claim :: "ResourceClaim option"
  ar_Pod :: "Pod option"
  ar_VMI :: "(string, json) gomap option"

record AdmissionResponse =
  rs_UID :: string
  rs_Allowed :: bool
  rs_PatchType :: "string option"
  rs_Patch :: "jsonPatch list"

definition allowResponse :: AdmissionResponse where
  "allowResponse = \<lparr> rs_UID = '''', rs_Allowed = True, rs_PatchType = None, rs_Patch = [] \<rparr>"

text \<open>The common end of the handlers: no patches, no mutation.\<close>

definition patchResponse :: "jsonPatch list \<Rightarrow> AdmissionResponse" where
  "patchResponse patches = (if patches = [] then allowResponse
     else \<lparr> rs_UID = '''', rs_Allowed = True, rs_PatchType = Some ''JSONPatch'', rs_Patch = patches \<rparr>)"

section \<open>Pods\<close>

definition decode_names :: "json \<Rightarrow> (string, string list) gomap option" where
  "decode_names j = (case j of
      JObj kvs \<Rightarrow> fold_opt (\<lambda>m (k, v). map_option (\<lambda>ns. put k ns m) (dec_strs v)) [] kvs
    | JNull \<Rightarrow> Some [] | _ \<Rightarrow> None)"

definition unmarshal_names :: "string \<Rightarrow> (string, string list) gomap option" where
  "unmarshal_names annotation = Option.bind (Unmarshal annotation) decode_names"

text \<open>The expansion recorded on a claim; empty or unreadable annotations are skipped.\<close>

definition read_expansion :: "ResourceClaim \<Rightarrow> (string, string list) gomap option" where
  "read_expansion claim =
    (let annotation = get_or '''' (case rc_Annotations claim of None \<Rightarrow> [] | Some m \<Rightarrow> m) expansion_annotation
     in if annotation = '''' then None else unmarshal_names annotation)"

definition claim_to_lookup :: "PodResourceClaim \<Rightarrow> string" where
  "claim_to_lookup prc =
    (case prc_ResourceClaimName prc of
       Some n \<Rightarrow> if n \<noteq> '''' then n else (case prc_ResourceClaimTemplateName prc of Some t \<Rightarrow> t | None \<Rightarrow> '''')
     | None \<Rightarrow> (case prc_ResourceClaimTemplateName prc of Some t \<Rightarrow> t | None \<Rightarrow> ''''))"

definition add_claim_expansion ::
  "webhook_api \<Rightarrow> string \<Rightarrow> (string, (string, string list) gomap) gomap \<Rightarrow> PodResourceClaim \<Rightarrow>
     (string, (string, string list) gomap) gomap" where
  "add_claim_expansion api ns m prc =
    (let name = claim_to_lookup prc in
     if name = '''' then m
     else case wa_GetClaim api ns name of Inl e \<Rightarrow> m
       | Inr claim \<Rightarrow> (case read_expansion claim of None \<Rightarrow> m | Some mapping \<Rightarrow> put (prc_Name prc) mapping m))"

text \<open>One reference of a container: kept, or replaced by one entry per expanded request.\<close>

definition expand_ref ::
  "(string, (string, string list) gomap) gomap \<Rightarrow> ContainerClaim \<Rightarrow> ContainerClaim list \<times> bool" where
  "expand_ref expansions rc =
    (case map_of expansions (kc_Name rc) of None \<Rightarrow> ([rc], False)
     | Some mapping \<Rightarrow>
         if kc_Request rc = '''' then ([rc], False)
         else case map_of mapping (kc_Request rc) of None \<Rightarrow> ([rc], False)
           | Some names \<Rightarrow> (map (\<lambda>n. \<lparr> kc_Name = kc_Name rc, kc_Request = n \<rparr>) names, True))"

definition rewriteContainerClaims ::
  "(string, (string, string list) gomap) gomap \<Rightarrow> string \<Rightarrow> Container list \<Rightarrow> jsonPatch list" where
  "rewriteContainerClaims expansions containerPath containers =
    concat (map (\<lambda>(i, ctr).
        let refs = map (expand_ref expansions) (ctr_Claims ctr) in
        if list_ex snd refs
        then [patch ''replace'' (containerPath @ ''/'' @ itoa (int i) @ ''/resources/claims'') (VClaims (concat (map fst refs)))]
        else [])
      (enumerate 0 containers))"

definition handlePodAdmission :: "webhook_api \<Rightarrow> AdmissionRequest \<Rightarrow> AdmissionResponse" where
  "handlePodAdmission api req =
    (case ar_Pod req of None \<Rightarrow> allowResponse
     | Some pod \<Rightarrow>
         let expansions = foldl (add_claim_expansion api (ar_Namespace req)) [] (pod_ResourceClaims pod) in
         if expansions = [] then allowResponse
         else patchResponse (rewriteContainerClaims expansions ''/spec/containers'' (pod_Containers pod)
           @ rewriteContainerClaims expansions ''/spec/initContainers'' (pod_InitContainers pod)))"

section \<open>Virtual machine instances\<close>

text \<open>Type assertions with the comma-ok form: the zero value when the type is another one.\<close>

definition as_string :: "json option \<Rightarrow> string" where
  "as_string v = (case v of Some (JStr s) \<Rightarrow> s | _ \<Rightarrow> '''')"

definition as_map :: "json option \<Rightarrow> (string, json) gomap option" where
  "as_map v = (case v of Some (JObj kvs) \<Rightarrow> Some kvs | _ \<Rightarrow> None)"

definition as_slice :: "json option \<Rightarrow> json list" where
  "as_slice v = (case v of Some (JArr xs) \<Rightarrow> xs | _ \<Rightarrow> [])"

fun nestedSlice :: "(string, json) gomap \<Rightarrow> string list \<Rightarrow> json list" where
  "nestedSlice obj [] = []"
| "nestedSlice obj [field] = as_slice (map_of obj field)"
| "nestedSlice obj (field # f # fs) =
    (case as_map (map_of obj field) of None \<Rightarrow> [] | Some next \<Rightarrow> nestedSlice next (f # fs))"

text \<open>The host device kind of a sub-resource class, empty for classes that are not passed through.\<close>

definition device_hint :: "string \<Rightarrow> string" where
  "device_hint cls = (let lc = ToLower cls in
     if Contains lc ''gpu'' \<or> Contains lc ''nvidia'' then ''gpu''
     else if Contains lc ''net'' \<or> Contains lc ''sriov'' \<or> Contains lc ''rdma'' then ''nic'' else '''')"

definition passthrough :: "SubResourceConfig list \<Rightarrow> (string \<times> string \<times> int) list" where
  "passthrough srs = List.map_filter (\<lambda>sr. let hint = device_hint (sr_DeviceClass sr) in
     if hint \<noteq> '''' then Some (sr_DeviceClass sr, hint, sr_Count sr) else None) srs"

record vmi_state =
  vs_patches :: "jsonPatch list"
  vs_hdIdx :: int
  vs_globalDevIdx :: int

definition host_device :: "string \<Rightarrow> string \<Rightarrow> string \<Rightarrow> json" where
  "host_device deviceName rcName requestName =
     JObj [(''name'', JStr deviceName), (''claimName'', JStr rcName), (''requestName'', JStr requestName)]"

definition add_host_device :: "json list \<Rightarrow> string \<Rightarrow> vmi_state \<Rightarrow> string \<times> string \<Rightarrow> vmi_state" where
  "add_host_device existing rcName st hr =
    (let hd = host_device (fst hr @ itoa (vs_globalDevIdx st)) rcName (snd hr);
         p = (if vs_hdIdx st = 0 \<and> existing = []
              then patch ''add'' ''/spec/domain/devices/hostDevices'' (VJson (JArr [hd]))
              else patch ''add'' ''/spec/domain/devices/hostDevices/-'' (VJson hd))
     in \<lparr> vs_patches = vs_patches st @ [p], vs_hdIdx = vs_hdIdx st + 1, vs_globalDevIdx = vs_globalDevIdx st + 1 \<rparr>)"

text \<open>The hints and request names of the devices of one template request, in loop order.\<close>

definition host_requests :: "DeviceRequest \<Rightarrow> (string \<times> string \<times> int) list \<Rightarrow> (string \<times> string) list" where
  "host_requests tplReq pds =
    concat (map (\<lambda>i. concat (map (\<lambda>(cls, hint, srCount).
        replicate (nat srCount) (hint, instance_prefix tplReq i @ ''-'' @ sanitizeForRequestName cls)) pds))
      [0..<nat (request_count tplReq)])"

text \<open>\<open>vmi["metadata"].(map[string]interface{})\<close> without the comma-ok form panics on another type.\<close>

definition has_metadata :: "(string, json) gomap \<Rightarrow> bool" where
  "has_metadata vmi = (as_map (map_of vmi ''metadata'') \<noteq> None)"

definition template_request ::
  "webhook_api \<Rightarrow> (string, json) gomap \<Rightarrow> json list \<Rightarrow> string \<Rightarrow> vmi_state \<Rightarrow> DeviceRequest \<Rightarrow> vmi_state option" where
  "template_request api vmi existing rcName st tplReq =
    (case dr_Exactly tplReq of None \<Rightarrow> Some st
     | Some ex \<Rightarrow>
         if ex_DeviceClassName ex = '''' then Some st
         else case getPartitionConfig (wa_GetClass api) (ex_DeviceClassName ex) of
             Inr (Some config) \<Rightarrow>
               let pds = passthrough (pc_SubResources config) in
               if pds = [] then Some st
               else if \<not> has_metadata vmi then None
               else Some (foldl (add_host_device existing rcName) st (host_requests tplReq pds))
           | _ \<Rightarrow> Some st)"

definition has_devices_for :: "json list \<Rightarrow> string \<Rightarrow> bool" where
  "has_devices_for existing rcName = list_ex (\<lambda>hd. case as_map (Some hd) of None \<Rightarrow> False
     | Some m \<Rightarrow> map_of m ''claimName'' = Some (JStr rcName)) existing"

definition vmi_claim ::
  "webhook_api \<Rightarrow> string \<Rightarrow> (string, json) gomap \<Rightarrow> json list \<Rightarrow> vmi_state \<Rightarrow> json \<Rightarrow> vmi_state option" where
  "vmi_claim api ns vmi existing st rc =
    (case as_map (Some rc) of None \<Rightarrow> Some st
     | Some rcMap \<Rightarrow>
         let rcName = as_string (map_of rcMap ''name'');
             templateName = as_string (map_of rcMap ''resourceClaimTemplateName'')
         in if templateName = '''' then Some st
            else if has_devices_for existing rcName then Some st
            else case wa_GetTemplate api ns templateName of Inl e \<Rightarrow> Some st
              | Inr reqs \<Rightarrow> fold_opt (template_request api vmi existing rcName) st reqs)"

definition add_vmi_expansion ::
  "webhook_api \<Rightarrow> string \<Rightarrow> (string, (string, string list) gomap) gomap \<Rightarrow> json \<Rightarrow> (string, (string, string list) gomap) gomap" where
  "add_vmi_expansion api ns m rc =
    (case as_map (Some rc) of None \<Rightarrow> m
     | Some rcMap \<Rightarrow>
         let claimName = as_string (map_of rcMap ''resourceClaimName'') in
         if claimName = '''' then m
         else case wa_GetClaim api ns claimName of Inl e \<Rightarrow> m
           | Inr claim \<Rightarrow> (case read_expansion claim of None \<Rightarrow> m
               | Some mapping \<Rightarrow> put (as_string (map_of rcMap ''name'')) mapping m))"

text \<open>The expanded requests an entry of \<open>gpus\<close> or \<open>hostDevices\<close> refers to.\<close>

definition expanded_names :: "(string, (string, string list) gomap) gomap \<Rightarrow> (string, json) gomap \<Rightarrow> string list" where
  "expanded_names expansionMap dev =
    (let claimName = as_string (map_of dev ''claimName''); requestName = as_string (map_of dev ''requestName'') in
     if claimName = '''' \<or> requestName = '''' then []
     else case map_of expansionMap claimName of None \<Rightarrow> []
       | Some mapping \<Rightarrow> get_list mapping requestName)"

definition gpu_name :: "string list \<Rightarrow> string option" where
  "gpu_name names = find (\<lambda>name. Contains name ''gpu'') names"

definition host_name :: "string \<Rightarrow> string list \<Rightarrow> string option" where
  "host_name deviceName names =
    (case find (\<lambda>name. (Contains name ''net'' \<or> Contains name ''sriov'') \<and> Contains deviceName ''nic''
         \<or> Contains name ''nvme'' \<and> Contains deviceName ''nvme'') names of
       Some name \<Rightarrow> Some name
     | None \<Rightarrow> find (\<lambda>name. \<not> Contains name ''gpu'') names)"

definition rewrite_devices :: "((string, json) gomap \<Rightarrow> string option) \<Rightarrow> string \<Rightarrow> json list \<Rightarrow> jsonPatch list" where
  "rewrite_devices pick path devs =
    concat (map (\<lambda>(i, d). case Option.bind (as_map (Some d)) pick of None \<Rightarrow> []
        | Some name \<Rightarrow> [patch ''replace'' (path @ ''/'' @ itoa (int i) @ ''/requestName'') (VJson (JStr name))])
      (enumerate 0 devs))"

definition rename_patches :: "(string, (string, string list) gomap) gomap \<Rightarrow> (string, json) gomap \<Rightarrow> jsonPatch list" where
  "rename_patches expansionMap vmi =
    (if expansionMap = [] then []
     else rewrite_devices (\<lambda>d. gpu_name (expanded_names expansionMap d)) ''/spec/domain/devices/gpus''
         (nestedSlice vmi [''spec'', ''domain'', ''devices'', ''gpus''])
       @ rewrite_devices (\<lambda>d. host_name (as_string (map_of d ''name'')) (expanded_names expansionMap d))
         ''/spec/domain/devices/hostDevices'' (nestedSlice vmi [''spec'', ''domain'', ''devices'', ''hostDevices'']))"

definition handleVMIAdmission :: "webhook_api \<Rightarrow> AdmissionRequest \<Rightarrow> AdmissionResponse option" where
  "handleVMIAdmission api req =
    (case ar_VMI req of None \<Rightarrow> Some allowResponse
     | Some vmi \<Rightarrow>
         let resourceClaims = nestedSlice vmi [''spec'', ''resourceClaims''];
             existing = nestedSlice vmi [''spec'', ''domain'', ''devices'', ''hostDevices''];
             st0 = \<lparr> vs_patches = [], vs_hdIdx = int (length existing), vs_globalDevIdx = 0 \<rparr>
         in do {
           st \<leftarrow> fold_opt (vmi_claim api (ar_Namespace req) vmi existing) st0 resourceClaims;
           let expansionMap = foldl (add_vmi_expansion api (ar_Namespace req)) [] resourceClaims;
           let patches = vs_patches st @ rename_patches expansionMap vmi;
           if patches = [] then Some allowResponse
           else if \<not> has_metadata vmi then None
           else Some (patchResponse patches)
         })"

section \<open>Routing\<close>

text \<open>The model of the webhook: the first of the optional arguments of \<open>NewClaimExpander\<close>.\<close>

definition NewClaimExpander :: "TopologyModel list \<Rightarrow> TopologyModel option" where
  "NewClaimExpander model = (case model of [] \<Rightarrow> None | m # _ \<Rightarrow> Some m)"

definition handleAdmission :: "quantity_lib \<Rightarrow> TopologyModel option \<Rightarrow> webhook_api \<Rightarrow> AdmissionRequest \<Rightarrow> AdmissionResponse option" where
  "handleAdmission Q model api req =
    (if ar_Group req = '''' \<and> ar_Resource req = ''pods'' then
       Some (if ar_Operation req = ''CREATE'' then handlePodAdmission api req else allowResponse)
     else if ar_Group req = ''kubevirt.io'' \<and> ar_Resource req = ''virtualmachineinstances'' then
       (if ar_Operation req = ''CREATE'' then handleVMIAdmission api req else Some allowResponse)
     else if ar_Group req \<noteq> ''resource.k8s.io'' \<or> ar_Resource req \<noteq> ''resourceclaims'' then Some allowResponse
     else if ar_Operation req \<noteq> ''CREATE'' \<and> ar_Operation req \<noteq> ''UPDATE'' then Some allowResponse
     else case ar_Claim req of None \<Rightarrow> Some allowResponse
       | Some claim \<Rightarrow> Some (patchResponse (expandClaim Q model (wa_GetClass api) claim)))"

datatype http_body = ReadError | Malformed | Review "AdmissionRequest option"

datatype http_result = HttpError int string | ReviewResponse AdmissionResponse

definition ServeHTTP :: "quantity_lib \<Rightarrow> TopologyModel option \<Rightarrow> webhook_api \<Rightarrow> http_body \<Rightarrow> http_result option" where
  "ServeHTTP Q model api body =
    (case body of
       ReadError \<Rightarrow> Some (HttpError 400 ''failed to read body'')
     | Malformed \<Rightarrow> Some (HttpError 400 ''failed to unmarshal admission review'')
     | Review None \<Rightarrow> Some (HttpError 400 ''admission review has no request'')
     | Review (Some req) \<Rightarrow>
         map_option (\<lambda>r. ReviewResponse (r\<lparr>rs_UID := ar_UID req\<rparr>)) (handleAdmission Q model api req))"


section \<open>The webhook never denies\<close>

lemma patchResponse_allows:
  "rs_Allowed (patchResponse ps)" "rs_PatchType (patchResponse ps) = None \<longleftrightarrow> rs_Patch (patchResponse ps) = []"
  by (simp_all add: patchResponse_def allowResponse_def)

lemma allowResponse_sel [simp]: "rs_Allowed allowResponse" "rs_PatchType allowResponse = None" "rs_Patch allowResponse = []"
  by (simp_all add: allowResponse_def)

lemma handlePodAdmission_allows:
  "rs_Allowed (handlePodAdmission api req)" "rs_PatchType (handlePodAdmission api req) = None \<longleftrightarrow> rs_Patch (handlePodAdmission api req) = []"
  by (simp_all add: handlePodAdmission_def Let_def patchResponse_allows split: option.splits)

lemma fold_opt_total: "(\<And>s x. f s x \<noteq> None) \<Longrightarrow> fold_opt f s xs \<noteq> None"
proof (induction xs arbitrary: s)
  case (Cons x xs)
  from Cons.prems obtain s' where "f s x = Some s'" by blast
  with Cons show ?case by simp
qed simp

lemma template_request_total: "has_metadata vmi \<Longrightarrow> template_request api vmi existing n st r \<noteq> None"
  by (simp add: template_request_def Let_def split: option.splits sum.splits)

lemma vmi_claim_total: "has_metadata vmi \<Longrightarrow> vmi_claim api ns vmi existing st rc \<noteq> None"
  using fold_opt_total [of "template_request api vmi existing n" for n] template_request_total
  by (simp add: vmi_claim_def Let_def split: option.splits sum.splits)

lemma handleVMIAdmission_cases:
  "case handleVMIAdmission api req of
     Some r \<Rightarrow> rs_Allowed r \<and> (rs_PatchType r = None \<longleftrightarrow> rs_Patch r = [])
   | None \<Rightarrow> \<exists>vmi. ar_VMI req = Some vmi \<and> \<not> has_metadata vmi"
proof (cases "ar_VMI req")
  case (Some vmi)
  show ?thesis
  proof (cases "has_metadata vmi")
    case True
    define existing where "existing = nestedSlice vmi [''spec'', ''domain'', ''devices'', ''hostDevices'']"
    define st0 where "st0 = \<lparr> vs_patches = [], vs_hdIdx = int (length existing), vs_globalDevIdx = 0 \<rparr>"
    obtain st where "fold_opt (vmi_claim api (ar_Namespace req) vmi existing) st0 (nestedSlice vmi [''spec'', ''resourceClaims'']) = Some st"
      using fold_opt_total [of "vmi_claim api (ar_Namespace req) vmi existing"] vmi_claim_total [OF True] by blast
    then show ?thesis using Some True
      by (simp add: handleVMIAdmission_def Let_def existing_def st0_def patchResponse_allows)
  next
    case False
    have "rs_Allowed r \<and> (rs_PatchType r = None \<longleftrightarrow> rs_Patch r = [])" if "handleVMIAdmission api req = Some r" for r
      using that Some False
      by (auto simp: handleVMIAdmission_def Let_def Option.bind_eq_Some_conv split: if_splits)
    with Some False show ?thesis by (simp split: option.splits)
  qed
qed (simp add: handleVMIAdmission_def)

text \<open>
  C14: the webhook never rejects an object.  Whatever the request, the API and the model, a response
  allows the request, carries the request's UID, and has a patch type exactly when it has patches;
  bad bodies are answered by status 400.  The only way not to answer is a VirtualMachineInstance
  whose \<open>metadata\<close> is no object, where a type assertion panics.
\<close>

theorem webhook_never_denies:
  "case ServeHTTP Q model api body of
     Some (ReviewResponse r) \<Rightarrow> rs_Allowed r \<and> (rs_PatchType r = None \<longleftrightarrow> rs_Patch r = [])
       \<and> (\<exists>req. body = Review (Some req) \<and> rs_UID r = ar_UID req)
   | Some (HttpError status msg) \<Rightarrow> status = 400 \<and> (\<forall>req. body \<noteq> Review (Some req))
   | None \<Rightarrow> \<exists>req vmi. body = Review (Some req) \<and> ar_Group req = ''kubevirt.io'' \<and> ar_Operation req = ''CREATE''
       \<and> ar_VMI req = Some vmi \<and> \<not> has_metadata vmi"
proof -
  have adm: "case handleAdmission Q model api req of
      Some r \<Rightarrow> rs_Allowed r \<and> (rs_PatchType r = None \<longleftrightarrow> rs_Patch r = [])
    | None \<Rightarrow> ar_Group req = ''kubevirt.io'' \<and> ar_Operation req = ''CREATE'' \<and> (\<exists>vmi. ar_VMI req = Some vmi \<and> \<not> has_metadata vmi)" for req
    using handleVMIAdmission_cases [where api = api and req = req]
    by (simp add: handleAdmission_def handlePodAdmission_allows patchResponse_allows split: option.splits)
  show ?thesis
  proof (cases body)
    case (Review r)
    show ?thesis
    proof (cases r)
      case (Some req)
      with Review adm [of req] show ?thesis
        by (cases "handleAdmission Q model api req") (auto simp: ServeHTTP_def)
    qed (simp add: Review ServeHTTP_def)
  qed (simp_all add: ServeHTTP_def)
qed

section \<open>Pods follow the expansion of their claims\<close>

lemma decode_names_fold:
  "wf_map (m @ map (\<lambda>k. (k, f k)) ks) \<Longrightarrow>
    fold_opt (\<lambda>m (k, v). map_option (\<lambda>ns. put k ns m) (dec_strs v)) m (map (\<lambda>k. (k, enc_list JStr (f k))) ks) =
    Some (m @ map (\<lambda>k. (k, f k)) ks)"
proof (induction ks arbitrary: m)
  case (Cons k ks)
  then have "k \<notin> fst ` set m" by auto
  then have "put k (f k) m = m @ [(k, f k)]" by (rule put_fresh)
  with Cons.IH [of "m @ [(k, f k)]"] Cons.prems show ?case by simp
qed simp

lemma decode_encode_names:
  assumes "wf_map m"
  shows "\<exists>m'. decode_names (encode_names m) = Some m' \<and> map_of m' = map_of m"
proof -
  let ?m' = "map (\<lambda>k. (k, get_list m k)) (sort (keys m))"
  have "decode_names (encode_names m) = Some ?m'"
    using decode_names_fold [of "[]" "get_list m" "sort (keys m)"] assms
    by (simp add: decode_names_def encode_names_def comp_def)
  moreover have "map_of ?m' k = map_of m k" for k
    by (auto simp: map_of_map_restrict restrict_map_def map_of_get_or [of m k "[]"])
  ultimately show ?thesis by blast
qed

lemma names_read_back:
  assumes "wf_map m"
  shows "\<exists>m'. unmarshal_names (marshal_names m) = Some m' \<and> map_of m' = map_of m"
  using decode_encode_names [OF assms] by (simp add: unmarshal_names_def marshal_names_def Unmarshal_Marshal)

lemma marshal_names_nonempty: "marshal_names m \<noteq> ''''"
  using Marshal_nonempty by (simp add: marshal_names_def)

lemma map_of_expansion:
  assumes "distinct (map dr_Name reqs)" and "req \<in> set reqs" and "partition_config getClass req = Some c"
  shows "map_of (expansion_of Q model getClass reqs) (dr_Name req) = Some (map dr_Name (fst (expandRequest Q model req c)))"
  using assms(1,2)
proof (induction reqs rule: rev_induct)
  case (snoc r reqs)
  have step: "expansion_of Q model getClass (reqs @ [r]) = (case partition_config getClass r of
      None \<Rightarrow> expansion_of Q model getClass reqs
    | Some c \<Rightarrow> put (dr_Name r) (map dr_Name (fst (expandRequest Q model r c))) (expansion_of Q model getClass reqs))"
    by (simp add: expansion_of_def split: option.splits)
  show ?case
  proof (cases "req = r")
    case True
    then show ?thesis using assms(3) by (simp add: step)
  next
    case False
    with snoc.prems have "req \<in> set reqs" by simp
    moreover from this have "dr_Name req \<in> dr_Name ` set reqs" by (rule imageI)
    moreover have "dr_Name r \<notin> dr_Name ` set reqs" using snoc.prems(1) by simp
    ultimately have "req \<in> set reqs" "dr_Name req \<noteq> dr_Name r" by metis+
    with snoc show ?thesis by (simp add: step split: option.splits)
  qed
qed simp


definition example_api :: webhook_api where
  "example_api = \<lparr> wa_GetClass = example_getClass,
     wa_GetClaim = \<lambda>ns name. Inr (expanded decimal_lib None example_getClass example_claim),
     wa_GetTemplate = \<lambda>ns name. Inl NotFound \<rparr>"


section \<open>Host devices of a virtual machine\<close>



end
