(* ===== verification/Sync_Errors.thy ===== *)
theory Sync_Errors
  imports Class_Sync
begin

text \<open>
  Synchronisation of \<open>internal/controller/deviceclass_manager.go\<close> against an API whose calls may
  fail: what a failed synchronisation leaves behind, and that a later one repairs it.
  \<open>api_safe\<close> is the contract of such an API.  A call that reports an error may have had its effect
  all the same (an answer can get lost), a call that reports success has had it, and nobody else
  writes.
\<close>

section \<open>An API that may fail\<close>

definition get_safe :: "'w dc_api \<Rightarrow> ('w \<Rightarrow> cluster) \<Rightarrow> bool" where
  "get_safe api view = (\<forall>w n. view (snd (api_Get api n w)) = view w \<and>
     (fst (api_Get api n w) = Inl NotFound \<longrightarrow> view w n = None) \<and>
     (\<forall>dc. fst (api_Get api n w) = Inr dc \<longrightarrow> view w n = Some dc))"

definition write_safe :: "(DeviceClass \<Rightarrow> 'w \<Rightarrow> api_error option \<times> 'w) \<Rightarrow> ('w \<Rightarrow> cluster) \<Rightarrow> bool" where
  "write_safe call view = (\<forall>w dc. stored (view w) dc (view (snd (call dc w))) \<or>
     fst (call dc w) \<noteq> None \<and> view (snd (call dc w)) = view w)"

definition delete_safe :: "'w dc_api \<Rightarrow> ('w \<Rightarrow> cluster) \<Rightarrow> bool" where
  "delete_safe api view = (\<forall>w n. view (snd (api_Delete api n w)) \<in> {view w, (view w)(n := None)})"

definition list_safe :: "'w dc_api \<Rightarrow> ('w \<Rightarrow> cluster) \<Rightarrow> bool" where
  "list_safe api view = (\<forall>w sel name. selects sel name \<longrightarrow> view (snd (api_List api sel w)) = view w \<and>
     (case fst (api_List api sel w) of Inl e \<Rightarrow> True | Inr cs \<Rightarrow> set cs = {dc \<in> ran (view w). managed_with name dc}))"

definition api_safe :: "'w dc_api \<Rightarrow> ('w \<Rightarrow> cluster) \<Rightarrow> bool" where
  "api_safe api view = ((\<forall>w n dc. view w n = Some dc \<longrightarrow> dc_Name dc = n) \<and> get_safe api view \<and>
     write_safe (api_Create api) view \<and> write_safe (api_Update api) view \<and> delete_safe api view \<and> list_safe api view)"

lemma api_safeD:
  assumes "api_safe api view"
  shows "view w n = Some dc \<Longrightarrow> dc_Name dc = n"
    "view (snd (api_Get api n w)) = view w"
    "fst (api_Get api n w) = Inl NotFound \<Longrightarrow> view w n = None"
    "fst (api_Get api n w) = Inr dc \<Longrightarrow> view w n = Some dc"
    "stored (view w) dc (view (snd (api_Create api dc w))) \<or>
       fst (api_Create api dc w) \<noteq> None \<and> view (snd (api_Create api dc w)) = view w"
    "stored (view w) dc (view (snd (api_Update api dc w))) \<or>
       fst (api_Update api dc w) \<noteq> None \<and> view (snd (api_Update api dc w)) = view w"
    "view (snd (api_Delete api n w)) = view w \<or> view (snd (api_Delete api n w)) = (view w)(n := None)"
proof -
  have laws: "\<forall>w n dc. view w n = Some dc \<longrightarrow> dc_Name dc = n" "get_safe api view" "write_safe (api_Create api) view"
    "write_safe (api_Update api) view" "delete_safe api view"
    using assms by (simp_all add: api_safe_def)
  show "view w n = Some dc \<Longrightarrow> dc_Name dc = n" using laws(1) by blast
  show "view (snd (api_Get api n w)) = view w" using laws(2) by (simp add: get_safe_def)
  show "fst (api_Get api n w) = Inl NotFound \<Longrightarrow> view w n = None" using laws(2) by (simp add: get_safe_def)
  show "fst (api_Get api n w) = Inr dc \<Longrightarrow> view w n = Some dc" using laws(2) by (simp add: get_safe_def)
  show "stored (view w) dc (view (snd (api_Create api dc w))) \<or>
       fst (api_Create api dc w) \<noteq> None \<and> view (snd (api_Create api dc w)) = view w"
    using laws(3) unfolding write_safe_def by blast
  show "stored (view w) dc (view (snd (api_Update api dc w))) \<or>
       fst (api_Update api dc w) \<noteq> None \<and> view (snd (api_Update api dc w)) = view w"
    using laws(4) unfolding write_safe_def by blast
  show "view (snd (api_Delete api n w)) = view w \<or> view (snd (api_Delete api n w)) = (view w)(n := None)"
    using laws(5) by (simp add: delete_safe_def)
qed

section \<open>What a publication may change\<close>

text \<open>Every object is as before, or a class of the list under its own name.\<close>

definition touched :: "DeviceClass list \<Rightarrow> cluster \<Rightarrow> cluster \<Rightarrow> bool" where
  "touched classes v v' = (\<forall>n. map_option erase (v' n) = map_option erase (v n) \<or>
     (\<exists>dc \<in> set classes. dc_Name dc = n \<and> map_option erase (v' n) = Some (erase dc)))"

lemma touched_refl [simp]: "touched classes v v"
  by (simp add: touched_def)

lemma touched_trans: "touched classes v v1 \<Longrightarrow> touched classes v1 v2 \<Longrightarrow> touched classes v v2"
  unfolding touched_def by metis

lemma touched_mono: "touched classes v v' \<Longrightarrow> set classes \<subseteq> set classes' \<Longrightarrow> touched classes' v v'"
  unfolding touched_def by blast

lemma stored_touched: "stored v dc v' \<Longrightarrow> touched [dc] v v'"
  by (auto simp: stored_def touched_def erase_def split: if_splits)

lemma stored_version: "stored v (dc\<lparr>dc_ResourceVersion := rv\<rparr>) v' \<longleftrightarrow> stored v dc v'"
  by (simp add: stored_def)

lemma publishDeviceClass_safe:
  assumes "api_safe api view"
  shows "case publishDeviceClass api dc w of (e, w') \<Rightarrow> stored (view w) dc (view w') \<or> e \<noteq> None \<and> view w' = view w"
proof -
  note safe = api_safeD [OF assms]
  obtain g w1 where g: "api_Get api (dc_Name dc) w = (g, w1)" by (cases "api_Get api (dc_Name dc) w")
  have v1: "view w1 = view w" using safe(2) [of "dc_Name dc" w] g by simp
  consider (create) "g = Inl NotFound" | (failed) m where "g = Inl (ApiError m)" | (update) old where "g = Inr old"
    by (cases g) (use api_error.exhaust in auto)
  then show ?thesis
  proof cases
    case create
    with safe(5) [of w1 dc] g v1 show ?thesis
      by (cases "api_Create api dc w1") (auto simp: publishDeviceClass_def split: option.splits)
  next
    case failed
    with g v1 show ?thesis by (simp add: publishDeviceClass_def)
  next
    case update
    with safe(6) [of w1 "dc\<lparr>dc_ResourceVersion := dc_ResourceVersion old\<rparr>"] g v1 show ?thesis
      by (cases "api_Update api (dc\<lparr>dc_ResourceVersion := dc_ResourceVersion old\<rparr>) w1")
        (auto simp: publishDeviceClass_def stored_version split: option.splits)
  qed
qed

text \<open>A loop of publications touches its own classes only; without an error it has its full effect.\<close>

lemma publish_all_safe:
  assumes "api_safe api view"
  shows "publish_all api dcs w = (e, w') \<Longrightarrow> touched dcs (view w) (view w')
    \<and> (e = None \<longrightarrow> map_option erase \<circ> view w' = overwrite (rev dcs) (view w))"
proof (induction dcs arbitrary: w)
  case Nil
  then show ?case by (simp add: overwrite_Nil)
next
  case (Cons dc dcs)
  obtain e1 w1 where p: "publishDeviceClass api dc w = (e1, w1)" by (cases "publishDeviceClass api dc w")
  with publishDeviceClass_safe [OF assms, where dc = dc and w = w]
  have st: "stored (view w) dc (view w1) \<or> e1 \<noteq> None \<and> view w1 = view w" by simp
  then have first: "touched (dc # dcs) (view w) (view w1)"
    using stored_touched [of "view w" dc "view w1"] touched_mono [of "[dc]" _ _ "dc # dcs"] by auto
  show ?case
  proof (cases e1)
    case None
    with Cons.prems p have rest: "publish_all api dcs w1 = (e, w')" by simp
    note IH = Cons.IH [OF rest]
    have "touched (dc # dcs) (view w1) (view w')" using IH touched_mono [of dcs _ _ "dc # dcs"] by auto
    with first have "touched (dc # dcs) (view w) (view w')" by (rule touched_trans)
    with IH st None show ?thesis using overwrite_stored [of "view w" dc "view w1" dcs] by simp
  next
    case (Some x)
    with Cons.prems p first show ?thesis by auto
  qed
qed

lemma delete_all_safe:
  assumes "api_safe api view"
  shows "view (delete_all api ns w) n = view w n \<or> view (delete_all api ns w) n = None \<and> n \<in> set ns"
proof (induction ns arbitrary: w)
  case (Cons m ns)
  have "view (snd (api_Delete api m w)) n = view w n \<or> view (snd (api_Delete api m w)) n = None \<and> n = m"
    using api_safeD(7) [OF assms, of m w] by (auto simp: fun_upd_def split: if_splits)
  with Cons [of "snd (api_Delete api m w)"] show ?case by auto
qed simp

section \<open>What a synchronisation may change\<close>

text \<open>
  The most a synchronisation does to an object: nothing, putting a planned class of its name in
  its place, or removing it when it was managed and stale.
\<close>

definition contained :: "DeviceClass list \<Rightarrow> string \<Rightarrow> (DeviceClass \<Rightarrow> bool) \<Rightarrow> cluster \<Rightarrow> cluster \<Rightarrow> bool" where
  "contained classes name live v v' = (\<forall>n. map_option erase (v' n) = map_option erase (v n) \<or>
     (\<exists>dc \<in> set classes. dc_Name dc = n \<and> map_option erase (v' n) = Some (erase dc)) \<or>
     v' n = None \<and> (\<exists>dc. v n = Some dc \<and> managed_with name dc \<and> \<not> live dc))"

lemma touched_contained: "touched classes v v' \<Longrightarrow> contained classes name live v v'"
  unfolding touched_def contained_def by blast

lemma overwrite_last_of_name:
  assumes "map_option erase \<circ> v' = overwrite (rev classes) v"
  shows "map_option erase (v' n) =
    (case map_of (map (\<lambda>dc. (dc_Name dc, dc)) (rev classes)) n of None \<Rightarrow> map_option erase (v n) | Some dc \<Rightarrow> Some (erase dc))"
proof -
  have "map_option erase (v' n) = overwrite (rev classes) v n" using fun_cong [OF assms, of n] by (simp only: o_def)
  then show ?thesis by (simp only: overwrite_def map_add_def o_def) (simp split: option.splits)
qed

lemma last_of_name:
  "map_of (map (\<lambda>dc. (dc_Name dc, dc)) (rev classes)) n = Some dc \<Longrightarrow> dc \<in> set classes \<and> dc_Name dc = n"
  using map_of_SomeD [of "map (\<lambda>dc. (dc_Name dc, dc)) (rev classes)" n dc] by auto

lemma overwrite_touched: "map_option erase \<circ> v' = overwrite (rev classes) v \<Longrightarrow> touched classes v v'"
  unfolding touched_def
proof
  fix n
  assume v': "map_option erase \<circ> v' = overwrite (rev classes) v"
  define m where "m = map_of (map (\<lambda>dc. (dc_Name dc, dc)) (rev classes)) n"
  have m: "map_option erase (v' n) = (case m of None \<Rightarrow> map_option erase (v n) | Some dc \<Rightarrow> Some (erase dc))"
    unfolding m_def by (rule overwrite_last_of_name [OF v'])
  have mem: "m = Some dc \<Longrightarrow> dc \<in> set classes \<and> dc_Name dc = n" for dc unfolding m_def by (rule last_of_name)
  show "map_option erase (v' n) = map_option erase (v n) \<or>
      (\<exists>dc \<in> set classes. dc_Name dc = n \<and> map_option erase (v' n) = Some (erase dc))"
  proof (cases m)
    case (Some dc)
    with m mem show ?thesis by auto
  qed (use m in simp)
qed

text \<open>The stale objects listed after the publications were there before.\<close>

lemma stale_was_there:
  assumes "map_option erase \<circ> v1 = overwrite (rev classes) v" and "v1 n = Some dc" and "\<not> live dc"
    and live: "\<And>dc. live (erase dc) = live dc" and safe: "\<And>dc. dc \<in> set classes \<Longrightarrow> live dc"
    and "managed_with name dc"
  shows "\<exists>dc0. v n = Some dc0 \<and> managed_with name dc0 \<and> \<not> live dc0"
proof -
  have "map_option erase (v1 n) = map_option erase (v n)"
  proof (rule ccontr)
    assume "map_option erase (v1 n) \<noteq> map_option erase (v n)"
    then obtain c where "c \<in> set classes" "erase dc = erase c"
      using overwrite_touched [OF assms(1)] assms(2) unfolding touched_def by fastforce
    then show False using safe live assms(3) by metis
  qed
  with assms(2) have "map_option erase (v n) = Some (erase dc)" by simp
  then obtain dc0 where "v n = Some dc0" "erase dc0 = erase dc" by (cases "v n") simp_all
  then show ?thesis using assms(3,6) live managed_with_erase by metis
qed

lemma publish_cleanup_safe:
  assumes safe: "api_safe api view" and sel: "selects sel name" and live: "\<And>dc. live (erase dc) = live dc"
    and protected: "\<And>dc. dc \<in> set classes \<Longrightarrow> live dc"
    and pub: "publish_all api classes w = (None, w1)" and lst: "api_List api sel w1 = (Inr cs, w2)"
  shows "contained classes name live (view w) (view (delete_all api (map dc_Name (filter (\<lambda>dc. \<not> live dc) cs)) w2))"
  unfolding contained_def
proof
  fix n
  let ?v' = "view (delete_all api (map dc_Name (filter (\<lambda>dc. \<not> live dc) cs)) w2)"
  have v1: "map_option erase \<circ> view w1 = overwrite (rev classes) (view w)" using publish_all_safe [OF safe pub] by simp
  have list: "list_safe api view" using safe by (simp add: api_safe_def)
  then have "view (snd (api_List api sel w1)) = view w1" using sel unfolding list_safe_def by blast
  then have w2: "view w2 = view w1" using lst by simp
  have "case fst (api_List api sel w1) of Inl e \<Rightarrow> True | Inr cs \<Rightarrow> set cs = {dc \<in> ran (view w1). managed_with name dc}"
    using list sel unfolding list_safe_def by blast
  then have cs: "set cs = {dc \<in> ran (view w1). managed_with name dc}" using lst by simp
  have del: "?v' n = view w1 n \<or> ?v' n = None \<and> (\<exists>dc. dc \<in> set cs \<and> \<not> live dc \<and> dc_Name dc = n)"
    using delete_all_safe [OF safe, of "map dc_Name (filter (\<lambda>dc. \<not> live dc) cs)" w2 n] by (auto simp: w2)
  have gone: "\<exists>dc0. view w n = Some dc0 \<and> managed_with name dc0 \<and> \<not> live dc0"
    if "dc \<in> set cs" "\<not> live dc" "dc_Name dc = n" for dc
  proof -
    from that cs obtain m where "view w1 m = Some dc" "managed_with name dc" by (auto simp: ran_def)
    with that(3) have "view w1 n = Some dc" using api_safeD(1) [OF safe] by metis
    then show ?thesis by (rule stale_was_there [where live = live, OF v1 _ that(2) live protected]) (use \<open>managed_with name dc\<close> in auto)
  qed
  from overwrite_touched [OF v1] have "map_option erase (view w1 n) = map_option erase (view w n) \<or>
      (\<exists>dc \<in> set classes. dc_Name dc = n \<and> map_option erase (view w1 n) = Some (erase dc))" unfolding touched_def by blast
  with del gone show "map_option erase (?v' n) = map_option erase (view w n) \<or>
     (\<exists>dc \<in> set classes. dc_Name dc = n \<and> map_option erase (?v' n) = Some (erase dc)) \<or>
     ?v' n = None \<and> (\<exists>dc. view w n = Some dc \<and> managed_with name dc \<and> \<not> live dc)" by metis
qed


text \<open>Both synchronisations publish their classes and then clean up, in the form of this lemma.\<close>

lemma publish_then_cleanup_contained:
  assumes safe: "api_safe api view" and sel: "selects sel name" and live: "\<And>dc. live (erase dc) = live dc"
    and protected: "\<And>dc. dc \<in> set classes \<Longrightarrow> live dc"
    and clean: "\<And>w1. clean w1 = (case api_List api sel w1 of (Inl e, w2) \<Rightarrow> w2
      | (Inr cs, w2) \<Rightarrow> delete_all api (map dc_Name (filter (\<lambda>dc. \<not> live dc) cs)) w2)"
    and run: "(case publish_all api classes w of (Some e, w1) \<Rightarrow> (Some e, w1) | (None, w1) \<Rightarrow> (None, clean w1)) = (e, w')"
  shows "contained classes name live (view w) (view w') \<and> (e \<noteq> None \<longrightarrow> touched classes (view w) (view w'))"
proof -
  obtain pe w1 where pub: "publish_all api classes w = (pe, w1)" by (cases "publish_all api classes w")
  note pubs = publish_all_safe [OF safe pub]
  show ?thesis
  proof (cases pe)
    case (Some x)
    with run pub pubs show ?thesis by (auto simp: touched_contained)
  next
    case None
    with run pub have e: "e = None" "w' = clean w1" by auto
    obtain l w2 where lst: "api_List api sel w1 = (l, w2)" by (cases "api_List api sel w1")
    show ?thesis
    proof (cases l)
      case (Inl x)
      have "list_safe api view" using safe by (simp add: api_safe_def)
      then have "view (snd (api_List api sel w1)) = view w1" using sel unfolding list_safe_def by blast
      with lst Inl e pubs clean show ?thesis by (simp add: touched_contained)
    next
      case (Inr cs)
      from publish_cleanup_safe [where live = live, OF safe sel live protected pub [unfolded None] lst [unfolded Inr]] e lst Inr clean
      show ?thesis by simp
    qed
  qed
qed

lemma cleanup_world:
  "snd (cleanupStaleDeviceClasses api active w) = (case api_List api partition_selector w of (Inl e, w2) \<Rightarrow> w2
     | (Inr cs, w2) \<Rightarrow> delete_all api (map dc_Name (filter (\<lambda>dc. \<not> label_key (dc_Labels dc) \<in> set active) cs)) w2)"
  "snd (cleanupStaleGroupingDeviceClasses api names w) = (case api_List api grouping_selector w of (Inl e, w2) \<Rightarrow> w2
     | (Inr cs, w2) \<Rightarrow> delete_all api (map dc_Name (filter (\<lambda>dc. \<not> dc_Name dc \<in> set names) cs)) w2)"
  by (simp_all add: cleanupStaleDeviceClasses_def cleanupStaleGroupingDeviceClasses_def split: prod.splits sum.splits)

lemma sync_contained:
  assumes safe: "api_safe api view" and ok: "all_orders_ok ro" and rooted: "all_rooted results"
    and plan: "planned ro driverName rules results = Some (classes, active)"
    and sync: "SyncDeviceClasses ro api driverName rules results w = Some (e, w')"
  shows "contained classes ''partitionType'' (\<lambda>dc. label_key (dc_Labels dc) \<in> set active) (view w) (view w')"
    and "e \<noteq> None \<Longrightarrow> touched classes (view w) (view w')"
proof -
  have "contained classes ''partitionType'' (\<lambda>dc. label_key (dc_Labels dc) \<in> set active) (view w) (view w') \<and>
      (e \<noteq> None \<longrightarrow> touched classes (view w) (view w'))"
  proof (rule publish_then_cleanup_contained [OF safe])
    show "selects partition_selector ''partitionType''" by (simp add: selects_def)
    show "dc \<in> set classes \<Longrightarrow> label_key (dc_Labels dc) \<in> set active" for dc by (rule planned_protected [OF plan ok rooted])
    show "(case publish_all api classes w of (Some e, w1) \<Rightarrow> (Some e, w1)
        | (None, w1) \<Rightarrow> (None, snd (cleanupStaleDeviceClasses api active w1))) = (e, w')"
      using sync by (simp add: SyncDeviceClasses_planned [OF plan])
  qed (simp_all add: erase_def cleanup_world)
  then show "contained classes ''partitionType'' (\<lambda>dc. label_key (dc_Labels dc) \<in> set active) (view w) (view w')"
    "e \<noteq> None \<Longrightarrow> touched classes (view w) (view w')" by auto
qed

lemma sync_groupings_contained:
  assumes safe: "api_safe api view" and ok: "all_orders_ok ro"
    and sync: "SyncGroupingDeviceClasses ro api driverName rules results w = (e, w')"
  shows "contained (grouping_planned ro driverName rules results) ''grouping''
    (\<lambda>dc. dc_Name dc \<in> dc_Name ` set (grouping_planned ro driverName rules results)) (view w) (view w')"
proof -
  let ?classes = "grouping_planned ro driverName rules results"
  obtain names where names: "set names = dc_Name ` set ?classes"
    and eq: "\<And>w. SyncGroupingDeviceClasses ro api driverName rules results w =
      (case publish_all api ?classes w of (Some e, w1) \<Rightarrow> (Some e, w1)
       | (None, w1) \<Rightarrow> (None, snd (cleanupStaleGroupingDeviceClasses api names w1)))"
    using SyncGroupingDeviceClasses_planned [OF ok] by blast
  have "contained ?classes ''grouping'' (\<lambda>dc. dc_Name dc \<in> set names) (view w) (view w') \<and>
      (e \<noteq> None \<longrightarrow> touched ?classes (view w) (view w'))"
  proof (rule publish_then_cleanup_contained [OF safe])
    show "selects grouping_selector ''grouping''" by (simp add: selects_def)
    show "(case publish_all api ?classes w of (Some e, w1) \<Rightarrow> (Some e, w1)
        | (None, w1) \<Rightarrow> (None, snd (cleanupStaleGroupingDeviceClasses api names w1))) = (e, w')"
      using sync unfolding eq .
  qed (simp_all add: erase_def cleanup_world names)
  then show ?thesis unfolding names by blast
qed

section \<open>The plan and the order of the loops\<close>

lemma computeTierName_cong:
  "pp_count pp = pp_count pp' \<Longrightarrow> pd_NUMANodes (pp_representative pp) = pd_NUMANodes (pp_representative pp') \<Longrightarrow>
    computeTierName ty pp ps profile n = computeTierName ty pp' ps profile n"
  by (simp add: computeTierName_def Let_def)

lemma those_nth: "those (map f xs) = Some ys \<Longrightarrow> length ys = length xs \<and> (\<forall>i < length xs. f (xs ! i) = Some (ys ! i))"
proof (induction xs arbitrary: ys)
  case (Cons x xs)
  then obtain y ys' where ys: "f x = Some y" "those (map f xs) = Some ys'" "ys = y # ys'" by (auto split: option.splits)
  from Cons.IH [OF ys(2)] ys(1,3) show ?case by (auto simp: less_Suc_eq_0_disj)
qed simp

lemma tier_names_iff:
  assumes "tier_names aggregates ps n = Some tiers"
  shows "(ak, t) \<in> set tiers \<longleftrightarrow>
    0 < n \<and> t \<noteq> '''' \<and> (\<exists>pp. (ak, pp) \<in> set aggregates \<and> computeTierName (snd ak) pp ps (fst ak) n = Some t)"
proof (cases "0 < n")
  case True
  let ?f = "\<lambda>(ak, pp). computeTierName (snd ak) pp ps (fst ak) n"
  obtain names where those: "those (map ?f aggregates) = Some names"
    and tiers: "tiers = filter (\<lambda>(ak, t). t \<noteq> '''') (zip (keys aggregates) names)"
    using assms True by (auto simp: tier_names_def split: bind_splits)
  note nth = those_nth [OF those]
  have "(ak, t) \<in> set (zip (keys aggregates) names) \<longleftrightarrow>
      (\<exists>i < length aggregates. fst (aggregates ! i) = ak \<and> names ! i = t)"
    using nth by (simp add: in_set_zip) (metis nth_map)
  also have "\<dots> \<longleftrightarrow> (\<exists>i < length aggregates. fst (aggregates ! i) = ak \<and> ?f (aggregates ! i) = Some t)"
    using nth by auto
  also have "\<dots> \<longleftrightarrow> (\<exists>pp. (ak, pp) \<in> set aggregates \<and> computeTierName (snd ak) pp ps (fst ak) n = Some t)"
    unfolding case_prod_unfold
  proof
    assume "\<exists>i < length aggregates. fst (aggregates ! i) = ak \<and>
      computeTierName (snd (fst (aggregates ! i))) (snd (aggregates ! i)) ps (fst (fst (aggregates ! i))) n = Some t"
    then obtain i where i: "i < length aggregates" "fst (aggregates ! i) = ak"
      "computeTierName (snd ak) (snd (aggregates ! i)) ps (fst ak) n = Some t" by blast
    from i(1) have "aggregates ! i \<in> set aggregates" by (rule nth_mem)
    with i(2,3) show "\<exists>pp. (ak, pp) \<in> set aggregates \<and> computeTierName (snd ak) pp ps (fst ak) n = Some t"
      by (metis prod.collapse)
  qed (force simp: in_set_conv_nth)
  finally show ?thesis using True by (auto simp: tiers)
qed (use assms in \<open>simp add: tier_names_def\<close>)

lemma aggregate_orders:
  assumes "mset seen' = mset seen" and "(ak, agg) \<in> set (collect_aggregates rules seen)"
  shows "\<exists>agg'. (ak, agg') \<in> set (collect_aggregates rules seen') \<and> pp_count agg' = pp_count agg
    \<and> pd_NUMANodes (pp_representative agg') = pd_NUMANodes (pp_representative agg)"
proof -
  note m = aggregate_mem [OF assms(2)]
  have perm: "mset (members seen' ak) = mset (members seen ak)" using assms(1) by (rule members_mset)
  then have "members seen' ak \<noteq> []" using m(4) by (metis mset_zero_iff)
  then obtain st where "agg_state (members seen' ak) = Some st" by (cases "members seen' ak") (simp_all add: agg_state_def)
  then have "map_of (collect_aggregates rules seen') ak = Some (aggregate_of rules ak st)"
    by (simp add: collect_aggregates_spec(2))
  then have mem: "(ak, aggregate_of rules ak st) \<in> set (collect_aggregates rules seen')" by (rule map_of_SomeD)
  note m' = aggregate_mem [OF mem]
  have "pp_count (aggregate_of rules ak st) = pp_count agg"
    unfolding m(3) m'(3) by (rule sum_counts_mset [OF perm])
  with mem m(5) m'(5) show ?thesis by (intro exI [of _ "aggregate_of rules ak st"]) simp
qed

lemma active_orders:
  assumes "mset seen1 = mset seen" "mset seen2 = mset seen"
    and t1: "tier_names (collect_aggregates rules seen1) ps n = Some tiers1"
    and t2: "tier_names (collect_aggregates rules seen2) ps n = Some tiers2"
  shows "set (active_keys seen (collect_aggregates rules seen1) tiers1) \<subseteq>
    set (active_keys seen (collect_aggregates rules seen2) tiers2)"
proof -
  have perm: "mset seen2 = mset seen1" using assms(1,2) by simp
  note corr = aggregate_orders [OF perm]
  have keys: "\<exists>agg'. (ak, agg') \<in> set (collect_aggregates rules seen2)"
    if "(ak, agg) \<in> set (collect_aggregates rules seen1)" for ak agg using corr [OF that] by blast
  have tiers: "(ak, t) \<in> set tiers2" if "(ak, t) \<in> set tiers1" for ak t
  proof -
    from that obtain pp where pp: "0 < n" "t \<noteq> ''''" "(ak, pp) \<in> set (collect_aggregates rules seen1)"
      "computeTierName (snd ak) pp ps (fst ak) n = Some t" using tier_names_iff [OF t1] by blast
    from corr [OF pp(3)] obtain pp' where "(ak, pp') \<in> set (collect_aggregates rules seen2)" "pp_count pp' = pp_count pp"
      "pd_NUMANodes (pp_representative pp') = pd_NUMANodes (pp_representative pp)" by blast
    with pp(1,2,4) computeTierName_cong [of pp' pp] show ?thesis by (subst tier_names_iff [OF t2]) metis
  qed
  show ?thesis unfolding active_keys_def using keys tiers by (force simp: image_iff)
qed

text \<open>The keys protected from the clean-up do not depend on the order of the loops.\<close>

lemma planned_active:
  assumes "all_orders_ok ro" "all_orders_ok ro'"
    and "planned ro d rules results = Some (classes, active)" and "planned ro' d rules results = Some (classes', active')"
  shows "set active = set active'"
proof -
  let ?seen = "collect_seen rules results" and ?ps = "concat (map pr_Partitions results)"
  let ?n = "pcie_root_count ?seen"
  obtain tiers tiers' where
    t: "tier_names (collect_aggregates rules (visit (ro 2) ?seen)) ?ps ?n = Some tiers"
      "active = active_keys ?seen (collect_aggregates rules (visit (ro 2) ?seen)) tiers"
    and t': "tier_names (collect_aggregates rules (visit (ro' 2) ?seen)) ?ps ?n = Some tiers'"
      "active' = active_keys ?seen (collect_aggregates rules (visit (ro' 2) ?seen)) tiers'"
    using assms(3,4) by (auto simp: planned_def Let_def)
  have perm: "mset (visit (ro 2) ?seen) = mset ?seen" "mset (visit (ro' 2) ?seen) = mset ?seen"
    using assms(1,2) by (auto intro: mset_visit all_orders_okD)
  show ?thesis unfolding t(2) t'(2)
    using active_orders [OF perm t(1) t'(1)] active_orders [OF perm(2,1) t'(1) t(1)] by blast
qed


section \<open>Errors are contained and repaired\<close>

lemma sync_run:
  assumes "all_orders_ok ro"
  obtains results classes active e w' where "BuildPartitions Q model rules = Some results"
    "planned ro driverName rules results = Some (classes, active)"
    "SyncDeviceClasses ro api driverName rules results w = Some (e, w')"
proof -
  obtain results where r: "BuildPartitions Q model rules = Some results" using BuildPartitions_total by blast
  obtain plan where "planned ro driverName rules results = Some plan" using planned_total [OF assms] by blast
  then obtain classes active where p: "planned ro driverName rules results = Some (classes, active)" by (cases plan) blast
  obtain out where "SyncDeviceClasses ro api driverName rules results w = Some out"
    unfolding SyncDeviceClasses_planned [OF p] by blast
  then show ?thesis using that [OF r p] by (cases out) simp
qed

text \<open>
  C11: whatever calls of the API fail, with or without effect, a synchronisation of the partitions of
  any model does no harm: each object of the cluster is as before (up to its resource version), or
  is a planned class under its name, or is gone and was a managed partition class whose labels
  spell no active key.  Nothing at all is deleted when a publication failed.
\<close>

theorem failed_sync_contained:
  assumes "api_safe api view" and "all_orders_ok ro"
  shows "\<exists>results classes active e w'. BuildPartitions Q model rules = Some results
    \<and> planned ro driverName rules results = Some (classes, active)
    \<and> SyncDeviceClasses ro api driverName rules results w = Some (e, w')
    \<and> contained classes ''partitionType'' (\<lambda>dc. label_key (dc_Labels dc) \<in> set active) (view w) (view w')
    \<and> (e = None \<or> touched classes (view w) (view w'))"
proof -
  obtain results classes active e w' where r: "BuildPartitions Q model rules = Some results"
    and p: "planned ro driverName rules results = Some (classes, active)"
    and sync: "SyncDeviceClasses ro api driverName rules results w = Some (e, w')"
    by (rule sync_run [OF assms(2)])
  note c = sync_contained [OF assms BuildPartitions_rooted [OF r] p sync]
  show ?thesis
    by (rule exI [of _ results], rule exI [of _ classes], rule exI [of _ active], rule exI [of _ e], rule exI [of _ w'])
      (use r p sync c in blast)
qed

text \<open>An API server that never creates anything, as one that is out of quota.\<close>

definition full_api :: "DeviceClass list dc_api" where
  "full_api = mem_api\<lparr>api_Create := \<lambda>dc w. (Some (ApiError ''quota exceeded''), w)\<rparr>"

lemma full_api_safe: "api_safe full_api mem_view"
  unfolding api_safe_def get_safe_def write_safe_def delete_safe_def list_safe_def
proof (intro conjI allI impI)
  fix w sel name
  assume "selects sel name"
  then have "name = (if sel = partition_selector then ''partitionType'' else ''grouping'')"
    using selectors_differ by (auto simp: selects_def)
  then show "case fst (api_List full_api sel w) of Inl e \<Rightarrow> True
      | Inr cs \<Rightarrow> set cs = {dc \<in> ran (mem_view w). managed_with name dc}"
    by (simp add: full_api_def mem_api_def mem_list_set del: if_split)
qed (simp_all add: full_api_def mem_api_def mem_view_store mem_view_delete mem_view_named split: option.splits)

theorem failed_sync_contained_witness:
  "\<exists>results classes active e w'. BuildPartitions decimal_lib example_model NewTopologyRuleStore = Some results
    \<and> planned (\<lambda>_. insertion_order) CoordinatorDriverName NewTopologyRuleStore results = Some (classes, active)
    \<and> SyncDeviceClasses (\<lambda>_. insertion_order) full_api CoordinatorDriverName NewTopologyRuleStore results [] = Some (e, w')
    \<and> (e = None \<or> touched classes (mem_view []) (mem_view w'))"
  using failed_sync_contained [OF full_api_safe insertion_orders_ok, of decimal_lib example_model NewTopologyRuleStore
      CoordinatorDriverName "[]"] by blast

lemma overwrite_prune_contained:
  assumes cont: "contained classes name live v v1" and names: "dc_Name ` set classes \<subseteq> dc_Name ` set classes'"
    and live: "\<And>dc. live (erase dc) = live dc"
  shows "overwrite (rev classes') (prune name live v1) = overwrite (rev classes') (prune name live v)"
proof
  fix n
  let ?m = "map_of (map (\<lambda>dc. (dc_Name dc, dc)) (rev classes'))"
  have over: "overwrite (rev classes') u n = (case ?m n of None \<Rightarrow> map_option erase (u n) | Some dc \<Rightarrow> Some (erase dc))" for u
    by (simp only: overwrite_def map_add_def o_def) (simp split: option.splits)
  have pr: "map_option erase (prune name live u n) =
      (case map_option erase (u n) of None \<Rightarrow> None | Some dc \<Rightarrow> if managed_with name dc \<and> \<not> live dc then None else Some dc)" for u
    using live by (auto simp: prune_def split: option.splits)
  show "overwrite (rev classes') (prune name live v1) n = overwrite (rev classes') (prune name live v) n"
  proof (cases "n \<in> dc_Name ` set classes'")
    case True
    moreover have "fst ` set (map (\<lambda>dc. (dc_Name dc, dc)) (rev classes')) = dc_Name ` set classes'" by (simp add: image_image)
    ultimately have "?m n \<noteq> None" by (simp only: map_of_eq_None_iff not_not)
    then show ?thesis unfolding over by auto
  next
    case False
    then have "n \<notin> dc_Name ` set classes" using names by blast
    with cont consider "map_option erase (v1 n) = map_option erase (v n)"
      | dc where "v1 n = None" "v n = Some dc" "managed_with name dc" "\<not> live dc" unfolding contained_def by blast
    then have "map_option erase (prune name live v1 n) = map_option erase (prune name live v n)"
    proof cases
      case 2
      then show ?thesis by (simp add: prune_def)
    qed (simp only: pr)
    then show ?thesis unfolding over by (simp split: option.splits)
  qed
qed




section \<open>Names shared by profiles\<close>

definition reverse_order :: range_order where
  "reverse_order n = rev [0..<n]"

lemma range_ok_reverse: "range_ok reverse_order"
  by (simp add: range_ok_def reverse_order_def)

definition two_profiles :: "PartitionResult list" where
  "two_profiles = map (\<lambda>(node, driver). \<lparr> pr_NodeName = node, pr_Profile = driver, pr_Partitions =
       [buildPartitionFromDevices (node @ ''-full-0'') node driver PartitionFull [example_device driver ''d0'' None 0 []]] \<rparr>)
     [(''a'', ''gpu''), (''b'', ''nic'')]"

definition full_profile :: "(nat \<Rightarrow> range_order) \<Rightarrow> string option" where
  "full_profile ro = Option.bind (planned ro CoordinatorDriverName NewTopologyRuleStore two_profiles) (\<lambda>(classes, active).
     map_option (\<lambda>dc. get_str (dc_Labels dc) (lbl ''profile'')) (find (\<lambda>dc. dc_Name dc = PartitionFull) (rev classes)))"

text \<open>
  The classes of full partitions, aggregates and tiers are named without the profile.  In a
  cluster with two kinds of nodes each kind plans a class \<open>full\<close>, and the one that stands is that
  of the kind which the loop over the map visits last: it can change with every reconciliation.
\<close>

theorem full_class_depends_on_order:
  "full_profile (\<lambda>_. insertion_order) = Some ''nic'' \<and> full_profile (\<lambda>_. reverse_order) = Some ''gpu''"
  by code_simp

end
