(* ===== verification/Controller.thy ===== *)
theory Controller
  imports Admission Sync_Errors
begin

text \<open>
  \<open>internal/controller/controller.go\<close>: the event handlers, the reconciliation and the start-up of
  the controller.  The rate-limited work queue only ever holds the key \<open>"reconcile"\<close>; it is the
  flag that this key is queued, delayed or marked for another round.  Each method runs
  atomically under the locks of the stores.  Metrics and log output are left out.
\<close>

section \<open>State\<close>

abbreviation (input) PartitionModeAuto :: string where "PartitionModeAuto \<equiv> ''auto''"
abbreviation (input) PartitionModePartitions :: string where "PartitionModePartitions \<equiv> ''partitions''"
abbreviation (input) PartitionModeGroupings :: string where "PartitionModeGroupings \<equiv> ''groupings''"

definition ValidPartitionMode :: "string \<Rightarrow> bool" where
  "ValidPartitionMode mode = (mode \<in> {PartitionModeAuto, PartitionModePartitions, PartitionModeGroupings})"

record Controller =
  c_driverName :: string
  c_partitionMode :: string
  c_model :: TopologyModel
  c_ruleStore :: TopologyRuleStore
  c_groupingStore :: GroupingStore
  c_synced :: bool
  c_queued :: bool

definition NewController :: "string \<Rightarrow> string \<Rightarrow> Controller" where
  "NewController driverName partitionMode =
    \<lparr> c_driverName = (if driverName = '''' then CoordinatorDriverName else driverName),
      c_partitionMode = (if partitionMode = '''' then PartitionModeAuto else partitionMode),
      c_model = NewTopologyModel, c_ruleStore = NewTopologyRuleStore, c_groupingStore = NewGroupingStore,
      c_synced = False, c_queued = False \<rparr>"

section \<open>Event handlers\<close>

text \<open>What an informer hands over: an object, or the last known state of a deleted one.\<close>

datatype cache_object = SliceObject ResourceSlice | ConfigMapObject ConfigMap | OtherObject

datatype informer_object = Current cache_object | Tombstone cache_object

definition as_slice_object :: "cache_object \<Rightarrow> ResourceSlice option" where
  "as_slice_object obj = (case obj of SliceObject sl \<Rightarrow> Some sl | _ \<Rightarrow> None)"

definition as_config_map :: "cache_object \<Rightarrow> ConfigMap option" where
  "as_config_map obj = (case obj of ConfigMapObject cm \<Rightarrow> Some cm | _ \<Rightarrow> None)"

definition enqueue :: "Controller \<Rightarrow> Controller" where
  "enqueue c = c\<lparr>c_queued := True\<rparr>"

definition enqueue_synced :: "Controller \<Rightarrow> Controller" where
  "enqueue_synced c = (if c_synced c then enqueue c else c)"

definition onSliceAdd :: "informer_object \<Rightarrow> Controller \<Rightarrow> Controller" where
  "onSliceAdd obj c = (case obj of
     Current (SliceObject sl) \<Rightarrow> enqueue_synced (c\<lparr>c_model := UpdateFromResourceSlice (Some sl) (c_model c)\<rparr>)
   | _ \<Rightarrow> c)"

definition onSliceUpdate :: "informer_object \<Rightarrow> Controller \<Rightarrow> Controller" where
  "onSliceUpdate obj c = (case obj of
     Current (SliceObject sl) \<Rightarrow> enqueue_synced (c\<lparr>c_model := UpdateFromResourceSlice (Some sl) (c_model c)\<rparr>)
   | _ \<Rightarrow> c)"

definition deleted_object :: "informer_object \<Rightarrow> cache_object" where
  "deleted_object obj = (case obj of Current o1 \<Rightarrow> o1 | Tombstone o1 \<Rightarrow> o1)"

definition onSliceDelete :: "informer_object \<Rightarrow> Controller \<Rightarrow> Controller" where
  "onSliceDelete obj c = (case as_slice_object (deleted_object obj) of
     Some sl \<Rightarrow> enqueue (c\<lparr>c_model := RemoveResourceSlice (Some sl) (c_model c)\<rparr>)
   | None \<Rightarrow> c)"

definition load_rule :: "informer_object \<Rightarrow> Controller \<Rightarrow> Controller" where
  "load_rule obj c = (case obj of
     Current (ConfigMapObject cm) \<Rightarrow>
       if get_str (cm_Labels cm) TopologyRuleLabel \<noteq> ''true'' then c
       else (case LoadRule (Some cm) (c_ruleStore c) of
               Inl e \<Rightarrow> c | Inr s \<Rightarrow> enqueue (c\<lparr>c_ruleStore := s\<rparr>))
   | _ \<Rightarrow> c)"

definition onConfigMapAdd :: "informer_object \<Rightarrow> Controller \<Rightarrow> Controller" where
  "onConfigMapAdd obj c = load_rule obj c"

definition onConfigMapUpdate :: "informer_object \<Rightarrow> Controller \<Rightarrow> Controller" where
  "onConfigMapUpdate obj c = load_rule obj c"

definition onConfigMapDelete :: "informer_object \<Rightarrow> Controller \<Rightarrow> Controller" where
  "onConfigMapDelete obj c = (case as_config_map (deleted_object obj) of None \<Rightarrow> c
     | Some cm \<Rightarrow>
         if get_str (cm_Labels cm) TopologyRuleLabel \<noteq> ''true'' then c
         else enqueue (c\<lparr>c_ruleStore := RemoveRule (cm_Namespace cm) (cm_Name cm) (c_ruleStore c)\<rparr>))"

definition load_grouping :: "yaml_decoder \<Rightarrow> informer_object \<Rightarrow> Controller \<Rightarrow> Controller" where
  "load_grouping Y obj c = (case obj of
     Current (ConfigMapObject cm) \<Rightarrow>
       if get_str (cm_Labels cm) DeviceGroupingLabel \<noteq> ''true'' then c
       else (case LoadFromConfigMap Y (Some cm) (c_groupingStore c) of
               Inl e \<Rightarrow> c | Inr s \<Rightarrow> enqueue_synced (c\<lparr>c_groupingStore := s\<rparr>))
   | _ \<Rightarrow> c)"

definition onGroupingConfigMapAdd :: "yaml_decoder \<Rightarrow> informer_object \<Rightarrow> Controller \<Rightarrow> Controller" where
  "onGroupingConfigMapAdd Y obj c = load_grouping Y obj c"

definition onGroupingConfigMapUpdate :: "yaml_decoder \<Rightarrow> informer_object \<Rightarrow> Controller \<Rightarrow> Controller" where
  "onGroupingConfigMapUpdate Y obj c = load_grouping Y obj c"

definition onGroupingConfigMapDelete :: "informer_object \<Rightarrow> Controller \<Rightarrow> Controller" where
  "onGroupingConfigMapDelete obj c = (case as_config_map (deleted_object obj) of None \<Rightarrow> c
     | Some cm \<Rightarrow>
         if get_str (cm_Labels cm) DeviceGroupingLabel \<noteq> ''true'' then c
         else enqueue (c\<lparr>c_groupingStore := RemoveConfigMap (cm_Namespace cm) (cm_Name cm) (c_groupingStore c)\<rparr>))"

section \<open>Reconciliation\<close>

definition mergeGroupings :: "range_order \<Rightarrow> DeviceGrouping list \<Rightarrow> DeviceGrouping list \<Rightarrow> DeviceGrouping list" where
  "mergeGroupings order autoDetected userDefined =
     map snd (visit order (foldl (\<lambda>m g. put (dg_Name g) g m) (foldl (\<lambda>m g. put (dg_Name g) g m) [] autoDetected) userDefined))"

definition countGroupingDeviceClasses :: "GroupingResult list \<Rightarrow> int" where
  "countGroupingDeviceClasses results = int (length (foldl (\<lambda>seen r.
     foldl (\<lambda>seen inst. set_add (gi_GroupingName inst @ ''-'' @ gi_Alignment inst) seen) seen (gr_Instances r)) [] results))"

definition countDeviceClasses :: "PartitionResult list \<Rightarrow> int" where
  "countDeviceClasses results = int (length (foldl (\<lambda>seen r.
     foldl (\<lambda>seen p. set_add (pr_Profile r @ ''-'' @ pd_Type p) seen) seen (pr_Partitions r)) [] results))"

text \<open>The result of a reconciliation: an error or the counts of nodes, partition and grouping classes.\<close>

datatype reconcile_error = PartitionSync sync_error | GroupingSync sync_error

definition reconcile_partitions ::
  "(nat \<Rightarrow> range_order) \<Rightarrow> quantity_lib \<Rightarrow> 'w dc_api \<Rightarrow> Controller \<Rightarrow> 'w \<Rightarrow>
     ((reconcile_error + int \<times> int) \<times> 'w) option" where
  "reconcile_partitions ro Q api c w =
    (if c_partitionMode c = PartitionModeGroupings then Some (Inr (0, 0), w)
     else do {
       results \<leftarrow> BuildPartitions Q (c_model c) (c_ruleStore c);
       r \<leftarrow> SyncDeviceClasses ro api (NewDeviceClassManager (c_driverName c)) (c_ruleStore c) results w;
       Some (case r of (Some e, w1) \<Rightarrow> (Inl (PartitionSync e), w1)
         | (None, w1) \<Rightarrow> (Inr (int (length results), countDeviceClasses results), w1))
     })"

definition reconcile_groupings ::
  "(nat \<Rightarrow> range_order) \<Rightarrow> (nat \<Rightarrow> nat) \<Rightarrow> 'w dc_api \<Rightarrow> Controller \<Rightarrow> DeviceGrouping list \<Rightarrow> 'w \<Rightarrow>
     ((reconcile_error + int) \<times> 'w) option" where
  "reconcile_groupings ro cap api c groupings w =
    (if c_partitionMode c = PartitionModePartitions then Some (Inr 0, w)
     else let merged = mergeGroupings (ro 3) (DetectPCIeRootPairings (c_model c) (c_ruleStore c)) groupings in
       if merged = [] then Some (Inr 0, w)
       else do {
         results \<leftarrow> BuildGroupings cap (c_model c) (c_ruleStore c) merged;
         Some (case SyncGroupingDeviceClasses ro api (NewDeviceClassManager (c_driverName c)) (c_ruleStore c) results w of
             (Some e, w1) \<Rightarrow> (Inl (GroupingSync e), w1)
           | (None, w1) \<Rightarrow> (Inr (countGroupingDeviceClasses results), w1))
       })"

definition reconcile ::
  "(nat \<Rightarrow> range_order) \<Rightarrow> quantity_lib \<Rightarrow> (nat \<Rightarrow> nat) \<Rightarrow> 'w dc_api \<Rightarrow> Controller \<Rightarrow> 'w \<Rightarrow>
     ((reconcile_error + int \<times> int \<times> int) \<times> Controller \<times> 'w) option" where
  "reconcile ro Q cap api c w =
    (let c1 = c\<lparr>c_model := SetRules (GetRules (c_ruleStore c)) (c_model c)\<rparr>;
         groupings = GetGroupings (c_groupingStore c)
     in do {
       (p, w1) \<leftarrow> reconcile_partitions ro Q api c1 w;
       case p of Inl e \<Rightarrow> Some (Inl e, c1, w1)
       | Inr (nodeCount, partitionCount) \<Rightarrow>
           do {
             (g, w2) \<leftarrow> reconcile_groupings (\<lambda>i. ro (5 + i)) cap api c1 groupings w1;
             Some (case g of Inl e \<Rightarrow> (Inl e, c1, w2)
               | Inr groupingCount \<Rightarrow> (Inr (nodeCount, partitionCount, groupingCount), c1, w2))
           }
     })"

section \<open>Start-up\<close>

text \<open>Loading the informer stores: objects of another type are skipped, bad ConfigMaps too.\<close>

definition load_slices :: "cache_object list \<Rightarrow> TopologyModel \<Rightarrow> TopologyModel" where
  "load_slices objs m = foldl (\<lambda>m obj. case obj of SliceObject sl \<Rightarrow> UpdateFromResourceSlice (Some sl) m | _ \<Rightarrow> m) m objs"

definition load_rules :: "cache_object list \<Rightarrow> TopologyRuleStore \<Rightarrow> TopologyRuleStore" where
  "load_rules objs s = foldl (\<lambda>s obj. case obj of
     ConfigMapObject cm \<Rightarrow> (case LoadRule (Some cm) s of Inl e \<Rightarrow> s | Inr s' \<Rightarrow> s') | _ \<Rightarrow> s) s objs"

definition load_groupings :: "yaml_decoder \<Rightarrow> cache_object list \<Rightarrow> GroupingStore \<Rightarrow> GroupingStore" where
  "load_groupings Y objs s = foldl (\<lambda>s obj. case obj of
     ConfigMapObject cm \<Rightarrow> (case LoadFromConfigMap Y (Some cm) s of Inl e \<Rightarrow> s | Inr s' \<Rightarrow> s') | _ \<Rightarrow> s) s objs"

definition load_stores :: "yaml_decoder \<Rightarrow> cache_object list \<Rightarrow> cache_object list \<Rightarrow> cache_object list \<Rightarrow> Controller \<Rightarrow> Controller" where
  "load_stores Y slices cms gcms c =
    (let m = load_slices slices (c_model c); rs = load_rules cms (c_ruleStore c)
     in c\<lparr>c_model := SetRules (GetRules rs) m, c_ruleStore := rs, c_groupingStore := load_groupings Y gcms (c_groupingStore c)\<rparr>)"


section \<open>Merged groupings\<close>

lemma find_app: "find P (xs @ ys) = (case find P xs of Some x \<Rightarrow> Some x | None \<Rightarrow> find P ys)"
  by (induction xs) simp_all

lemma put_names:
  "map_of (foldl (\<lambda>m g. put (dg_Name g) g m) m gs) n =
    (case find (\<lambda>g. dg_Name g = n) (rev gs) of Some g \<Rightarrow> Some g | None \<Rightarrow> map_of m n)"
proof (induction gs arbitrary: m rule: rev_induct)
  case (snoc g gs)
  then show ?case by (simp split: option.splits)
qed simp

lemma put_names_wf: "wf_map m \<Longrightarrow> wf_map (foldl (\<lambda>m g. put (dg_Name g) g m) m gs)"
  by (induction gs arbitrary: m) simp_all

definition keyed :: "(string, DeviceGrouping) gomap \<Rightarrow> bool" where
  "keyed m = list_all (\<lambda>(n, g). dg_Name g = n) m"

lemma put_keyed: "keyed m \<Longrightarrow> keyed (put (dg_Name g) g m)"
  unfolding keyed_def list_all_iff put_def by (induction m) (auto split: if_splits)

lemma put_names_keyed: "keyed m \<Longrightarrow> keyed (foldl (\<lambda>m g. put (dg_Name g) g m) m gs)"
  by (induction gs arbitrary: m) (simp_all add: put_keyed)

text \<open>
  The merged groupings have distinct names; a name of a user-defined grouping stands for the
  last user-defined grouping of that name, any other name for the last detected one.
\<close>

theorem mergeGroupings_overrides:
  assumes "range_ok order"
  shows "distinct (map dg_Name (mergeGroupings order autoDetected userDefined))
   \<and> (g \<in> set (mergeGroupings order autoDetected userDefined) \<longleftrightarrow>
        find (\<lambda>h. dg_Name h = dg_Name g) (rev userDefined @ rev autoDetected) = Some g)"
proof -
  define m where "m = foldl (\<lambda>m g. put (dg_Name g) g m) (foldl (\<lambda>m g. put (dg_Name g) g m) [] autoDetected) userDefined"
  have wf: "wf_map m" unfolding m_def by (intro put_names_wf) simp
  have "keyed m" unfolding m_def by (intro put_names_keyed) (simp add: keyed_def)
  then have key: "dg_Name g = n" if "(n, g) \<in> set m" for n g using that by (auto simp: keyed_def list_all_iff)
  have merged: "mergeGroupings order autoDetected userDefined = map snd (visit order m)" by (simp add: mergeGroupings_def m_def)
  have vm: "set (visit order m) = set m" by (rule set_visit [OF assms])
  have names: "map dg_Name (map snd (visit order m)) = map fst (visit order m)" using key vm by (auto simp: map_eq_conv)
  have mem: "g \<in> set (map snd (visit order m)) \<longleftrightarrow> map_of m (dg_Name g) = Some g"
  proof
    assume "g \<in> set (map snd (visit order m))"
    with vm obtain n where n: "(n, g) \<in> set m" by auto
    with wf have "map_of m n = Some g" by simp
    with key [OF n] show "map_of m (dg_Name g) = Some g" by simp
  next
    assume "map_of m (dg_Name g) = Some g"
    then show "g \<in> set (map snd (visit order m))" using map_of_SomeD vm by force
  qed
  have look: "map_of m n = find (\<lambda>h. dg_Name h = n) (rev userDefined @ rev autoDetected)" for n
    by (simp add: m_def put_names find_app split: option.splits)
  show ?thesis unfolding merged names mem look using wf_map_visit(1) [OF assms wf] by simp
qed

section \<open>The controller as a state machine\<close>

datatype handler = SliceAdd | SliceUpdate | SliceDelete | RuleAdd | RuleUpdate | RuleDelete
  | GroupingAdd | GroupingUpdate | GroupingDelete

fun handle :: "yaml_decoder \<Rightarrow> handler \<Rightarrow> informer_object \<Rightarrow> Controller \<Rightarrow> Controller" where
  "handle Y SliceAdd = onSliceAdd"
| "handle Y SliceUpdate = onSliceUpdate"
| "handle Y SliceDelete = onSliceDelete"
| "handle Y RuleAdd = onConfigMapAdd"
| "handle Y RuleUpdate = onConfigMapUpdate"
| "handle Y RuleDelete = onConfigMapDelete"
| "handle Y GroupingAdd = onGroupingConfigMapAdd Y"
| "handle Y GroupingUpdate = onGroupingConfigMapUpdate Y"
| "handle Y GroupingDelete = onGroupingConfigMapDelete"

text \<open>What a reconciliation computes from.\<close>

type_synonym snapshot = "(string, rawSliceData) gomap \<times> TopologyRuleStore \<times> GroupingStore"

definition snapshot :: "Controller \<Rightarrow> snapshot" where
  "snapshot c = (tm_rawSlices (c_model c), c_ruleStore c, c_groupingStore c)"

lemmas handler_defs = onSliceAdd_def onSliceUpdate_def onSliceDelete_def onConfigMapAdd_def onConfigMapUpdate_def
  onConfigMapDelete_def onGroupingConfigMapAdd_def onGroupingConfigMapUpdate_def onGroupingConfigMapDelete_def
  load_rule_def load_grouping_def enqueue_def enqueue_synced_def

lemma handle_synced [simp]: "c_synced (handle Y h obj c) = c_synced c"
  by (cases h) (simp_all add: handler_defs split: informer_object.splits cache_object.splits option.splits sum.splits)

lemma handle_keeps_queued: "c_queued c \<Longrightarrow> c_queued (handle Y h obj c)"
  by (cases h) (simp_all add: handler_defs split: informer_object.splits cache_object.splits option.splits sum.splits)

lemma handle_enqueues: "c_synced c \<Longrightarrow> c_queued (handle Y h obj c) \<or> snapshot (handle Y h obj c) = snapshot c"
  by (cases h) (simp_all add: handler_defs split: informer_object.splits cache_object.splits option.splits sum.splits)

text \<open>
  The phases of \<open>Run\<close>: the caches are filling; the stores are loaded and the worker runs; the
  first reconciliation is queued; \<open>synced\<close> is set.  \<open>r_seen\<close> is the snapshot at the last start of
  a reconciliation, \<open>r_lost\<close> notes an event between the last two phases that was not queued.
\<close>

datatype phase = Filling | Working | Enqueued | Running

record run_state =
  r_ctl :: Controller
  r_phase :: phase
  r_busy :: bool
  r_seen :: "snapshot option"
  r_lost :: bool

definition event_result :: "yaml_decoder \<Rightarrow> handler \<Rightarrow> informer_object \<Rightarrow> run_state \<Rightarrow> run_state" where
  "event_result Y h obj s = (let c = handle Y h obj (r_ctl s) in
     s\<lparr>r_ctl := c, r_lost := (r_lost s \<or> r_phase s = Enqueued \<and> \<not> c_queued c \<and> snapshot c \<noteq> snapshot (r_ctl s))\<rparr>)"

definition get_result :: "run_state \<Rightarrow> run_state" where
  "get_result s = (let c = r_ctl s in
     s\<lparr>r_busy := True, r_seen := Some (snapshot c),
       r_ctl := c\<lparr>c_queued := False, c_model := SetRules (GetRules (c_ruleStore c)) (c_model c)\<rparr>\<rparr>)"

inductive run_step :: "yaml_decoder \<Rightarrow> run_state \<Rightarrow> run_state \<Rightarrow> bool" for Y where
  event: "run_step Y s (event_result Y h obj s)"
| load: "r_phase s = Filling \<Longrightarrow> run_step Y s (s\<lparr>r_phase := Working, r_ctl := load_stores Y slices cms gcms (r_ctl s)\<rparr>)"
| first: "r_phase s = Working \<Longrightarrow> run_step Y s (s\<lparr>r_phase := Enqueued, r_ctl := enqueue (r_ctl s)\<rparr>)"
| mark: "r_phase s = Enqueued \<Longrightarrow> run_step Y s (s\<lparr>r_phase := Running, r_ctl := (r_ctl s)\<lparr>c_synced := True\<rparr>\<rparr>)"
| get: "r_phase s \<noteq> Filling \<Longrightarrow> \<not> r_busy s \<Longrightarrow> c_queued (r_ctl s) \<Longrightarrow> run_step Y s (get_result s)"
| finished: "r_busy s \<Longrightarrow> run_step Y s (s\<lparr>r_busy := False\<rparr>)"
| failed: "r_busy s \<Longrightarrow> run_step Y s (s\<lparr>r_busy := False, r_ctl := enqueue (r_ctl s)\<rparr>)"

inductive_cases run_stepE: "run_step Y s s'"

definition run_start :: "string \<Rightarrow> string \<Rightarrow> run_state" where
  "run_start driverName mode = \<lparr> r_ctl = NewController driverName mode, r_phase = Filling, r_busy = False,
     r_seen = None, r_lost = False \<rparr>"

definition reachable :: "yaml_decoder \<Rightarrow> string \<Rightarrow> string \<Rightarrow> run_state \<Rightarrow> bool" where
  "reachable Y d mode s = (run_step Y)\<^sup>*\<^sup>* (run_start d mode) s"

definition up_to_date :: "run_state \<Rightarrow> bool" where
  "up_to_date s = (c_queued (r_ctl s) \<or> r_seen s = Some (snapshot (r_ctl s)))"

definition run_inv :: "run_state \<Rightarrow> bool" where
  "run_inv s = ((r_phase s = Running \<longrightarrow> c_synced (r_ctl s)) \<and>
     (r_phase s \<in> {Enqueued, Running} \<and> \<not> r_lost s \<longrightarrow> up_to_date s))"

lemma snapshot_simps [simp]:
  "snapshot (c\<lparr>c_queued := q\<rparr>) = snapshot c" "snapshot (c\<lparr>c_synced := b\<rparr>) = snapshot c"
  "snapshot (c\<lparr>c_model := SetRules rs (c_model c)\<rparr>) = snapshot c" "snapshot (enqueue c) = snapshot c"
  by (simp_all add: snapshot_def enqueue_def)

lemma run_inv_step: "run_step Y s s' \<Longrightarrow> run_inv s \<Longrightarrow> run_inv s'"
proof (induction rule: run_step.induct)
  case (event s h obj)
  define c where "c = handle Y h obj (r_ctl s)"
  have res: "r_ctl (event_result Y h obj s) = c" "r_phase (event_result Y h obj s) = r_phase s" "r_seen (event_result Y h obj s) = r_seen s"
    "r_lost (event_result Y h obj s) \<longleftrightarrow> r_lost s \<or> r_phase s = Enqueued \<and> \<not> c_queued c \<and> snapshot c \<noteq> snapshot (r_ctl s)"
    by (simp_all add: event_result_def Let_def c_def)
  have sync: "c_synced c = c_synced (r_ctl s)" by (simp add: c_def)
  have keep: "c_queued (r_ctl s) \<Longrightarrow> c_queued c" unfolding c_def by (rule handle_keeps_queued)
  have enq: "c_synced (r_ctl s) \<Longrightarrow> c_queued c \<or> snapshot c = snapshot (r_ctl s)" unfolding c_def by (rule handle_enqueues)
  from event show ?case unfolding run_inv_def up_to_date_def res sync using keep enq by auto
next
  case (get s)
  then show ?case by (simp add: run_inv_def up_to_date_def get_result_def Let_def snapshot_def)
qed (simp_all add: run_inv_def up_to_date_def enqueue_def)

interpretation queueing: step_invariant "\<lambda>s. s = run_start d mode" "run_step Y" run_inv for d mode Y
proof unfold_locales
  show "run_inv s" if "s = run_start d mode" for s using that by (simp add: run_inv_def run_start_def)
qed (rule run_inv_step)

lemma reachable_inv: "reachable Y d mode s \<Longrightarrow> run_inv s"
  unfolding reachable_def using queueing.always [of "run_start d mode" d mode Y s] by simp

text \<open>
  C9: once the controller runs, no change is forgotten: in every reachable state after start-up, in
  any interleaving of events, reconciliations and failures, either a reconciliation is queued or
  the last one started from the slices, rules and groupings of now; the only exception is an event
  lost in the window just before \<open>synced\<close> is set.
\<close>

theorem no_change_forgotten:
  assumes "reachable Y d mode s" and "r_phase s = Running" and "\<not> r_lost s"
  shows "c_queued (r_ctl s) \<or> r_seen s = Some (snapshot (r_ctl s))"
  using reachable_inv [OF assms(1)] assms(2,3) by (simp add: run_inv_def up_to_date_def)


lemma reachable_start: "reachable Y d mode (run_start d mode)"
  by (simp add: reachable_def)

lemma reachable_step: "reachable Y d mode s \<Longrightarrow> run_step Y s s' \<Longrightarrow> reachable Y d mode s'"
  unfolding reachable_def by (rule rtranclp.rtrancl_into_rtrancl)

definition example_started :: "run_state" where
  "example_started = (let c = enqueue (load_stores (\<lambda>_. None) [] [] [] (NewController '''' ''''))
     in (run_start '''' '''')\<lparr>r_phase := Enqueued, r_ctl := c\<rparr>)"

lemma example_started_reachable: "reachable (\<lambda>_. None) '''' '''' example_started"
proof -
  let ?s1 = "(run_start '''' '''')\<lparr>r_phase := Working, r_ctl := load_stores (\<lambda>_. None) [] [] [] (r_ctl (run_start '''' ''''))\<rparr>"
  have "run_step (\<lambda>_. None) (run_start '''' '''') ?s1" by (rule run_step.load) (simp add: run_start_def)
  moreover have "run_step (\<lambda>_. None) ?s1 (?s1\<lparr>r_phase := Enqueued, r_ctl := enqueue (r_ctl ?s1)\<rparr>)" by (rule run_step.first) simp
  moreover have "?s1\<lparr>r_phase := Enqueued, r_ctl := enqueue (r_ctl ?s1)\<rparr> = example_started"
    by (simp add: example_started_def Let_def run_start_def)
  ultimately show ?thesis using reachable_start reachable_step by metis
qed

definition example_running :: run_state where
  "example_running = example_started\<lparr>r_phase := Running, r_ctl := (r_ctl example_started)\<lparr>c_synced := True\<rparr>\<rparr>"

lemma example_running_reachable: "reachable (\<lambda>_. None) '''' '''' example_running"
  unfolding example_running_def
  by (rule reachable_step [OF example_started_reachable run_step.mark]) (simp add: example_started_def Let_def)

theorem no_change_forgotten_witness:
  "c_queued (r_ctl example_running) \<or> r_seen example_running = Some (snapshot (r_ctl example_running))"
  by (rule no_change_forgotten [OF example_running_reachable])
    (simp_all add: example_running_def example_started_def Let_def run_start_def)

text \<open>
  A change can be lost at start-up.  The first reconciliation is queued before \<open>synced\<close> is set,
  and slice handlers do not queue while it is not: when the worker takes the key at once and a
  slice arrives before the flag is set, the running controller is idle, nothing is queued, and the
  last reconciliation has not seen the slice.
\<close>

theorem startup_loses_event:
  "\<exists>s. reachable (\<lambda>_. None) '''' '''' s \<and> r_phase s = Running \<and> c_synced (r_ctl s) \<and> \<not> c_queued (r_ctl s) \<and> \<not> r_busy s
     \<and> r_seen s \<noteq> Some (snapshot (r_ctl s))"
proof -
  define sl where "sl = example_slice ''s1'' ''gpu'' ''node1''"
  define s1 where "s1 = get_result example_started"
  define s2 where "s2 = s1\<lparr>r_busy := False\<rparr>"
  define s3 where "s3 = event_result (\<lambda>_. None) SliceAdd (Current (SliceObject sl)) s2"
  define s4 where "s4 = s3\<lparr>r_phase := Running, r_ctl := (r_ctl s3)\<lparr>c_synced := True\<rparr>\<rparr>"
  have "reachable (\<lambda>_. None) '''' '''' s1" unfolding s1_def
    by (rule reachable_step [OF example_started_reachable run_step.get]) (simp_all add: example_started_def Let_def run_start_def enqueue_def)
  then have "reachable (\<lambda>_. None) '''' '''' s2" unfolding s2_def
    by (rule reachable_step [OF _ run_step.finished]) (simp add: s1_def get_result_def Let_def)
  then have "reachable (\<lambda>_. None) '''' '''' s3" unfolding s3_def by (rule reachable_step [OF _ run_step.event])
  then have "reachable (\<lambda>_. None) '''' '''' s4" unfolding s4_def
    by (rule reachable_step [OF _ run_step.mark])
      (simp add: s3_def s2_def s1_def event_result_def get_result_def Let_def example_started_def)
  moreover have c2: "tm_rawSlices (c_model (r_ctl s2)) = []" "\<not> c_synced (r_ctl s2)" "\<not> c_queued (r_ctl s2)" "\<not> r_busy s2"
    "r_seen s2 = Some (snapshot (r_ctl s2))"
    by (simp_all add: s2_def s1_def get_result_def Let_def example_started_def load_stores_def load_slices_def load_rules_def
      enqueue_def NewController_def NewTopologyModel_def snapshot_def)
  moreover have ctl: "r_ctl s3 = (r_ctl s2)\<lparr>c_model := UpdateFromResourceSlice (Some sl) (c_model (r_ctl s2))\<rparr>"
    "r_busy s3 = r_busy s2" "r_seen s3 = r_seen s2"
    using c2(2) by (simp_all add: s3_def event_result_def Let_def onSliceAdd_def enqueue_synced_def)
  moreover have "tm_rawSlices (UpdateFromResourceSlice (Some sl) (c_model (r_ctl s2))) \<noteq> []"
    by (simp add: UpdateFromResourceSlice_def sl_def example_slice_def slice_node_def)
  then have "snapshot (r_ctl s4) \<noteq> snapshot (r_ctl s2)" using c2(1) ctl(1) by (simp add: s4_def snapshot_def)
  moreover have "r_seen s4 = r_seen s2" "r_busy s4 = r_busy s2" "c_queued (r_ctl s4) = c_queued (r_ctl s2)" "r_phase s4 = Running" "c_synced (r_ctl s4)"
    using ctl by (simp_all add: s4_def)
  ultimately show ?thesis by (intro exI [of _ s4]) simp
qed


text \<open>
  The controller can always catch up: from every reachable running state that lost no event,
  without any further event, the worker alone reaches a state that is idle with nothing queued and
  whose last reconciliation started from the slices, rules and groupings of now.
\<close>

theorem worker_catches_up:
  assumes "reachable Y d mode s" and "r_phase s = Running" and "\<not> r_lost s"
  shows "\<exists>s'. (run_step Y)\<^sup>*\<^sup>* s s' \<and> \<not> c_queued (r_ctl s') \<and> \<not> r_busy s'
    \<and> r_seen s' = Some (snapshot (r_ctl s')) \<and> snapshot (r_ctl s') = snapshot (r_ctl s)"
proof -
  define s1 where "s1 = s\<lparr>r_busy := False\<rparr>"
  have s1: "(run_step Y)\<^sup>*\<^sup>* s s1"
  proof (cases "r_busy s")
    case True
    then show ?thesis unfolding s1_def by (intro r_into_rtranclp run_step.finished)
  next
    case False
    then have "s1 = s" by (simp add: s1_def)
    then show ?thesis by simp
  qed
  have upd: "c_queued (r_ctl s1) \<or> r_seen s1 = Some (snapshot (r_ctl s1))" "r_phase s1 = Running" "\<not> r_busy s1"
    "snapshot (r_ctl s1) = snapshot (r_ctl s)"
    using reachable_inv [OF assms(1)] assms(2,3) by (simp_all add: run_inv_def up_to_date_def s1_def)
  show ?thesis
  proof (cases "c_queued (r_ctl s1)")
    case True
    define s2 where "s2 = get_result s1"
    define s3 where "s3 = s2\<lparr>r_busy := False\<rparr>"
    have "run_step Y s1 s2" unfolding s2_def using True upd by (intro run_step.get) simp_all
    moreover have "run_step Y s2 s3" unfolding s3_def by (rule run_step.finished) (simp add: s2_def get_result_def Let_def)
    ultimately have "(run_step Y)\<^sup>*\<^sup>* s s3" using s1 by (meson rtranclp.rtrancl_into_rtrancl)
    moreover have "\<not> c_queued (r_ctl s3)" "\<not> r_busy s3" "r_seen s3 = Some (snapshot (r_ctl s1))" "snapshot (r_ctl s3) = snapshot (r_ctl s1)"
      by (simp_all add: s3_def s2_def get_result_def Let_def snapshot_def)
    ultimately show ?thesis using upd(4) by auto
  next
    case False
    with s1 upd show ?thesis by blast
  qed
qed

theorem worker_catches_up_witness:
  "\<exists>s'. (run_step (\<lambda>_. None))\<^sup>*\<^sup>* example_running s' \<and> \<not> c_queued (r_ctl s') \<and> \<not> r_busy s'
    \<and> r_seen s' = Some (snapshot (r_ctl s')) \<and> snapshot (r_ctl s') = snapshot (r_ctl example_running)"
  by (rule worker_catches_up [OF example_running_reachable])
    (simp_all add: example_running_def example_started_def Let_def run_start_def)

section \<open>The stores of a running controller\<close>

text \<open>
  The model and the two stores are only changed through their own operations, so each of them is
  the outcome of a sequence of its events, and the facts about such sequences hold in every state.
\<close>

definition model_reached :: "TopologyModel \<Rightarrow> bool" where
  "model_reached m = (\<exists>evs. m = model_run evs)"

definition rules_reached :: "TopologyRuleStore \<Rightarrow> bool" where
  "rules_reached st = (\<exists>evs. st = store_run LoadRule RemoveRule evs)"

definition groupings_reached :: "yaml_decoder \<Rightarrow> GroupingStore \<Rightarrow> bool" where
  "groupings_reached Y st = (\<exists>evs. st = store_run (LoadFromConfigMap Y) RemoveConfigMap evs)"

definition stores_inv :: "yaml_decoder \<Rightarrow> run_state \<Rightarrow> bool" where
  "stores_inv Y s = (model_reached (c_model (r_ctl s)) \<and> rules_reached (c_ruleStore (r_ctl s))
     \<and> groupings_reached Y (c_groupingStore (r_ctl s)))"

lemma store_run_snoc: "store_run load remove (evs @ [e]) = store_step load remove e (store_run load remove evs)"
  by (simp add: store_run_def)

lemma model_reached_step: "model_reached m \<Longrightarrow> model_reached (model_step e m)"
  unfolding model_reached_def using model_run_snoc by metis

lemma model_reached_ops [intro]:
  assumes "model_reached m"
  shows "model_reached (UpdateFromResourceSlice slo m)" "model_reached (RemoveResourceSlice slo m)"
    "model_reached (SetRules rs m)"
  using model_reached_step [OF assms, of "SliceUpserted slo"] model_reached_step [OF assms, of "SliceDeleted slo"]
    model_reached_step [OF assms, of "RulesChanged rs"] by simp_all

lemma rules_reached_step: "rules_reached st \<Longrightarrow> rules_reached (store_step LoadRule RemoveRule e st)"
  unfolding rules_reached_def using store_run_snoc by metis

lemma rules_reached_ops [intro]:
  assumes "rules_reached st"
  shows "LoadRule cmo st = Inr st' \<Longrightarrow> rules_reached st'" "rules_reached (RemoveRule ns n st)"
  using rules_reached_step [OF assms, of "Loaded cmo"] rules_reached_step [OF assms, of "Removed ns n"] by simp_all

lemma groupings_reached_step:
  "groupings_reached Y st \<Longrightarrow> groupings_reached Y (store_step (LoadFromConfigMap Y) RemoveConfigMap e st)"
  unfolding groupings_reached_def using store_run_snoc by metis

lemma groupings_reached_ops [intro]:
  assumes "groupings_reached Y st"
  shows "LoadFromConfigMap Y cmo st = Inr st' \<Longrightarrow> groupings_reached Y st'" "groupings_reached Y (RemoveConfigMap ns n st)"
  using groupings_reached_step [OF assms, of "Loaded cmo"] groupings_reached_step [OF assms, of "Removed ns n"] by simp_all

lemma foldl_keeps: "(\<And>s x. P s \<Longrightarrow> P (f s x)) \<Longrightarrow> P s \<Longrightarrow> P (foldl f s xs)"
  by (induction xs arbitrary: s) auto

lemma load_reached:
  "model_reached m \<Longrightarrow> model_reached (load_slices objs m)"
  "rules_reached rs \<Longrightarrow> rules_reached (load_rules objs rs)"
  "groupings_reached Y gs \<Longrightarrow> groupings_reached Y (load_groupings Y objs gs)"
  unfolding load_slices_def load_rules_def load_groupings_def
  by (erule foldl_keeps [rotated], auto split: cache_object.splits sum.splits)+

lemma handle_reached:
  assumes "model_reached (c_model c)" and "rules_reached (c_ruleStore c)" and "groupings_reached Y (c_groupingStore c)"
  shows "model_reached (c_model (handle Y h obj c))" "rules_reached (c_ruleStore (handle Y h obj c))"
    "groupings_reached Y (c_groupingStore (handle Y h obj c))"
  using assms by (cases h; auto simp: handler_defs split: informer_object.splits cache_object.splits option.splits sum.splits)+

lemma stores_inv_step: "run_step Y s s' \<Longrightarrow> stores_inv Y s \<Longrightarrow> stores_inv Y s'"
  by (erule run_stepE)
    (auto simp: stores_inv_def event_result_def get_result_def load_stores_def enqueue_def Let_def handle_reached load_reached)

interpretation stores: step_invariant "\<lambda>s. s = run_start d mode" "run_step Y" "stores_inv Y" for d mode Y
proof unfold_locales
  have "model_reached NewTopologyModel" "rules_reached NewTopologyRuleStore" "groupings_reached Y NewGroupingStore"
    unfolding model_reached_def rules_reached_def groupings_reached_def
    by (rule exI [of _ "[]"], simp add: model_run_def store_run_def NewTopologyRuleStore_def NewGroupingStore_def)+
  then show "stores_inv Y s" if "s = run_start d mode" for s
    using that by (simp add: stores_inv_def run_start_def NewController_def)
qed (rule stores_inv_step)

text \<open>
  C40: in every reachable state of the controller, whatever was delivered to its handlers and in
  whatever order, all stored rules and groupings are well-formed, and the model that the next
  reconciliation works on holds, per node and slice, exactly the devices extracted with these
  rules from the stored slices.
\<close>

theorem reachable_state_wf:
  assumes "reachable Y d mode s"
  shows "list_all wf_rule (GetRules (c_ruleStore (r_ctl s)))
    \<and> list_all wf_grouping (GetGroupings (c_groupingStore (r_ctl s)))
    \<and> node_view (SetRules (GetRules (c_ruleStore (r_ctl s))) (c_model (r_ctl s))) =
        spec_view (GetRules (c_ruleStore (r_ctl s))) (map_of (tm_rawSlices (c_model (r_ctl s))))"
proof -
  have "stores_inv Y s"
    using assms stores.always [of "run_start d mode" d mode Y s] by (simp add: reachable_def)
  then obtain mevs revs gevs where m: "c_model (r_ctl s) = model_run mevs"
    and r: "c_ruleStore (r_ctl s) = store_run LoadRule RemoveRule revs"
    and g: "c_groupingStore (r_ctl s) = store_run (LoadFromConfigMap Y) RemoveConfigMap gevs"
    by (auto simp: stores_inv_def model_reached_def rules_reached_def groupings_reached_def)
  have "list_all wf_rule (GetRules (c_ruleStore (r_ctl s)))"
    using rules.run_wf unfolding r by (auto simp: list_all_iff GetRules_def)
  moreover have "list_all wf_grouping (GetGroupings (c_groupingStore (r_ctl s)))"
    using groupings.run_wf unfolding g by (auto simp: list_all_iff GetGroupings_def)
  moreover have "wf_raws (tm_rawSlices (c_model (r_ctl s)))" using model_run_raws by (simp add: m)
  ultimately show ?thesis by (simp add: SetRules_def reextract_view fun_eq_iff)
qed

theorem reachable_state_wf_witness:
  "list_all wf_rule (GetRules (c_ruleStore (r_ctl example_running)))
   \<and> node_view (SetRules (GetRules (c_ruleStore (r_ctl example_running))) (c_model (r_ctl example_running))) ''node1'' ''s1'' =
       spec_view (GetRules (c_ruleStore (r_ctl example_running))) (map_of (tm_rawSlices (c_model (r_ctl example_running)))) ''node1'' ''s1''"
  using reachable_state_wf [OF example_running_reachable] by simp

section \<open>What a reconciliation publishes\<close>

lemma BuildGroupings_total:
  assumes "cap_law cap" and "list_all distinct_classes groupings"
  shows "\<exists>results. BuildGroupings cap model rules groupings = Some results"
proof -
  have node: "\<exists>r. buildNodeGroupings cap rules n nt groupings = Some r" for n nt
  proof -
    have "\<exists>is. those (map (evaluateGrouping cap rules n (AllDevices nt)) groupings) = Some is"
      using evaluateGrouping_ok [OF assms(1)] assms(2) by (intro those_Some) (metis list_all_iff)
    then show ?thesis by (auto simp: buildNodeGroupings_def Let_def)
  qed
  have "\<exists>rs. those (map (\<lambda>(n, nt). buildNodeGroupings cap rules n nt groupings) (GetNodeTopologies model)) = Some rs"
    by (rule those_Some) (use node in auto)
  then show ?thesis by (auto simp: BuildGroupings_def)
qed

text \<open>The abstract effects of the two halves of a reconciliation on the cluster.\<close>

definition partition_effect :: "(nat \<Rightarrow> range_order) \<Rightarrow> quantity_lib \<Rightarrow> Controller \<Rightarrow> cluster \<Rightarrow> cluster" where
  "partition_effect ro Q c v =
    (if c_partitionMode c = PartitionModeGroupings then v
     else case planned ro (NewDeviceClassManager (c_driverName c)) (c_ruleStore c)
           (the (BuildPartitions Q (c_model c) (c_ruleStore c))) of
         Some (classes, active) \<Rightarrow>
           overwrite (rev classes) (prune ''partitionType'' (\<lambda>dc. label_key (dc_Labels dc) \<in> set active) v)
       | None \<Rightarrow> v)"

definition merged_groupings :: "range_order \<Rightarrow> Controller \<Rightarrow> DeviceGrouping list" where
  "merged_groupings order c = mergeGroupings order (DetectPCIeRootPairings (c_model c) (c_ruleStore c)) (GetGroupings (c_groupingStore c))"

definition grouping_effect :: "(nat \<Rightarrow> range_order) \<Rightarrow> (nat \<Rightarrow> nat) \<Rightarrow> Controller \<Rightarrow> cluster \<Rightarrow> cluster" where
  "grouping_effect ro cap c v =
    (if c_partitionMode c = PartitionModePartitions \<or> merged_groupings (ro 3) c = [] then v
     else let classes = grouping_planned ro (NewDeviceClassManager (c_driverName c)) (c_ruleStore c)
             (the (BuildGroupings cap (c_model c) (c_ruleStore c) (merged_groupings (ro 3) c)))
       in overwrite (rev classes) (prune ''grouping'' (\<lambda>dc. dc_Name dc \<in> dc_Name ` set classes) v))"

lemma erase_erase [simp]: "erase (erase dc) = erase dc"
  by (simp add: erase_def)

lemma erase_overwrite: "map_option erase \<circ> overwrite cs v = overwrite cs v"
  by (simp add: overwrite_def fun_eq_iff option.map_comp comp_def)

lemma overwrite_prune_erase:
  assumes "\<And>dc. live (erase dc) = live dc"
  shows "overwrite cs (prune name live (map_option erase \<circ> v)) = overwrite cs (prune name live v)"
  using assms by (auto simp: overwrite_def prune_def map_add_def fun_eq_iff split: option.splits)

lemma grouping_effect_erase:
  "map_option erase \<circ> grouping_effect ro cap c (map_option erase \<circ> v) = map_option erase \<circ> grouping_effect ro cap c v"
proof -
  have ope: "overwrite cs (prune name (\<lambda>dc. dc_Name dc \<in> S) (map_option erase \<circ> v)) =
      overwrite cs (prune name (\<lambda>dc. dc_Name dc \<in> S) v)" for cs name S and v :: cluster
    by (rule overwrite_prune_erase) (simp add: erase_def)
  have "map_option erase \<circ> (map_option erase \<circ> v) = map_option erase \<circ> v" for v :: cluster
    by (simp add: fun_eq_iff option.map_comp comp_def)
  then show ?thesis
    by (simp add: grouping_effect_def Let_def erase_overwrite ope)
qed

lemma reconcile_partitions_effect:
  assumes "api_laws api view" and "all_orders_ok ro"
  shows "\<exists>n w'. reconcile_partitions ro Q api c w = Some (Inr n, w')
    \<and> map_option erase \<circ> view w' = map_option erase \<circ> partition_effect ro Q c (view w)"
proof (cases "c_partitionMode c = PartitionModeGroupings")
  case False
  obtain results classes active w' where r: "BuildPartitions Q (c_model c) (c_ruleStore c) = Some results"
    "planned ro (NewDeviceClassManager (c_driverName c)) (c_ruleStore c) results = Some (classes, active)"
    "SyncDeviceClasses ro api (NewDeviceClassManager (c_driverName c)) (c_ruleStore c) results w = Some (None, w')"
    "map_option erase \<circ> view w' = overwrite (rev classes)
        (prune ''partitionType'' (\<lambda>dc. label_key (dc_Labels dc) \<in> set active) (view w))"
    using sync_partitions [OF assms] by blast
  have "reconcile_partitions ro Q api c w = Some (Inr (int (length results), countDeviceClasses results), w')"
    using False r by (simp add: reconcile_partitions_def)
  moreover have "partition_effect ro Q c (view w) = overwrite (rev classes)
        (prune ''partitionType'' (\<lambda>dc. label_key (dc_Labels dc) \<in> set active) (view w))"
    using False r by (simp add: partition_effect_def)
  ultimately show ?thesis using r(4) erase_overwrite by metis
qed (simp add: reconcile_partitions_def partition_effect_def)

lemma reconcile_groupings_total:
  assumes "cap_law cap" and "list_all distinct_classes (merged_groupings (ro 3) c)"
  shows "reconcile_groupings ro cap api c (GetGroupings (c_groupingStore c)) w \<noteq> None"
  using BuildGroupings_total [OF assms, of "c_model c" "c_ruleStore c"]
  by (auto simp: reconcile_groupings_def merged_groupings_def Let_def)

lemma reconcile_groupings_effect:
  assumes "api_laws api view" and "all_orders_ok ro"
    and "reconcile_groupings ro cap api c (GetGroupings (c_groupingStore c)) w \<noteq> None"
  shows "\<exists>n w'. reconcile_groupings ro cap api c (GetGroupings (c_groupingStore c)) w = Some (Inr n, w')
    \<and> map_option erase \<circ> view w' = map_option erase \<circ> grouping_effect ro cap c (view w)"
proof (cases "c_partitionMode c = PartitionModePartitions \<or> merged_groupings (ro 3) c = []")
  case True
  then have "reconcile_groupings ro cap api c (GetGroupings (c_groupingStore c)) w = Some (Inr 0, w)"
    by (auto simp: reconcile_groupings_def merged_groupings_def Let_def)
  with True show ?thesis by (auto simp: grouping_effect_def)
next
  case False
  obtain results where r: "BuildGroupings cap (c_model c) (c_ruleStore c) (merged_groupings (ro 3) c) = Some results"
    using assms(3) False by (auto simp: reconcile_groupings_def merged_groupings_def Let_def split: bind_splits)
  let ?classes = "grouping_planned ro (NewDeviceClassManager (c_driverName c)) (c_ruleStore c) results"
  obtain w' where w': "SyncGroupingDeviceClasses ro api (NewDeviceClassManager (c_driverName c)) (c_ruleStore c) results w = (None, w')"
    "map_option erase \<circ> view w' = overwrite (rev ?classes) (prune ''grouping'' (\<lambda>dc. dc_Name dc \<in> dc_Name ` set ?classes) (view w))"
    using sync_groupings [OF assms(1,2)] by blast
  have "reconcile_groupings ro cap api c (GetGroupings (c_groupingStore c)) w = Some (Inr (countGroupingDeviceClasses results), w')"
    using False r w'(1) by (simp add: reconcile_groupings_def merged_groupings_def Let_def)
  moreover have "grouping_effect ro cap c (view w) = overwrite (rev ?classes) (prune ''grouping'' (\<lambda>dc. dc_Name dc \<in> dc_Name ` set ?classes) (view w))"
    using False r by (simp add: grouping_effect_def Let_def)
  ultimately show ?thesis using w'(2) erase_overwrite by metis
qed

text \<open>The controller with its model rebuilt, as a reconciliation starts, and the effect of the whole.\<close>

definition rebuilt :: "Controller \<Rightarrow> Controller" where
  "rebuilt c = c\<lparr>c_model := SetRules (GetRules (c_ruleStore c)) (c_model c)\<rparr>"

definition reconcile_effect :: "(nat \<Rightarrow> range_order) \<Rightarrow> quantity_lib \<Rightarrow> (nat \<Rightarrow> nat) \<Rightarrow> Controller \<Rightarrow> cluster \<Rightarrow> cluster" where
  "reconcile_effect ro Q cap c v =
     map_option erase \<circ> grouping_effect (\<lambda>i. ro (5 + i)) cap (rebuilt c) (partition_effect ro Q (rebuilt c) v)"

lemma reconcile_has_effect:
  assumes "api_laws api view" and "all_orders_ok ro" and "reconcile ro Q cap api c w \<noteq> None"
  shows "\<exists>counts w'. reconcile ro Q cap api c w = Some (Inr counts, rebuilt c, w')
    \<and> map_option erase \<circ> view w' = reconcile_effect ro Q cap c (view w)"
proof -
  have gs: "c_groupingStore (rebuilt c) = c_groupingStore c" by (simp add: rebuilt_def)
  obtain n w1 where p: "reconcile_partitions ro Q api (rebuilt c) w = Some (Inr n, w1)"
    "map_option erase \<circ> view w1 = map_option erase \<circ> partition_effect ro Q (rebuilt c) (view w)"
    using reconcile_partitions_effect [OF assms(1,2)] by blast
  have "all_orders_ok (\<lambda>i. ro (5 + i))" using assms(2) by (simp add: all_orders_ok_def)
  moreover have "reconcile_groupings (\<lambda>i. ro (5 + i)) cap api (rebuilt c) (GetGroupings (c_groupingStore c)) w1 \<noteq> None"
    using assms(3) p(1) unfolding reconcile_def Let_def rebuilt_def [symmetric] by (auto simp: case_prod_unfold split: bind_splits)
  ultimately obtain k w2 where g:
    "reconcile_groupings (\<lambda>i. ro (5 + i)) cap api (rebuilt c) (GetGroupings (c_groupingStore c)) w1 = Some (Inr k, w2)"
    "map_option erase \<circ> view w2 = map_option erase \<circ> grouping_effect (\<lambda>i. ro (5 + i)) cap (rebuilt c) (view w1)"
    using reconcile_groupings_effect [OF assms(1), of "\<lambda>i. ro (5 + i)" cap "rebuilt c" w1] unfolding gs by blast
  have "reconcile ro Q cap api c w = Some (Inr (fst n, snd n, k), rebuilt c, w2)"
    using p(1) g(1) unfolding reconcile_def Let_def rebuilt_def [symmetric] by (simp add: case_prod_unfold)
  moreover have "map_option erase \<circ> view w2 = reconcile_effect ro Q cap c (view w)"
    using g(2) p(2) grouping_effect_erase [of "\<lambda>i. ro (5 + i)" cap "rebuilt c" "view w1"]
      grouping_effect_erase [of "\<lambda>i. ro (5 + i)" cap "rebuilt c" "partition_effect ro Q (rebuilt c) (view w)"]
    by (simp add: reconcile_effect_def)
  ultimately show ?thesis by blast
qed

lemma reconcile_returns:
  assumes "all_orders_ok ro" and "cap_law cap" and "list_all distinct_classes (merged_groupings (ro 8) (rebuilt c))"
  shows "reconcile ro Q cap api c w \<noteq> None"
proof -
  obtain results where r: "BuildPartitions Q (c_model (rebuilt c)) (c_ruleStore (rebuilt c)) = Some results"
    using BuildPartitions_total by blast
  obtain plan where "planned ro (NewDeviceClassManager (c_driverName (rebuilt c))) (c_ruleStore (rebuilt c)) results = Some plan"
    using planned_total [OF assms(1)] by blast
  then have p: "reconcile_partitions ro Q api (rebuilt c) w \<noteq> None"
    using r by (cases plan) (auto simp: reconcile_partitions_def SyncDeviceClasses_planned)
  have gs: "c_groupingStore (rebuilt c) = c_groupingStore c" by (simp add: rebuilt_def)
  have g: "reconcile_groupings (\<lambda>i. ro (5 + i)) cap api (rebuilt c) (GetGroupings (c_groupingStore c)) w1 \<noteq> None" for w1
    using reconcile_groupings_total [OF assms(2), of "\<lambda>i. ro (5 + i)" "rebuilt c"] assms(3) unfolding gs by simp
  from p obtain pr w1 where pr: "reconcile_partitions ro Q api (rebuilt c) w = Some (pr, w1)" by auto
  from g [of w1] obtain gr where "reconcile_groupings (\<lambda>i. ro (5 + i)) cap api (rebuilt c) (GetGroupings (c_groupingStore c)) w1 = Some gr"
    by blast
  with pr show ?thesis unfolding reconcile_def Let_def rebuilt_def [symmetric]
    by (simp add: case_prod_unfold split: sum.splits)
qed



section \<open>Detected pairings with a shared class\<close>

definition shared_class_rules :: TopologyRuleStore where
  "shared_class_rules = [(''ns/a'', example_rule ''a'' ''gpu'' ''vfio''), (''ns/b'', example_rule ''b'' ''nic'' ''vfio'')]"

definition shared_class_model :: TopologyModel where
  "shared_class_model = NewTopologyModel\<lparr>tm_nodes := [(''node1'', \<lparr> nt_NodeName = ''node1'', nt_DevicesByDriver =
     [(''s1'', [example_device ''gpu'' ''g0'' (Some ''pci0'') 0 [], example_device ''nic'' ''n0'' (Some ''pci0'') 0 []])] \<rparr>)]\<rparr>"

text \<open>
  Two rules may map two drivers to one DeviceClass.  A GPU and a NIC of such drivers on one PCIe
  root are still detected as a pair, and the evaluation of this pair, which lists the class twice,
  panics.
\<close>

theorem shared_override_panics:
  "map (map gd_Class \<circ> dg_Devices) (DetectPCIeRootPairings shared_class_model shared_class_rules) = [[''vfio'', ''vfio'']]
   \<and> BuildGroupings (\<lambda>n. n) shared_class_model shared_class_rules
       (DetectPCIeRootPairings shared_class_model shared_class_rules) = None"
  by code_simp

end
