(* ===== verification/Metrics.thy ===== *)
theory Metrics
  imports Controller
begin

text \<open>
  \<open>internal/metrics/metrics.go\<close> and the metrics that \<open>Controller.reconcile\<close> maintains.  A counter
  or gauge is its value, the histogram of durations is the list of its observations (in
  nanoseconds).  The registry of the Prometheus client knows a collector by its full name.
\<close>

section \<open>Collectors\<close>

record Metrics =
  mx_ReconciliationDuration :: "int list"
  mx_ReconciliationErrors :: nat
  mx_NodesTotal :: int
  mx_DeviceClassesTotal :: int
  mx_TopologyRulesTotal :: int
  mx_WebhookExpansions :: nat
  mx_WebhookErrors :: nat

definition NewMetrics :: Metrics where
  "NewMetrics = \<lparr> mx_ReconciliationDuration = [], mx_ReconciliationErrors = 0, mx_NodesTotal = 0, mx_DeviceClassesTotal = 0,
     mx_TopologyRulesTotal = 0, mx_WebhookExpansions = 0, mx_WebhookErrors = 0 \<rparr>"

text \<open>Namespace, subsystem and name of each collector, in the order of \<open>init\<close>.\<close>

definition collectors :: "(string \<times> string \<times> string) list" where
  "collectors = [(''nodepartition'', ''controller'', ''reconciliation_duration_seconds''),
     (''nodepartition'', ''controller'', ''reconciliation_errors_total''),
     (''nodepartition'', ''controller'', ''nodes_total''),
     (''nodepartition'', ''controller'', ''deviceclasses_total''),
     (''nodepartition'', ''controller'', ''topology_rules_total''),
     (''nodepartition'', ''webhook'', ''expansions_total''),
     (''nodepartition'', ''webhook'', ''errors_total'')]"

definition full_name :: "string \<times> string \<times> string \<Rightarrow> string" where
  "full_name c = (case c of (namespace, subsystem, name) \<Rightarrow> Join [namespace, subsystem, name] ''_'')"

text \<open>\<open>MustRegister\<close> panics (\<open>None\<close>) on a name that the registry has already.\<close>

fun MustRegister :: "string list \<Rightarrow> string list \<Rightarrow> string list option" where
  "MustRegister [] registry = Some registry"
| "MustRegister (name # names) registry = (if name \<in> set registry then None else MustRegister names (registry @ [name]))"

lemma MustRegister_distinct:
  "distinct (registry @ names) \<Longrightarrow> MustRegister names registry = Some (registry @ names)"
  by (induction names arbitrary: registry) auto

lemma metrics_init: "MustRegister (map full_name collectors) [] = Some (map full_name collectors)"
  using MustRegister_distinct [of "[]" "map full_name collectors"] by (simp add: collectors_def full_name_def)

section \<open>A reconciliation with its metrics\<close>

definition metered_reconcile ::
  "(nat \<Rightarrow> range_order) \<Rightarrow> quantity_lib \<Rightarrow> (nat \<Rightarrow> nat) \<Rightarrow> 'w dc_api \<Rightarrow> int \<Rightarrow> Controller \<Rightarrow> Metrics \<Rightarrow> 'w \<Rightarrow>
     ((reconcile_error + int \<times> int \<times> int) \<times> Controller \<times> Metrics \<times> 'w) option" where
  "metered_reconcile ro Q cap api elapsed c mx w =
    (let rules = GetRules (c_ruleStore c);
         c1 = c\<lparr>c_model := SetRules rules (c_model c)\<rparr>;
         mx1 = mx\<lparr>mx_TopologyRulesTotal := int (length rules)\<rparr>;
         groupings = GetGroupings (c_groupingStore c)
     in do {
       (p, w1) \<leftarrow> reconcile_partitions ro Q api c1 w;
       case p of
         Inl e \<Rightarrow> Some (Inl e, c1, mx1\<lparr>mx_ReconciliationErrors := mx_ReconciliationErrors mx1 + 1\<rparr>, w1)
       | Inr (nodeCount, partitionCount) \<Rightarrow>
           let mx2 = (if c_partitionMode c = PartitionModeGroupings then mx1 else mx1\<lparr>mx_NodesTotal := nodeCount\<rparr>) in
           do {
             (g, w2) \<leftarrow> reconcile_groupings (\<lambda>i. ro (5 + i)) cap api c1 groupings w1;
             Some (case g of
                 Inl e \<Rightarrow> (Inl e, c1, mx2\<lparr>mx_ReconciliationErrors := mx_ReconciliationErrors mx2 + 1\<rparr>, w2)
               | Inr groupingCount \<Rightarrow> (Inr (nodeCount, partitionCount, groupingCount), c1,
                   mx2\<lparr>mx_ReconciliationDuration := mx_ReconciliationDuration mx2 @ [elapsed],
                       mx_DeviceClassesTotal := partitionCount + groupingCount\<rparr>, w2))
           }
     })"

text \<open>The metrics only watch: without them the reconciliation is that of the controller theory.\<close>

theorem metered_reconcile_reconcile:
  "map_option (\<lambda>(r, c1, mx1, w1). (r, c1, w1)) (metered_reconcile ro Q cap api elapsed c mx w) = reconcile ro Q cap api c w"
  by (auto simp: metered_reconcile_def reconcile_def Let_def split: option.splits sum.splits prod.splits bind_splits)


text \<open>
  The gauge of DeviceClasses counts pairs of a profile and a partition type.  The two NUMA
  partitions and the full partition of one node count as two, while four classes are published for
  them: one for each partition and the aggregate of the NUMA partitions.
\<close>

theorem gauge_counts_types:
  "countDeviceClasses example_results = 2 \<and>
   map_option (\<lambda>(classes, active). length (remdups (map dc_Name classes)))
     (planned (\<lambda>_. insertion_order) CoordinatorDriverName NewTopologyRuleStore example_results) = Some 4"
  by code_simp

end
