(* ===== verification/Health.thy ===== *)
theory Health
  imports Go_Strings "HOL-Library.Word"
begin

text \<open>
  \<open>internal/health/health.go\<close>: the health checker.  A check is a function of the environment
  \<open>'e\<close> it looks at (the context and the memory statistics), the clock is an argument.  The HTTP
  server and the ticker are outside; the background loop is a function of the ticks it receives.  The request
  multiplexer is the map from registered patterns to their handlers; the patterns in use are \<open>/\<close>
  and literal paths without a trailing slash, which match the path itself.
\<close>

section \<open>State\<close>

abbreviation (input) statusHealthy :: string where "statusHealthy \<equiv> ''healthy''"
abbreviation (input) statusUnhealthy :: string where "statusUnhealthy \<equiv> ''unhealthy''"

record Check =
  ck_Status :: string
  ck_Message :: string
  ck_Details :: "(string, 64 word) gomap"

record Status =
  st_Status :: string
  st_Timestamp :: int
  st_Version :: string
  st_Checks :: "(string, Check) gomap"

text \<open>What a pattern leads to: the two handlers of the checker, or one that was added.\<close>

datatype endpoint = HealthEndpoint | NotFoundEndpoint | Added string

record 'e Checker =
  h_mux :: "(string, endpoint) gomap"
  h_port :: int
  h_path :: string
  h_version :: string
  h_checks :: "(string, 'e \<Rightarrow> Check) gomap"
  h_status :: Status
  h_started :: bool

definition DefaultHealthPort :: int where
  "DefaultHealthPort = 8080"

definition DefaultHealthPath :: string where
  "DefaultHealthPath = ''/healthz''"

definition NewChecker :: "int \<Rightarrow> int \<Rightarrow> string \<Rightarrow> 'e Checker" where
  "NewChecker now port version =
    \<lparr> h_mux = [(DefaultHealthPath, HealthEndpoint), (''/'', NotFoundEndpoint)],
      h_port = (if port = 0 then DefaultHealthPort else port), h_path = DefaultHealthPath, h_version = version,
      h_checks = [],
      h_status = \<lparr> st_Status = statusHealthy, st_Timestamp = now, st_Version = version, st_Checks = [] \<rparr>,
      h_started = False \<rparr>"

section \<open>Operations\<close>

definition AddCheck :: "string \<Rightarrow> ('e \<Rightarrow> Check) \<Rightarrow> 'e Checker \<Rightarrow> 'e Checker" where
  "AddCheck name check hc = hc\<lparr>h_checks := put name check (h_checks hc)\<rparr>"

text \<open>\<open>ServeMux.Handle\<close> panics on an empty pattern and on one that is registered already.\<close>

definition Handle :: "string \<Rightarrow> string \<Rightarrow> 'e Checker \<Rightarrow> 'e Checker option" where
  "Handle pattern handler hc = (if pattern = '''' \<or> has_key (h_mux hc) pattern then None
     else Some (hc\<lparr>h_mux := put pattern (Added handler) (h_mux hc)\<rparr>))"

datatype health_error = AlreadyStarted | ShutdownFailed string

definition Start :: "'e Checker \<Rightarrow> health_error option \<times> 'e Checker" where
  "Start hc = (if h_started hc then (Some AlreadyStarted, hc) else (None, hc\<lparr>h_started := True\<rparr>))"

definition Stop :: "string option \<Rightarrow> 'e Checker \<Rightarrow> health_error option \<times> 'e Checker" where
  "Stop shutdown hc = (if \<not> h_started hc then (None, hc)
     else case shutdown of None \<Rightarrow> (None, hc) | Some e \<Rightarrow> (Some (ShutdownFailed e), hc))"

definition run_check ::
  "'e \<Rightarrow> string \<times> (string, Check) gomap \<Rightarrow> string \<times> ('e \<Rightarrow> Check) \<Rightarrow> string \<times> (string, Check) gomap" where
  "run_check env acc nc = (let check = snd nc env in
     (if ck_Status check \<noteq> statusHealthy then statusUnhealthy else fst acc, put (fst nc) check (snd acc)))"

definition performHealthChecks :: "'e \<Rightarrow> int \<Rightarrow> 'e Checker \<Rightarrow> 'e Checker" where
  "performHealthChecks env now hc =
    (let r = foldl (run_check env) (statusHealthy, []) (h_checks hc)
     in hc\<lparr>h_status := (h_status hc)\<lparr>st_Status := fst r, st_Timestamp := now, st_Checks := snd r\<rparr>\<rparr>)"

text \<open>
  The loop of \<open>updateStatus\<close> over what its \<open>select\<close> receives, in order: it checks at every tick
  and ends when the context is done; at the end of the list it waits.
\<close>

datatype 'e select_event = CtxDone | Ticked 'e int

fun updateStatus :: "'e select_event list \<Rightarrow> 'e Checker \<Rightarrow> 'e Checker" where
  "updateStatus [] hc = hc"
| "updateStatus (CtxDone # events) hc = hc"
| "updateStatus (Ticked env now # events) hc = updateStatus events (performHealthChecks env now hc)"

definition snapshotStatus :: "'e Checker \<Rightarrow> Status" where
  "snapshotStatus hc = (h_status hc)\<lparr>st_Checks := foldl (\<lambda>m (k, v). put k v m) [] (st_Checks (h_status hc))\<rparr>"

definition handleHealthCheck :: "'e Checker \<Rightarrow> int \<times> Status" where
  "handleHealthCheck hc = (let status = snapshotStatus hc in (if st_Status status = statusHealthy then 200 else 503, status))"

definition handleNotFound :: "string \<Rightarrow> int \<times> (string, string) gomap" where
  "handleNotFound path = (404, [(''error'', ''Not found''), (''path'', path)])"

text \<open>The answer to a request: the handler of its path, or that of \<open>/\<close>.\<close>

datatype health_answer = HealthAnswer int Status | NotFoundAnswer int "(string, string) gomap" | AddedAnswer string | NoHandler

definition serve :: "string \<Rightarrow> 'e Checker \<Rightarrow> health_answer" where
  "serve path hc =
    (case (case map_of (h_mux hc) path of Some e \<Rightarrow> Some e | None \<Rightarrow> map_of (h_mux hc) ''/'') of
       Some HealthEndpoint \<Rightarrow> (case handleHealthCheck hc of (code, status) \<Rightarrow> HealthAnswer code status)
     | Some NotFoundEndpoint \<Rightarrow> (case handleNotFound path of (code, body) \<Rightarrow> NotFoundAnswer code body)
     | Some (Added handler) \<Rightarrow> AddedAnswer handler
     | None \<Rightarrow> NoHandler)"

definition GetStatus :: "'e Checker \<Rightarrow> Status" where
  "GetStatus hc = snapshotStatus hc"

definition SetStatus :: "string \<Rightarrow> int \<Rightarrow> 'e Checker \<Rightarrow> 'e Checker" where
  "SetStatus status now hc = hc\<lparr>h_status := (h_status hc)\<lparr>st_Status := status, st_Timestamp := now\<rparr>\<rparr>"

section \<open>Built-in checks\<close>

record MemStats =
  m_Alloc :: "64 word"
  m_Sys :: "64 word"
  m_HeapAlloc :: "64 word"

definition BasicHealthCheck :: "'e \<Rightarrow> Check" where
  "BasicHealthCheck env = \<lparr> ck_Status = statusHealthy, ck_Message = ''Basic health check passed'', ck_Details = [] \<rparr>"

definition MemoryHealthCheck :: "MemStats \<Rightarrow> Check" where
  "MemoryHealthCheck m =
    (let details = [(''alloc'', m_Alloc m), (''sys'', m_Sys m), (''heapAlloc'', m_HeapAlloc m)]
     in if m_Alloc m > push_bit 30 1
        then \<lparr> ck_Status = statusUnhealthy, ck_Message = ''Memory usage too high'', ck_Details = details \<rparr>
        else \<lparr> ck_Status = statusHealthy, ck_Message = ''Memory usage normal'', ck_Details = details \<rparr>)"

section \<open>The endpoint tells the truth\<close>

datatype 'e health_op =
    Register string "'e \<Rightarrow> Check"
  | Tick 'e int
  | Override string int
  | StartOp
  | StopOp "string option"

fun health_step :: "'e health_op \<Rightarrow> 'e Checker \<Rightarrow> 'e Checker" where
  "health_step (Register name check) hc = AddCheck name check hc"
| "health_step (Tick env now) hc = performHealthChecks env now hc"
| "health_step (Override status now) hc = SetStatus status now hc"
| "health_step StartOp hc = snd (Start hc)"
| "health_step (StopOp e) hc = snd (Stop e hc)"

definition health_run :: "int \<Rightarrow> int \<Rightarrow> string \<Rightarrow> 'e health_op list \<Rightarrow> 'e Checker" where
  "health_run now port version ops = fold health_step ops (NewChecker now port version)"

fun registered_step :: "'e health_op \<Rightarrow> (string \<rightharpoonup> ('e \<Rightarrow> Check)) \<Rightarrow> (string \<rightharpoonup> ('e \<Rightarrow> Check))" where
  "registered_step (Register name check) f = f(name \<mapsto> check)"
| "registered_step _ f = f"

definition registered :: "'e health_op list \<Rightarrow> (string \<rightharpoonup> ('e \<Rightarrow> Check))" where
  "registered ops = fold registered_step ops Map.empty"

lemma health_run_checks:
  "wf_map (h_checks (health_run now port version ops)) \<and> map_of (h_checks (health_run now port version ops)) = registered ops"
proof (induction ops rule: rev_induct)
  case Nil
  show ?case by (simp add: health_run_def registered_def NewChecker_def)
next
  case (snoc op ops)
  then show ?case
    by (cases op) (auto simp: health_run_def registered_def AddCheck_def performHealthChecks_def SetStatus_def
      Start_def Stop_def Let_def split: option.splits)
qed

lemma run_checks:
  assumes "wf_map cs"
  shows "foldl (run_check env) (s, m) cs =
    (if list_all (\<lambda>(n, f). ck_Status (f env) = statusHealthy) cs then s else statusUnhealthy,
     foldl (\<lambda>m (n, f). put n (f env) m) m cs)"
  using assms by (induction cs arbitrary: s m) (auto simp: run_check_def Let_def)

lemma map_of_puts:
  "wf_map es \<Longrightarrow> map_of (foldl (\<lambda>m (k, v). put k (g v) m) m es) k =
    (case map_of es k of Some v \<Rightarrow> Some (g v) | None \<Rightarrow> map_of m k)"
proof (induction es arbitrary: m)
  case (Cons e es)
  then show ?case by (cases e) (auto simp: map_of_eq_None_iff [THEN iffD2] split: option.splits)
qed simp

lemma wf_map_puts: "wf_map m \<Longrightarrow> wf_map (foldl (\<lambda>m (k, v). put k (g v) m) m es)"
  by (induction es arbitrary: m) (auto simp: case_prod_unfold)

text \<open>
  C38: the health endpoint tells the truth.  After any sequence of registrations, ticks, overrides,
  starts and stops, a tick makes the endpoint answer 200 exactly when every registered check (the
  last one under each name) reports healthy, and 503 otherwise; the body lists the result of
  each of these checks and nothing else.
\<close>

theorem health_endpoint_truthful:
  "case handleHealthCheck (health_run t0 port version (ops @ [Tick env now])) of (code, status) \<Rightarrow>
     code = (if ran (registered ops) \<subseteq> {check. ck_Status (check env) = statusHealthy} then 200 else 503)
     \<and> map_of (st_Checks status) = (\<lambda>name. map_option (\<lambda>check. check env) (registered ops name))
     \<and> st_Timestamp status = now"
proof -
  define hc where "hc = health_run t0 port version ops"
  have wf: "wf_map (h_checks hc)" and reg: "map_of (h_checks hc) = registered ops"
    using health_run_checks by (auto simp: hc_def)
  have run: "health_run t0 port version (ops @ [Tick env now]) = performHealthChecks env now hc"
    by (simp add: health_run_def hc_def)
  define cs where "cs = foldl (\<lambda>m (n, f). put n (f env) m) [] (h_checks hc)"
  have cs: "map_of cs k = map_option (\<lambda>check. check env) (registered ops k)" for k
    using map_of_puts [OF wf, of "\<lambda>f. f env" "[]" k] by (simp add: cs_def reg split: option.splits)
  have "wf_map cs" unfolding cs_def by (rule wf_map_puts) simp
  then have copy: "map_of (foldl (\<lambda>m (k, v). put k v m) [] cs) = map_of cs"
    using map_of_puts [of cs "\<lambda>v. v" "[]"] by (simp add: fun_eq_iff split: option.splits)
  have all: "list_all (\<lambda>(n, f). ck_Status (f env) = statusHealthy) (h_checks hc) \<longleftrightarrow>
      ran (registered ops) \<subseteq> {check. ck_Status (check env) = statusHealthy}"
    using wf by (auto simp: list_all_iff ran_def simp flip: reg)
  show ?thesis
    unfolding run handleHealthCheck_def snapshotStatus_def performHealthChecks_def Let_def run_checks [OF wf] cs_def [symmetric]
    by (simp add: all copy cs fun_eq_iff)
qed

text \<open>
  Only the last tick before the context is done counts: each one checks everything anew.
\<close>

lemma performHealthChecks_twice: "performHealthChecks env now (performHealthChecks env' now' hc) = performHealthChecks env now hc"
  by (simp add: performHealthChecks_def Let_def)

definition ticks_before_done :: "'e select_event list \<Rightarrow> 'e select_event list" where
  "ticks_before_done events = takeWhile (\<lambda>e. e \<noteq> CtxDone) events"

lemma updateStatus_last:
  "updateStatus events hc = (case rev (ticks_before_done events) of
     Ticked env now # _ \<Rightarrow> performHealthChecks env now hc | _ \<Rightarrow> hc)"
proof (induction events hc rule: updateStatus.induct)
  case (3 env now events hc)
  have ticks: "e \<noteq> CtxDone" if "e \<in> set (ticks_before_done events)" for e
    using that by (auto simp: ticks_before_done_def dest: set_takeWhileD)
  show ?case
  proof (cases "rev (ticks_before_done events)")
    case (Cons e es)
    then have "e \<in> set (ticks_before_done events)" by (metis list.set_intros(1) set_rev)
    with Cons ticks 3 show ?thesis by (cases e) (auto simp: ticks_before_done_def performHealthChecks_twice)
  qed (use 3 in \<open>simp add: ticks_before_done_def\<close>)
qed (simp_all add: ticks_before_done_def)

text \<open>The memory check compares the whole unsigned 64-bit counter with one gibibyte.\<close>

lemma MemoryHealthCheck_bound: "ck_Status (MemoryHealthCheck m) = statusHealthy \<longleftrightarrow> unat (m_Alloc m) \<le> 2 ^ 30"
proof -
  have "unat (push_bit 30 (1 :: 64 word)) = 2 ^ 30" by (simp add: push_bit_eq_mult)
  then show ?thesis by (auto simp: MemoryHealthCheck_def Let_def word_less_nat_alt)
qed

end
