(* ===== verification/Coordinator.thy ===== *)
theory Coordinator
  imports Metrics Health
begin

text \<open>
  \<open>cmd/nodepartition-controller/main.go\<close>: the flags, the set-up of a replica and its life under
  leader election.  The outcomes of the libraries (the Kubernetes configuration and client, the
  TLS files, the host name) are fields of the environment.  Every replica serves the webhook and
  the health endpoint; only the elected one runs the controller.
\<close>

section \<open>Flags and set-up\<close>

record Options =
  o_kubecfg :: string
  o_driverName :: string
  o_partitionMode :: string
  o_shutdownTimeout :: int
  o_leaderElectionNamespace :: string
  o_leaderElectionID :: string
  o_webhookPort :: int
  o_tlsCertFile :: string
  o_tlsKeyFile :: string

definition default_options :: Options where
  "default_options = \<lparr> o_kubecfg = '''', o_driverName = ''nodepartition.dra.k8s.io'', o_partitionMode = ''auto'',
     o_shutdownTimeout = 30, o_leaderElectionNamespace = ''kube-system'', o_leaderElectionID = ''nodepartition-controller'',
     o_webhookPort = 9443, o_tlsCertFile = ''/etc/webhook/tls/tls.crt'', o_tlsKeyFile = ''/etc/webhook/tls/tls.key'' \<rparr>"

text \<open>The environment: the error of each library call, if it has one, and what it returns.\<close>

record environment =
  e_BuildConfig :: "string \<Rightarrow> string option"
  e_NewForConfig :: "string option"
  e_now :: int
  e_LoadX509KeyPair :: "string \<Rightarrow> string \<Rightarrow> string option"
  e_POD_NAME :: string
  e_Hostname :: "string + string"

datatype start_error = KubeconfigFailed string | ClientFailed string | InvalidMode string
  | HealthFailed health_error | IdentityFailed string

record WebhookServer =
  ws_Port :: int
  ws_Serving :: bool

text \<open>A key pair that does not load leaves a server that never listens, and no error.\<close>

definition startWebhookServer :: "Options \<Rightarrow> environment \<Rightarrow> WebhookServer" where
  "startWebhookServer opts env =
     \<lparr> ws_Port = o_webhookPort opts, ws_Serving = (e_LoadX509KeyPair env (o_tlsCertFile opts) (o_tlsKeyFile opts) = None) \<rparr>"

definition election_identity :: "environment \<Rightarrow> string + string" where
  "election_identity env = (if e_POD_NAME env \<noteq> '''' then Inr (e_POD_NAME env) else e_Hostname env)"

datatype role = Standby | Leading | Stopped

record replica =
  p_run :: run_state
  p_health :: "unit Checker"
  p_webhook :: WebhookServer
  p_identity :: string
  p_role :: role

definition basic_checker :: "int \<Rightarrow> unit Checker option" where
  "basic_checker now = Handle ''/metrics'' ''metrics'' (AddCheck ''basic'' BasicHealthCheck (NewChecker now 8081 ''1.0.0''))"

text \<open>A panic of the set-up is \<open>None\<close>.\<close>

definition runController :: "Options \<Rightarrow> environment \<Rightarrow> (start_error + replica) option" where
  "runController opts env =
    (case e_BuildConfig env (o_kubecfg opts) of Some e \<Rightarrow> Some (Inl (KubeconfigFailed e))
     | None \<Rightarrow> (case e_NewForConfig env of Some e \<Rightarrow> Some (Inl (ClientFailed e))
     | None \<Rightarrow> if \<not> ValidPartitionMode (o_partitionMode opts) then Some (Inl (InvalidMode (o_partitionMode opts)))
     else (case basic_checker (e_now env) of None \<Rightarrow> None
     | Some hc0 \<Rightarrow> (case Start hc0 of (Some e, hc) \<Rightarrow> Some (Inl (HealthFailed e))
     | (None, hc) \<Rightarrow>
         let s = run_start (o_driverName opts) (o_partitionMode opts); server = startWebhookServer opts env
         in case election_identity env of Inl e \<Rightarrow> Some (Inl (IdentityFailed e))
            | Inr identity \<Rightarrow> Some (Inr \<lparr> p_run = s, p_health = hc, p_webhook = server, p_identity = identity, p_role = Standby \<rparr>)))))"

text \<open>The exit status of the process, none while a replica runs: an error of the set-up is 1, a panic 2.\<close>

definition Execute :: "(start_error + replica) option \<Rightarrow> int option" where
  "Execute r = (case r of None \<Rightarrow> Some 2 | Some (Inl e) \<Rightarrow> Some 1
     | Some (Inr p) \<Rightarrow> if p_role p = Stopped then Some 0 else None)"

section \<open>The life of a replica\<close>

text \<open>
  \<open>RunOrDie\<close> calls \<open>OnStartedLeading\<close> once, which runs the controller until the lease is lost or
  the process is told to stop; both end the election and the process shuts down.
\<close>

inductive replica_step :: "yaml_decoder \<Rightarrow> replica \<Rightarrow> replica \<Rightarrow> bool" for Y where
  elected: "p_role p = Standby \<Longrightarrow> replica_step Y p (p\<lparr>p_role := Leading\<rparr>)"
| control: "p_role p = Leading \<Longrightarrow> run_step Y (p_run p) s \<Longrightarrow> replica_step Y p (p\<lparr>p_run := s\<rparr>)"
| check: "p_role p \<noteq> Stopped \<Longrightarrow> replica_step Y p (p\<lparr>p_health := performHealthChecks () now (p_health p)\<rparr>)"
| shutdown: "p_role p \<noteq> Stopped \<Longrightarrow>
    replica_step Y p (p\<lparr>p_role := Stopped, p_webhook := (p_webhook p)\<lparr>ws_Serving := False\<rparr>, p_health := snd (Stop err (p_health p))\<rparr>)"

inductive_cases replica_stepE: "replica_step Y p p'"

definition replica_of :: "yaml_decoder \<Rightarrow> Options \<Rightarrow> environment \<Rightarrow> replica \<Rightarrow> bool" where
  "replica_of Y opts env p = (\<exists>p0. runController opts env = Some (Inr p0) \<and> (replica_step Y)\<^sup>*\<^sup>* p0 p)"

text \<open>
  A request to the webhook of a replica, which reads the model of its own controller.  A server
  that does not listen refuses the connection; a handler that panics gives no answer.
\<close>

datatype connection = Refused | Answered "http_result option"

definition mutate :: "quantity_lib \<Rightarrow> webhook_api \<Rightarrow> string \<Rightarrow> http_body \<Rightarrow> replica \<Rightarrow> connection" where
  "mutate Q api path body p =
    (if \<not> ws_Serving (p_webhook p) then Refused
     else if path \<noteq> ''/mutate'' then Answered (Some (HttpError 404 ''404 page not found''))
     else Answered (ServeHTTP Q (NewClaimExpander [c_model (r_ctl (p_run p))]) api body))"

section \<open>Set-up\<close>

text \<open>The checker of a replica, started: one check, three patterns.\<close>

definition started_checker :: "int \<Rightarrow> unit Checker" where
  "started_checker now = (NewChecker now 8081 ''1.0.0'')\<lparr>h_started := True, h_checks := [(''basic'', BasicHealthCheck)],
     h_mux := [(DefaultHealthPath, HealthEndpoint), (''/'', NotFoundEndpoint), (''/metrics'', Added ''metrics'')]\<rparr>"

lemma Start_basic: "\<exists>hc. basic_checker now = Some hc \<and> Start hc = (None, started_checker now)"
  by (simp add: Start_def basic_checker_def started_checker_def AddCheck_def NewChecker_def Handle_def has_key_def put_def
    DefaultHealthPath_def)

lemma runController_Inr:
  "runController opts env = Some (Inr p) \<longleftrightarrow>
     e_BuildConfig env (o_kubecfg opts) = None \<and> e_NewForConfig env = None \<and> ValidPartitionMode (o_partitionMode opts)
     \<and> (\<exists>identity. election_identity env = Inr identity \<and>
          p = \<lparr> p_run = run_start (o_driverName opts) (o_partitionMode opts),
                p_health = started_checker (e_now env),
                p_webhook = startWebhookServer opts env, p_identity = identity, p_role = Standby \<rparr>)"
  using Start_basic [of "e_now env"]
  by (auto simp: runController_def Let_def split: option.splits sum.splits if_splits)

text \<open>
  A replica comes up exactly when the configuration and the client can be made, the mode is valid
  and the replica has a name; TLS files that do not load never stop it, and the health checker
  never fails to start.  The set-up never panics.
\<close>

theorem runController_comes_up:
  "(\<exists>p. runController opts env = Some (Inr p)) \<longleftrightarrow>
     e_BuildConfig env (o_kubecfg opts) = None \<and> e_NewForConfig env = None \<and> ValidPartitionMode (o_partitionMode opts)
     \<and> (e_POD_NAME env \<noteq> '''' \<or> (\<exists>h. e_Hostname env = Inr h))"
  by (auto simp: runController_Inr election_identity_def)

theorem runController_never_panics: "runController opts env \<noteq> None"
  using Start_basic [of "e_now env"]
  by (auto simp: runController_def Let_def split: option.splits sum.splits)

text \<open>The process ends at once, with status 1, exactly when the replica does not come up.\<close>

theorem exit_at_start:
  "Execute (runController opts env) =
    (if e_BuildConfig env (o_kubecfg opts) = None \<and> e_NewForConfig env = None \<and> ValidPartitionMode (o_partitionMode opts)
        \<and> (e_POD_NAME env \<noteq> '''' \<or> (\<exists>h. e_Hostname env = Inr h)) then None else Some 1)"
proof -
  have "Execute (runController opts env) = (if \<exists>p. runController opts env = Some (Inr p) then None else Some 1)"
  proof (cases "\<exists>p. runController opts env = Some (Inr p)")
    case True
    then obtain p where p: "runController opts env = Some (Inr p)" ..
    then have "p_role p = Standby" by (auto simp: runController_Inr)
    with p show ?thesis by (simp add: Execute_def)
  next
    case False
    with runController_never_panics obtain e where "runController opts env = Some (Inl e)"
      by (metis option.exhaust sum.exhaust)
    then show ?thesis by (simp add: Execute_def)
  qed
  then show ?thesis by (simp only: runController_comes_up)
qed

section \<open>Replicas\<close>

text \<open>The controller inside a replica goes through states the controller alone can reach.\<close>

lemma replica_step_run: "replica_step Y p p' \<Longrightarrow> (run_step Y)\<^sup>*\<^sup>* (p_run p) (p_run p')"
  by (erule replica_stepE) auto

lemma replica_run: "(replica_step Y)\<^sup>*\<^sup>* p p' \<Longrightarrow> (run_step Y)\<^sup>*\<^sup>* (p_run p) (p_run p')"
  by (induction rule: rtranclp_induct) (auto dest: replica_step_run)

theorem replica_runs_controller:
  assumes "replica_of Y opts env p"
  shows "reachable Y (o_driverName opts) (o_partitionMode opts) (p_run p)"
  using assms by (auto simp: replica_of_def reachable_def runController_Inr dest: replica_run)

text \<open>
  Before it is elected a replica has not touched its controller, its webhook is as it was set up
  and its checker still has the one check.
\<close>

definition standby_inv :: "Options \<Rightarrow> environment \<Rightarrow> replica \<Rightarrow> bool" where
  "standby_inv opts env p = (p_role p = Standby \<longrightarrow>
     p_run p = run_start (o_driverName opts) (o_partitionMode opts) \<and> p_webhook p = startWebhookServer opts env)"

lemma standby_inv_step: "replica_step Y p p' \<Longrightarrow> standby_inv opts env p \<Longrightarrow> standby_inv opts env p'"
  by (erule replica_stepE) (auto simp: standby_inv_def)

interpretation standby: step_invariant "\<lambda>p. runController opts env = Some (Inr p)" "replica_step Y" "standby_inv opts env" for opts env Y
proof unfold_locales
  show "standby_inv opts env p" if "runController opts env = Some (Inr p)" for p
    using that by (auto simp: standby_inv_def runController_Inr)
qed (rule standby_inv_step)

definition healthy_inv :: "replica \<Rightarrow> bool" where
  "healthy_inv p = (h_checks (p_health p) = [(''basic'', BasicHealthCheck)] \<and> h_mux (p_health p) = h_mux (started_checker 0) \<and> st_Status (h_status (p_health p)) = statusHealthy)"

lemma healthy_inv_step: "replica_step Y p p' \<Longrightarrow> healthy_inv p \<Longrightarrow> healthy_inv p'"
  by (erule replica_stepE)
    (auto simp: healthy_inv_def performHealthChecks_def run_check_def BasicHealthCheck_def Let_def Stop_def split: option.splits)

interpretation healthy: step_invariant "\<lambda>p. runController opts env = Some (Inr p)" "replica_step Y" healthy_inv for opts env Y
proof unfold_locales
  show "healthy_inv p" if "runController opts env = Some (Inr p)" for p
    using that by (auto simp: healthy_inv_def runController_Inr started_checker_def NewChecker_def)
qed (rule healthy_inv_step)

lemma replica_invs: "replica_of Y opts env p \<Longrightarrow> standby_inv opts env p \<and> healthy_inv p"
  unfolding replica_of_def using standby.always healthy.always by blast

text \<open>Every replica, leading or not, serves its health, the metrics and nothing else.\<close>

theorem replica_endpoints:
  assumes "replica_of Y opts env p"
  shows "serve ''/healthz'' (p_health p) = HealthAnswer 200 (snapshotStatus (p_health p))
    \<and> serve ''/metrics'' (p_health p) = AddedAnswer ''metrics''
    \<and> (path \<notin> {''/healthz'', ''/metrics''} \<longrightarrow> serve path (p_health p) = NotFoundAnswer 404 (snd (handleNotFound path)))"
proof -
  from replica_invs [OF assms] have mux: "h_mux (p_health p) =
      [(''/healthz'', HealthEndpoint), (''/'', NotFoundEndpoint), (''/metrics'', Added ''metrics'')]"
    and ok: "st_Status (h_status (p_health p)) = statusHealthy"
    by (simp_all add: healthy_inv_def started_checker_def NewChecker_def DefaultHealthPath_def)
  then show ?thesis by (simp add: serve_def handleHealthCheck_def snapshotStatus_def handleNotFound_def Let_def)
qed

text \<open>The webhook on the empty model is the webhook without a model.\<close>

lemma empty_model_unsatisfiable: "\<not> IsConstraintSatisfiable NewTopologyModel attribute counts"
  by (simp add: IsConstraintSatisfiable_def NewTopologyModel_def)

lemma alignment_empty_model: "alignment_constraints (Some NewTopologyModel) = alignment_constraints None"
  by (simp add: alignment_constraints_def fun_eq_iff empty_model_unsatisfiable)

lemma expandRequest_empty_model: "expandRequest Q (Some NewTopologyModel) = expandRequest Q None"
  by (simp add: expandRequest_def expandSinglePartition_def fun_eq_iff alignment_empty_model)

lemma expandClaim_empty_model: "expandClaim Q (Some NewTopologyModel) = expandClaim Q None"
proof -
  have "expand_step Q (Some NewTopologyModel) = expand_step Q None"
    by (intro ext) (unfold expand_step_def expandRequest_empty_model, rule refl)
  then have "expand_requests Q (Some NewTopologyModel) = expand_requests Q None"
    by (intro ext) (simp add: expand_requests_def)
  then show ?thesis by (intro ext) (simp add: expandClaim_def)
qed

lemma ServeHTTP_empty_model: "ServeHTTP Q (Some NewTopologyModel) = ServeHTTP Q None"
  by (simp add: ServeHTTP_def handleAdmission_def expandClaim_empty_model fun_eq_iff split: http_body.split option.split)


definition example_environment :: environment where
  "example_environment = \<lparr> e_BuildConfig = (\<lambda>_. None), e_NewForConfig = None, e_now = 0, e_LoadX509KeyPair = (\<lambda>_ _. None),
     e_POD_NAME = ''coordinator-0'', e_Hostname = Inl ''no host name'' \<rparr>"

definition example_replica :: replica where
  "example_replica = \<lparr> p_run = run_start ''nodepartition.dra.k8s.io'' ''auto'', p_health = started_checker 0,
     p_webhook = \<lparr> ws_Port = 9443, ws_Serving = True \<rparr>, p_identity = ''coordinator-0'', p_role = Standby \<rparr>"

lemma example_replica_of: "replica_of (\<lambda>_. None) default_options example_environment example_replica"
  unfolding replica_of_def
  by (intro exI [of _ example_replica])
    (simp add: runController_Inr example_environment_def example_replica_def default_options_def election_identity_def
      startWebhookServer_def ValidPartitionMode_def)


end
