(* ===== verification/Convergence.thy ===== *)
theory Convergence
  imports Controller
begin

text \<open>
  The controller together with the cluster it writes to (\<open>Run\<close>, \<open>runWorker\<close> and \<open>reconcile\<close> of
  \<open>internal/controller/controller.go\<close>).  The steps are those of \<open>run_step\<close>, and a reconciliation
  now has its effect.  One whose inputs no event touches while it runs reads the same model and
  stores in every call and does what \<open>reconcile\<close> does; of one that overlaps with a change nothing
  is known: it may leave any cluster behind.  Nobody else writes DeviceClasses.
\<close>

section \<open>The system\<close>

text \<open>What a reconciliation reads.\<close>

definition inputs :: "Controller \<Rightarrow> TopologyModel \<times> TopologyRuleStore \<times> GroupingStore" where
  "inputs c = (c_model c, c_ruleStore c, c_groupingStore c)"

text \<open>
  \<open>y_base\<close> is the cluster at the start of the last reconciliation, \<open>y_dirty\<close> tells that the inputs
  changed since, and \<open>y_missed\<close> that they changed in the window before \<open>synced\<close> is set and nothing
  was queued.
\<close>

record 'w system =
  y_run :: run_state
  y_world :: 'w
  y_base :: 'w
  y_dirty :: bool
  y_missed :: bool

definition event_system :: "yaml_decoder \<Rightarrow> handler \<Rightarrow> informer_object \<Rightarrow> 'w system \<Rightarrow> 'w system" where
  "event_system Y h obj s =
    (let c = r_ctl (y_run s); c' = handle Y h obj c in
     s\<lparr>y_run := event_result Y h obj (y_run s), y_dirty := (y_dirty s \<or> inputs c' \<noteq> inputs c),
       y_missed := (y_missed s \<or> r_phase (y_run s) = Enqueued \<and> \<not> c_queued c' \<and> inputs c' \<noteq> inputs c)\<rparr>)"

definition released :: "run_state \<Rightarrow> run_state" where
  "released r = r\<lparr>r_busy := False\<rparr>"

definition requeued :: "run_state \<Rightarrow> run_state" where
  "requeued r = r\<lparr>r_busy := False, r_ctl := enqueue (r_ctl r)\<rparr>"

inductive system_step ::
  "yaml_decoder \<Rightarrow> quantity_lib \<Rightarrow> (nat \<Rightarrow> nat) \<Rightarrow> 'w dc_api \<Rightarrow> 'w system \<Rightarrow> 'w system \<Rightarrow> bool"
  for Y Q cap api where
  handled: "system_step Y Q cap api s (event_system Y h obj s)"
| startup: "run_step Y (y_run s) r \<Longrightarrow> r_phase r \<noteq> r_phase (y_run s) \<Longrightarrow> system_step Y Q cap api s (s\<lparr>y_run := r\<rparr>)"
| taken: "r_phase (y_run s) \<noteq> Filling \<Longrightarrow> \<not> r_busy (y_run s) \<Longrightarrow> c_queued (r_ctl (y_run s)) \<Longrightarrow>
    system_step Y Q cap api s (s\<lparr>y_run := get_result (y_run s), y_base := y_world s, y_dirty := False\<rparr>)"
| completed: "r_busy (y_run s) \<Longrightarrow> \<not> y_dirty s \<Longrightarrow> all_orders_ok ro \<Longrightarrow>
    reconcile ro Q cap api (r_ctl (y_run s)) (y_world s) = Some (Inr counts, c1, w) \<Longrightarrow>
    system_step Y Q cap api s (s\<lparr>y_run := released (y_run s), y_world := w\<rparr>)"
| erred: "r_busy (y_run s) \<Longrightarrow> \<not> y_dirty s \<Longrightarrow> all_orders_ok ro \<Longrightarrow>
    reconcile ro Q cap api (r_ctl (y_run s)) (y_world s) = Some (Inl e, c1, w) \<Longrightarrow>
    system_step Y Q cap api s (s\<lparr>y_run := requeued (y_run s), y_world := w\<rparr>)"
| overlapped: "r_busy (y_run s) \<Longrightarrow> y_dirty s \<Longrightarrow> r \<in> {released (y_run s), requeued (y_run s)} \<Longrightarrow>
    system_step Y Q cap api s (s\<lparr>y_run := r, y_world := w\<rparr>)"

inductive_cases system_stepE: "system_step Y Q cap api s s'"

definition system_start :: "string \<Rightarrow> string \<Rightarrow> 'w \<Rightarrow> 'w system" where
  "system_start driverName mode w =
     \<lparr> y_run = run_start driverName mode, y_world = w, y_base = w, y_dirty = False, y_missed = False \<rparr>"

definition system_reachable ::
  "yaml_decoder \<Rightarrow> quantity_lib \<Rightarrow> (nat \<Rightarrow> nat) \<Rightarrow> 'w dc_api \<Rightarrow> string \<Rightarrow> string \<Rightarrow> 'w \<Rightarrow> 'w system \<Rightarrow> bool" where
  "system_reachable Y Q cap api d mode w s = (system_step Y Q cap api)\<^sup>*\<^sup>* (system_start d mode w) s"

text \<open>Idle: the worker waits and nothing is queued.\<close>

definition idle :: "'w system \<Rightarrow> bool" where
  "idle s = (r_phase (y_run s) = Running \<and> \<not> r_busy (y_run s) \<and> \<not> c_queued (r_ctl (y_run s)))"

section \<open>The system refines the controller\<close>

lemma system_step_run: "system_step Y Q cap api s s' \<Longrightarrow> run_step Y (y_run s) (y_run s')"
  by (induction rule: system_step.induct)
    (auto simp: event_system_def Let_def released_def requeued_def intro: run_step.intros)

lemma system_reachable_run:
  assumes "system_reachable Y Q cap api d mode w s"
  shows "reachable Y d mode (y_run s)"
  using assms unfolding system_reachable_def
proof (induction rule: rtranclp_induct)
  case base
  show ?case by (simp add: system_start_def reachable_start)
next
  case (step s s')
  from step.IH system_step_run [OF step.hyps(2)] show ?case by (rule reachable_step)
qed

section \<open>Reconciliation reads its inputs only\<close>

lemma reconcile_partitions_cong:
  assumes "inputs c = inputs c'" and "c_driverName c = c_driverName c'" and "c_partitionMode c = c_partitionMode c'"
  shows "reconcile_partitions ro Q api c w = reconcile_partitions ro Q api c' w"
  using assms by (simp add: reconcile_partitions_def inputs_def)

lemma reconcile_groupings_cong:
  assumes "inputs c = inputs c'" and "c_driverName c = c_driverName c'" and "c_partitionMode c = c_partitionMode c'"
  shows "reconcile_groupings ro cap api c gs w = reconcile_groupings ro cap api c' gs w"
  using assms by (simp add: reconcile_groupings_def inputs_def Let_def)

definition settles ::
  "quantity_lib \<Rightarrow> (nat \<Rightarrow> nat) \<Rightarrow> 'w dc_api \<Rightarrow> Controller \<Rightarrow> 'w \<Rightarrow> 'w \<Rightarrow> bool" where
  "settles Q cap api c w w' = (\<exists>ro counts c1. all_orders_ok ro \<and> reconcile ro Q cap api c w = Some (Inr counts, c1, w'))"

lemma reconcile_world_cong:
  assumes "inputs c = inputs c'" and "c_driverName c = c_driverName c'" and "c_partitionMode c = c_partitionMode c'"
  shows "map_option (\<lambda>(r, c1, w'). (r, w')) (reconcile ro Q cap api c w) =
    map_option (\<lambda>(r, c1, w'). (r, w')) (reconcile ro Q cap api c' w)"
proof -
  have same: "inputs (rebuilt c) = inputs (rebuilt c')" "c_driverName (rebuilt c) = c_driverName (rebuilt c')"
    "c_partitionMode (rebuilt c) = c_partitionMode (rebuilt c')"
    using assms by (simp_all add: inputs_def rebuilt_def)
  have "c_groupingStore c = c_groupingStore c'" using assms(1) by (simp add: inputs_def)
  then show ?thesis unfolding reconcile_def Let_def rebuilt_def [symmetric]
      reconcile_partitions_cong [OF same] reconcile_groupings_cong [OF same]
    by (auto split: bind_splits sum.splits)
qed

lemma settles_cong:
  assumes "inputs c = inputs c'" and "c_driverName c = c_driverName c'" and "c_partitionMode c = c_partitionMode c'"
  shows "settles Q cap api c w w' = settles Q cap api c' w w'"
proof -
  have iff: "(\<exists>c1. reconcile ro Q cap api x w = Some (r, c1, w')) \<longleftrightarrow>
      map_option (\<lambda>(r, c1, w'). (r, w')) (reconcile ro Q cap api x w) = Some (r, w')" for ro x r
    by auto
  have "settles Q cap api x w w' = (\<exists>ro counts. all_orders_ok ro \<and> (\<exists>c1. reconcile ro Q cap api x w = Some (Inr counts, c1, w')))" for x
    by (auto simp: settles_def)
  then show ?thesis by (simp only: iff reconcile_world_cong [OF assms])
qed

section \<open>What holds in every state\<close>

definition same_config :: "Controller \<Rightarrow> Controller \<Rightarrow> bool" where
  "same_config c c' = (c_driverName c = c_driverName c' \<and> c_partitionMode c = c_partitionMode c')"

lemma handle_frame: "same_config (handle Y h obj c) c"
  by (cases h) (simp_all add: same_config_def handler_defs split: informer_object.splits cache_object.splits option.splits sum.splits)

lemma handle_enqueues_inputs: "c_synced c \<Longrightarrow> c_queued (handle Y h obj c) \<or> inputs (handle Y h obj c) = inputs c"
  by (cases h) (simp_all add: inputs_def handler_defs split: informer_object.splits cache_object.splits option.splits sum.splits)

text \<open>
  Past the start-up, unless a change was missed, either a reconciliation is queued, or one is
  running on the inputs of now, or the cluster is what the last one made of them.
\<close>

definition system_inv :: "quantity_lib \<Rightarrow> (nat \<Rightarrow> nat) \<Rightarrow> 'w dc_api \<Rightarrow> 'w system \<Rightarrow> bool" where
  "system_inv Q cap api s = (let r = y_run s; c = r_ctl r in
     (r_phase r = Filling \<longrightarrow> \<not> r_busy r) \<and> (r_busy r \<longrightarrow> y_world s = y_base s) \<and> (r_phase r = Running \<longrightarrow> c_synced c) \<and>
     (r_phase r \<in> {Enqueued, Running} \<and> \<not> y_missed s \<and> \<not> c_queued c \<longrightarrow>
        \<not> y_dirty s \<and> (r_busy r \<or> settles Q cap api c (y_base s) (y_world s))))"

lemma settles_steady:
  assumes "settles Q cap api c w w'" and "inputs c' = inputs c" and "same_config c' c"
  shows "settles Q cap api c' w w'"
  using assms(1,3) settles_cong [OF assms(2), of Q cap api w w'] by (simp add: same_config_def)

lemma system_inv_handled:
  assumes "system_inv Q cap api s"
  shows "system_inv Q cap api (event_system Y h obj s)"
proof -
  define r where "r = y_run s"
  define c where "c = r_ctl r"
  define c' where "c' = handle Y h obj c"
  have ev: "y_run (event_system Y h obj s) = event_result Y h obj r" "r_ctl (event_result Y h obj r) = c'"
    "r_phase (event_result Y h obj r) = r_phase r" "r_busy (event_result Y h obj r) = r_busy r"
    "y_world (event_system Y h obj s) = y_world s" "y_base (event_system Y h obj s) = y_base s"
    "y_dirty (event_system Y h obj s) \<longleftrightarrow> y_dirty s \<or> inputs c' \<noteq> inputs c"
    "y_missed (event_system Y h obj s) \<longleftrightarrow> y_missed s \<or> r_phase r = Enqueued \<and> \<not> c_queued c' \<and> inputs c' \<noteq> inputs c"
    by (simp_all add: event_system_def event_result_def Let_def r_def c_def c'_def)
  note old = assms [unfolded system_inv_def Let_def, folded r_def, folded c_def]
  have sync: "c_synced c' = c_synced c" by (simp add: c'_def)
  have same: "inputs c' = inputs c"
    if "r_phase r \<in> {Enqueued, Running}" "\<not> y_missed (event_system Y h obj s)" "\<not> c_queued c'"
    using that old handle_enqueues_inputs [of c Y h obj] by (auto simp: ev c'_def)
  have "\<not> y_dirty (event_system Y h obj s) \<and> (r_busy r \<or> settles Q cap api c' (y_base s) (y_world s))"
    if "r_phase r \<in> {Enqueued, Running}" "\<not> y_missed (event_system Y h obj s)" "\<not> c_queued c'"
  proof -
    have "\<not> c_queued c" using that(3) handle_keeps_queued [of c Y h obj] by (auto simp: c'_def)
    moreover have "\<not> y_missed s" using that(2) by (simp add: ev)
    ultimately have "\<not> y_dirty s" "r_busy r \<or> settles Q cap api c (y_base s) (y_world s)" using that(1) old by auto
    with same [OF that] show ?thesis using settles_steady [of Q cap api c _ _ c'] handle_frame [of Y h obj c] by (auto simp: ev c'_def)
  qed
  then show ?thesis using old unfolding system_inv_def Let_def ev sync by blast
qed

lemma system_inv_startup:
  assumes "system_inv Q cap api s" and "run_step Y (y_run s) r" and "r_phase r \<noteq> r_phase (y_run s)"
  shows "system_inv Q cap api (s\<lparr>y_run := r\<rparr>)"
  using assms(2)
proof (cases rule: run_step.cases)
  case (load slices cms gcms)
  with assms(1) show ?thesis by (simp add: system_inv_def Let_def)
next
  case first
  with assms(1) show ?thesis by (simp add: system_inv_def Let_def enqueue_def)
next
  case mark
  let ?c = "r_ctl (y_run s)"
  have "settles Q cap api (?c\<lparr>c_synced := True\<rparr>) w w' = settles Q cap api ?c w w'" for w w'
    by (rule settles_cong) (simp_all add: inputs_def)
  with mark assms(1) show ?thesis by (auto simp: system_inv_def Let_def)
qed (use assms(3) in \<open>simp_all add: event_result_def get_result_def Let_def\<close>)

lemma system_inv_step: "system_step Y Q cap api s s' \<Longrightarrow> system_inv Q cap api s \<Longrightarrow> system_inv Q cap api s'"
proof (induction rule: system_step.induct)
  case (completed s ro counts c1 w)
  then have "settles Q cap api (r_ctl (y_run s)) (y_base s) w" unfolding settles_def by (auto simp only: system_inv_def Let_def)
  with completed show ?case by (auto simp: system_inv_def Let_def released_def)
qed (auto simp: system_inv_handled system_inv_startup, auto simp: system_inv_def Let_def released_def requeued_def get_result_def enqueue_def)

interpretation converging: step_invariant "\<lambda>s. s = system_start d mode w" "system_step Y Q cap api" "system_inv Q cap api"
  for d mode w Y Q cap api
proof unfold_locales
  show "system_inv Q cap api s" if "s = system_start d mode w" for s
    using that by (simp add: system_inv_def system_start_def run_start_def)
qed (rule system_inv_step)

lemma system_reachable_inv: "system_reachable Y Q cap api d mode w s \<Longrightarrow> system_inv Q cap api s"
  unfolding system_reachable_def
  using converging.always [of "system_start d mode w" d mode w Y Q cap api s] by simp

section \<open>An idle controller has published what it knows\<close>

lemma settles_effect:
  assumes "api_laws api view" and "settles Q cap api c w w'"
  shows "\<exists>ro. all_orders_ok ro \<and> map_option erase \<circ> view w' = reconcile_effect ro Q cap c (view w)"
proof -
  from assms(2) obtain ro counts c1 where ro: "all_orders_ok ro" "reconcile ro Q cap api c w = Some (Inr counts, c1, w')"
    unfolding settles_def by blast
  then have "reconcile ro Q cap api c w \<noteq> None" by (simp only: option.distinct not_False_eq_True)
  from reconcile_has_effect [OF assms(1) ro(1) this] ro show ?thesis by auto
qed

lemma idle_settled:
  assumes "system_reachable Y Q cap api d mode w s" and "idle s" and "\<not> y_missed s"
  shows "settles Q cap api (r_ctl (y_run s)) (y_base s) (y_world s)"
  using system_reachable_inv [OF assms(1)] assms(2,3) by (simp add: system_inv_def idle_def Let_def)


section \<open>The controller becomes idle\<close>

lemma SetRules_SetRules: "SetRules rs (SetRules rs m) = SetRules rs m"
proof -
  have clean: "(SetRules rs m)\<lparr>tm_rules := rs, tm_nodes := []\<rparr> = m\<lparr>tm_rules := rs, tm_nodes := []\<rparr>"
    by (rule TopologyModel.equality) simp_all
  have replay: "SetRules rs m = foldl (\<lambda>m' entry. applySliceDataLocked (snd entry) m') (m\<lparr>tm_rules := rs, tm_nodes := []\<rparr>) (tm_rawSlices m)" for m
    by (simp add: SetRules_def reextractAllLocked_def)
  show ?thesis unfolding replay [of "SetRules rs m"] clean SetRules_frame replay [of m, symmetric] ..
qed

lemma rebuilt_taken: "inputs (rebuilt (r_ctl (get_result r))) = inputs (rebuilt (r_ctl r))"
  by (simp add: rebuilt_def get_result_def Let_def inputs_def SetRules_SetRules)

lemma taken_config: "same_config (r_ctl (get_result r)) (r_ctl r)"
  by (simp add: same_config_def get_result_def Let_def)

lemma merged_cong:
  "inputs (rebuilt c) = inputs (rebuilt c') \<Longrightarrow> merged_groupings order (rebuilt c) = merged_groupings order (rebuilt c')"
  by (simp add: merged_groupings_def inputs_def)

lemma effect_cong:
  assumes "inputs (rebuilt c) = inputs (rebuilt c')" and "same_config c c'"
  shows "reconcile_effect ro Q cap c v = reconcile_effect ro Q cap c' v"
proof -
  have "c_driverName (rebuilt c) = c_driverName (rebuilt c')" "c_partitionMode (rebuilt c) = c_partitionMode (rebuilt c')"
    using assms(2) by (simp_all add: same_config_def rebuilt_def)
  then have "partition_effect ro Q (rebuilt c) v = partition_effect ro Q (rebuilt c') v"
    "grouping_effect ro cap (rebuilt c) v = grouping_effect ro cap (rebuilt c') v" for ro v
    using assms(1) by (simp_all add: partition_effect_def grouping_effect_def merged_groupings_def inputs_def)
  then show ?thesis by (simp only: reconcile_effect_def)
qed

text \<open>A reconciliation that runs can end, and leaves the controller as it is.\<close>

lemma can_release:
  assumes "api_laws api view" and "cap_law cap"
    and "list_all distinct_classes (merged_groupings insertion_order (rebuilt (r_ctl (y_run s))))"
  shows "\<exists>w. (system_step Y Q cap api)\<^sup>*\<^sup>* s (s\<lparr>y_run := released (y_run s), y_world := w\<rparr>)"
proof (cases "r_busy (y_run s)")
  case False
  then have "s\<lparr>y_run := released (y_run s), y_world := y_world s\<rparr> = s" by (simp add: released_def)
  then show ?thesis by (metis rtranclp.rtrancl_refl)
next
  case True
  show ?thesis
  proof (cases "y_dirty s")
    case True
    with \<open>r_busy (y_run s)\<close> show ?thesis by (blast intro: r_into_rtranclp system_step.overlapped)
  next
    case False
    let ?ro = "\<lambda>_. insertion_order"
    have "reconcile ?ro Q cap api (r_ctl (y_run s)) (y_world s) \<noteq> None"
      by (rule reconcile_returns [OF insertion_orders_ok assms(2,3)])
    then obtain counts w where "reconcile ?ro Q cap api (r_ctl (y_run s)) (y_world s) = Some (Inr counts, rebuilt (r_ctl (y_run s)), w)"
      using reconcile_has_effect [OF assms(1) insertion_orders_ok] by metis
    from system_step.completed [OF \<open>r_busy (y_run s)\<close> False insertion_orders_ok this]
    show ?thesis by (blast intro: r_into_rtranclp)
  qed
qed

lemma can_become_idle:
  assumes "api_laws api view" and "cap_law cap" and "r_phase (y_run s) = Running"
    and "list_all distinct_classes (merged_groupings insertion_order (rebuilt (r_ctl (y_run s))))"
  shows "\<exists>s'. (system_step Y Q cap api)\<^sup>*\<^sup>* s s' \<and> idle s' \<and> y_missed s' = y_missed s
    \<and> inputs (rebuilt (r_ctl (y_run s'))) = inputs (rebuilt (r_ctl (y_run s))) \<and> same_config (r_ctl (y_run s')) (r_ctl (y_run s))"
proof -
  obtain w1 s1 where s1: "(system_step Y Q cap api)\<^sup>*\<^sup>* s s1" and s1_def: "s1 = s\<lparr>y_run := released (y_run s), y_world := w1\<rparr>"
    using can_release [OF assms(1,2,4)] by blast
  have c1: "r_ctl (y_run s1) = r_ctl (y_run s)" "\<not> r_busy (y_run s1)" "r_phase (y_run s1) = Running" "y_missed s1 = y_missed s"
    using assms(3) by (simp_all add: s1_def released_def)
  show ?thesis
  proof (cases "c_queued (r_ctl (y_run s))")
    case False
    with c1 have "idle s1" by (simp add: idle_def)
    with s1 c1 show ?thesis by (intro exI [of _ s1]) (simp add: same_config_def)
  next
    case True
    define s2 where "s2 = s1\<lparr>y_run := get_result (y_run s1), y_base := y_world s1, y_dirty := False\<rparr>"
    have "system_step Y Q cap api s1 s2" unfolding s2_def
      by (rule system_step.taken) (use c1 True in simp_all)
    with s1 have s2: "(system_step Y Q cap api)\<^sup>*\<^sup>* s s2" by (rule rtranclp.rtrancl_into_rtrancl)
    have c2: "inputs (rebuilt (r_ctl (y_run s2))) = inputs (rebuilt (r_ctl (y_run s)))" "same_config (r_ctl (y_run s2)) (r_ctl (y_run s))"
      using rebuilt_taken [of "y_run s1"] taken_config [of "y_run s1"] c1 by (simp_all add: s2_def)
    have q2: "y_missed s2 = y_missed s" "\<not> c_queued (r_ctl (y_run s2))" "r_phase (y_run s2) = Running"
      using c1 by (simp_all add: s2_def get_result_def Let_def)
    obtain w3 s3 where s3: "(system_step Y Q cap api)\<^sup>*\<^sup>* s2 s3" and s3_def: "s3 = s2\<lparr>y_run := released (y_run s2), y_world := w3\<rparr>"
      using can_release [OF assms(1,2), of s2] assms(4) unfolding merged_cong [OF c2(1)] by blast
    have "(system_step Y Q cap api)\<^sup>*\<^sup>* s s3" using s2 s3 by (rule rtranclp_trans)
    moreover have "r_ctl (y_run s3) = r_ctl (y_run s2)" "idle s3" "y_missed s3 = y_missed s"
      using q2 by (simp_all add: s3_def released_def idle_def)
    ultimately show ?thesis using c2 by (intro exI [of _ s3]) simp
  qed
qed

lemma system_reachable_trans:
  "system_reachable Y Q cap api d mode w s \<Longrightarrow> (system_step Y Q cap api)\<^sup>*\<^sup>* s s' \<Longrightarrow> system_reachable Y Q cap api d mode w s'"
  unfolding system_reachable_def by (rule rtranclp_trans)


section \<open>A run\<close>

text \<open>A controller that starts with the slice of a node with three GPUs, up to the end of its start-up.\<close>

definition example_up :: "run_state" where
  "example_up = (run_start '''' '''')\<lparr>r_phase := Running,
     r_ctl := (enqueue (load_stores (\<lambda>_. None) [SliceObject example_gpus] [] [] (NewController '''' '''')))\<lparr>c_synced := True\<rparr>\<rparr>"

definition example_system :: "DeviceClass list system" where
  "example_system = (system_start '''' '''' [])\<lparr>y_run := example_up\<rparr>"

lemma example_system_reachable: "system_reachable (\<lambda>_. None) decimal_lib (\<lambda>n. n) mem_api '''' '''' [] example_system"
proof -
  let ?step = "system_step (\<lambda>_. None) decimal_lib (\<lambda>n. n) mem_api" and ?s0 = "system_start '''' '''' [] :: DeviceClass list system"
  let ?c1 = "load_stores (\<lambda>_. None) [SliceObject example_gpus] [] [] (NewController '''' '''')"
  let ?r0 = "run_start '''' ''''"
  let ?r1 = "?r0\<lparr>r_phase := Working, r_ctl := ?c1\<rparr>"
  let ?r2 = "?r1\<lparr>r_phase := Enqueued, r_ctl := enqueue ?c1\<rparr>"
  have r0: "r_phase ?r0 = Filling" "r_ctl ?r0 = NewController '''' ''''" by (simp_all add: run_start_def)
  have "run_step (\<lambda>_. None) ?r0 ?r1" using run_step.load [OF r0(1)] unfolding r0(2) .
  then have "?step ?s0 (?s0\<lparr>y_run := ?r1\<rparr>)"
    by (intro system_step.startup) (simp_all add: system_start_def r0)
  moreover have "run_step (\<lambda>_. None) ?r1 ?r2" using run_step.first [of ?r1] by simp
  then have "?step (?s0\<lparr>y_run := ?r1\<rparr>) ((?s0\<lparr>y_run := ?r1\<rparr>)\<lparr>y_run := ?r2\<rparr>)"
    by (intro system_step.startup) simp_all
  moreover have "run_step (\<lambda>_. None) ?r2 example_up" using run_step.mark [of ?r2] by (simp add: example_up_def)
  then have "?step (?s0\<lparr>y_run := ?r2\<rparr>) ((?s0\<lparr>y_run := ?r2\<rparr>)\<lparr>y_run := example_up\<rparr>)"
    by (intro system_step.startup) (simp_all add: example_up_def)
  ultimately show ?thesis unfolding system_reachable_def example_system_def
    by simp
qed

lemma example_up_distinct: "list_all distinct_classes (merged_groupings insertion_order (rebuilt (r_ctl example_up)))"
  by code_simp


lemma example_idle:
  "\<exists>s. system_reachable (\<lambda>_. None) decimal_lib (\<lambda>n. n) mem_api '''' '''' [] s \<and> idle s \<and> \<not> y_missed s
    \<and> inputs (rebuilt (r_ctl (y_run s))) = inputs (rebuilt (r_ctl example_up))"
proof -
  have up: "r_phase (y_run example_system) = Running" "\<not> y_missed example_system" "y_run example_system = example_up"
    by (simp_all add: example_system_def system_start_def example_up_def)
  obtain s where s: "(system_step (\<lambda>_. None) decimal_lib (\<lambda>n. n) mem_api)\<^sup>*\<^sup>* example_system s" "idle s" "\<not> y_missed s"
    "inputs (rebuilt (r_ctl (y_run s))) = inputs (rebuilt (r_ctl example_up))"
    using can_become_idle [OF mem_api_laws _ up(1), of "\<lambda>n. n" "\<lambda>_. None" decimal_lib] example_up_distinct up(2,3)
    by (auto simp: cap_law_def)
  with system_reachable_trans [OF example_system_reachable s(1)] show ?thesis by blast
qed


end
