(* ===== verification/Ownership.thy ===== *)
theory Ownership
  imports Controller
begin

text \<open>
  Which DeviceClasses a reconciliation (\<open>internal/controller/controller.go\<close>,
  \<open>deviceclass_manager.go\<close>) may touch, whatever calls of the API fail: it replaces objects of the
  names it publishes and removes objects that carry its own labels; every other object stays.
\<close>

section \<open>The classes of the coordinator\<close>

definition owned :: "DeviceClass \<Rightarrow> bool" where
  "owned dc = (managed_with ''partitionType'' dc \<or> managed_with ''grouping'' dc)"

lemma owned_erase [simp]: "owned (erase dc) = owned dc"
  by (simp add: owned_def managed_with_def erase_def)

text \<open>The classes a reconciliation plans to publish, in order: those of the two halves.\<close>

definition partition_plan :: "(nat \<Rightarrow> range_order) \<Rightarrow> quantity_lib \<Rightarrow> Controller \<Rightarrow> DeviceClass list" where
  "partition_plan ro Q c =
    (if c_partitionMode c = PartitionModeGroupings then []
     else case Option.bind (BuildPartitions Q (c_model c) (c_ruleStore c))
           (planned ro (NewDeviceClassManager (c_driverName c)) (c_ruleStore c)) of
         Some (classes, active) \<Rightarrow> classes | None \<Rightarrow> [])"

definition grouping_plan :: "(nat \<Rightarrow> range_order) \<Rightarrow> (nat \<Rightarrow> nat) \<Rightarrow> Controller \<Rightarrow> DeviceClass list" where
  "grouping_plan ro cap c =
    (if c_partitionMode c = PartitionModePartitions \<or> merged_groupings (ro 3) c = [] then []
     else case BuildGroupings cap (c_model c) (c_ruleStore c) (merged_groupings (ro 3) c) of
         Some results \<Rightarrow> grouping_planned ro (NewDeviceClassManager (c_driverName c)) (c_ruleStore c) results | None \<Rightarrow> [])"

definition reconcile_plan ::
  "(nat \<Rightarrow> range_order) \<Rightarrow> quantity_lib \<Rightarrow> (nat \<Rightarrow> nat) \<Rightarrow> Controller \<Rightarrow> DeviceClass list" where
  "reconcile_plan ro Q cap c = partition_plan ro Q (rebuilt c) @ grouping_plan (\<lambda>i. ro (5 + i)) cap (rebuilt c)"

lemma partition_labels:
  "managed_with ''partitionType'' (buildDeviceClassFromCache d profile ty p cfg coupling n)
   \<and> \<not> managed_with ''grouping'' (buildDeviceClassFromCache d profile ty p cfg coupling n)"
  by (simp add: managed_with_def buildDeviceClassFromCache_def Let_def put_def)

lemma planned_labels:
  assumes "planned ro d rules results = Some (classes, active)" and "all_orders_ok ro" and "dc \<in> set classes"
  shows "managed_with ''partitionType'' dc \<and> \<not> managed_with ''grouping'' dc"
  using assms
proof (cases rule: planned_cases)
  case (part rails k pp)
  then show ?thesis using partition_labels
    by (auto simp: partition_class_def Let_def managed_with_def split: option.splits)
next
  case (agg seen ak pp)
  then show ?thesis using partition_labels by (auto simp: aggregate_class_def managed_with_def)
next
  case (tier seen ak pp t)
  then show ?thesis using partition_labels by (auto simp: tier_class_def Let_def managed_with_def)
qed

lemma grouping_labels: "managed_with ''grouping'' (buildGroupingDeviceClass d key rep cfg n)"
  by (simp add: managed_with_def buildGroupingDeviceClass_def Let_def put_def)

lemma grouping_planned_labels:
  assumes "dc \<in> set (grouping_planned ro d rules results)"
  shows "managed_with ''grouping'' dc"
  using assms grouping_labels
  by (auto simp: grouping_planned_def Let_def instance_class_def grouping_aggregate_class_def managed_with_def)

section \<open>What a reconciliation may touch\<close>

text \<open>Each object is as before, or a planned class of its name, or gone and was the coordinator's.\<close>

definition within :: "DeviceClass list \<Rightarrow> cluster \<Rightarrow> cluster \<Rightarrow> bool" where
  "within classes v v' = (\<forall>n. map_option erase (v' n) = map_option erase (v n) \<or>
     (\<exists>dc \<in> set classes. dc_Name dc = n \<and> map_option erase (v' n) = Some (erase dc)) \<or>
     v' n = None \<and> (\<exists>dc. v n = Some dc \<and> owned dc))"

lemma within_refl [simp]: "within classes v v"
  by (simp add: within_def)

lemma within_mono: "within classes v v' \<Longrightarrow> set classes \<subseteq> set classes' \<Longrightarrow> within classes' v v'"
  unfolding within_def by blast

lemma contained_within:
  assumes "contained classes name live v v'" and "name \<in> {''partitionType'', ''grouping''}"
  shows "within classes v v'"
  using assms unfolding contained_def within_def owned_def by blast

lemma reconcile_partitions_within:
  assumes "api_safe api view" and "all_orders_ok ro" and "reconcile_partitions ro Q api c w = Some (r, w')"
  shows "within (partition_plan ro Q c) (view w) (view w')"
    and "\<And>dc. dc \<in> set (partition_plan ro Q c) \<Longrightarrow> managed_with ''partitionType'' dc \<and> \<not> managed_with ''grouping'' dc"
proof -
  let ?d = "NewDeviceClassManager (c_driverName c)"
  have "within (partition_plan ro Q c) (view w) (view w') \<and>
    (\<forall>dc \<in> set (partition_plan ro Q c). managed_with ''partitionType'' dc \<and> \<not> managed_with ''grouping'' dc)"
  proof (cases "c_partitionMode c = PartitionModeGroupings")
    case True
    with assms(3) show ?thesis by (simp add: reconcile_partitions_def partition_plan_def)
  next
    case False
    obtain results classes active where r: "BuildPartitions Q (c_model c) (c_ruleStore c) = Some results"
      and p: "planned ro ?d (c_ruleStore c) results = Some (classes, active)"
      using sync_run [OF assms(2)] by metis
    have plan: "partition_plan ro Q c = classes" using False r p by (simp add: partition_plan_def)
    obtain e where sync: "SyncDeviceClasses ro api ?d (c_ruleStore c) results w = Some (e, w')"
      using assms(3) False r by (auto simp: reconcile_partitions_def Option.bind_eq_Some_conv split: option.splits prod.splits)
    have "within classes (view w) (view w')"
      using sync_contained(1) [OF assms(1,2) BuildPartitions_rooted [OF r] p sync] by (rule contained_within) simp
    with plan planned_labels [OF p assms(2)] show ?thesis by blast
  qed
  then show "within (partition_plan ro Q c) (view w) (view w')"
    "\<And>dc. dc \<in> set (partition_plan ro Q c) \<Longrightarrow> managed_with ''partitionType'' dc \<and> \<not> managed_with ''grouping'' dc" by blast+
qed

text \<open>The grouping half, whose clean-up looks at grouping classes only.\<close>

lemma reconcile_groupings_contained:
  assumes "api_safe api view" and "all_orders_ok ro"
    and "reconcile_groupings ro cap api c (GetGroupings (c_groupingStore c)) w = Some (r, w')"
  shows "\<exists>live. contained (grouping_plan ro cap c) ''grouping'' live (view w) (view w')"
proof (cases "c_partitionMode c = PartitionModePartitions \<or> merged_groupings (ro 3) c = []")
  case True
  with assms(3) have "w' = w" by (auto simp: reconcile_groupings_def merged_groupings_def Let_def split: if_splits)
  then show ?thesis by (simp add: contained_def)
next
  case False
  let ?d = "NewDeviceClassManager (c_driverName c)"
  obtain results where r: "BuildGroupings cap (c_model c) (c_ruleStore c) (merged_groupings (ro 3) c) = Some results"
    using assms(3) False by (auto simp: reconcile_groupings_def merged_groupings_def Let_def split: bind_splits)
  have plan: "grouping_plan ro cap c = grouping_planned ro ?d (c_ruleStore c) results" using False r by (simp add: grouping_plan_def)
  obtain e where "SyncGroupingDeviceClasses ro api ?d (c_ruleStore c) results w = (e, w')"
    using assms(3) False r by (auto simp: reconcile_groupings_def merged_groupings_def Let_def split: option.splits prod.splits)
  from sync_groupings_contained [OF assms(1,2) this] show ?thesis unfolding plan by blast
qed

text \<open>Both halves after one another: the second does not remove what the first has published.\<close>

lemma within_then_contained:
  assumes "within ps v v1" and "contained gs ''grouping'' live v1 v2"
    and "\<And>dc. dc \<in> set ps \<Longrightarrow> \<not> managed_with ''grouping'' dc"
  shows "within (ps @ gs) v v2"
  unfolding within_def
proof
  fix n
  let ?same = "\<lambda>u u' :: cluster. map_option erase (u' n) = map_option erase (u n)"
  have owner: "owned dc0" if "?same v v1" "v1 n = Some dc" "owned dc" "v n = Some dc0" for dc dc0
    using that by (metis (no_types, lifting) option.map(2) option.inject owned_erase)
  from assms(2) consider (same) "?same v1 v2"
    | (new) dc where "dc \<in> set gs" "dc_Name dc = n" "map_option erase (v2 n) = Some (erase dc)"
    | (gone) dc where "v2 n = None" "v1 n = Some dc" "managed_with ''grouping'' dc"
    unfolding contained_def by blast
  then show "?same v v2 \<or> (\<exists>dc \<in> set (ps @ gs). dc_Name dc = n \<and> map_option erase (v2 n) = Some (erase dc)) \<or>
      v2 n = None \<and> (\<exists>dc. v n = Some dc \<and> owned dc)"
  proof cases
    case same
    then show ?thesis using assms(1) unfolding within_def by (metis (no_types, lifting) Un_iff option.map_disc_iff set_append)
  next
    case new
    then show ?thesis by auto
  next
    case gone
    have own: "owned dc" using gone(3) by (simp add: owned_def)
    from assms(1) consider (same) "?same v v1" | (pub) c where "c \<in> set ps" "map_option erase (v1 n) = Some (erase c)"
      using gone(2) unfolding within_def by (metis option.distinct(1))
    then show ?thesis
    proof cases
      case same
      then obtain dc0 where "v n = Some dc0" using gone(2) by (cases "v n") auto
      with owner [OF same gone(2) own] gone(1) show ?thesis by blast
    next
      case pub
      with gone(2) have "erase dc = erase c" by simp
      with gone(3) assms(3) [OF pub(1)] show ?thesis by (metis managed_with_erase)
    qed
  qed
qed

text \<open>
  C5: whatever calls of the API fail, with or without effect, and however the reconciliation ends, it
  touches nothing that is not its own: each DeviceClass of the cluster is as before (up to its
  resource version), or is a planned class of its name, or is gone and carried the labels of the
  coordinator.  Everything that is planned carries these labels.
\<close>

theorem reconcile_spares_foreign:
  assumes "api_safe api view" and "all_orders_ok ro" and "reconcile ro Q cap api c w = Some (r, c1, w')"
  shows "within (reconcile_plan ro Q cap c) (view w) (view w') \<and> list_all owned (reconcile_plan ro Q cap c)"
proof -
  let ?ro = "\<lambda>i. ro (5 + i)"
  have ok: "all_orders_ok ?ro" using assms(2) by (simp add: all_orders_ok_def)
  have gs: "GetGroupings (c_groupingStore (rebuilt c)) = GetGroupings (c_groupingStore c)" by (simp add: rebuilt_def)
  obtain p w1 where p: "reconcile_partitions ro Q api (rebuilt c) w = Some (p, w1)"
    using assms(3) unfolding reconcile_def Let_def rebuilt_def [symmetric] by (auto split: bind_splits)
  note part = reconcile_partitions_within [OF assms(1,2) p]
  have "within (reconcile_plan ro Q cap c) (view w) (view w')"
  proof (cases p)
    case (Inl e)
    with assms(3) p have "w' = w1" unfolding reconcile_def Let_def rebuilt_def [symmetric] by auto
    with part(1) show ?thesis by (auto simp: reconcile_plan_def intro: within_mono)
  next
    case (Inr counts)
    then obtain g where "reconcile_groupings ?ro cap api (rebuilt c) (GetGroupings (c_groupingStore (rebuilt c))) w1 = Some (g, w')"
      using assms(3) p unfolding gs reconcile_def Let_def rebuilt_def [symmetric]
      by (cases counts) (auto split: bind_splits sum.splits)
    from reconcile_groupings_contained [OF assms(1) ok this] obtain live where
      "contained (grouping_plan ?ro cap (rebuilt c)) ''grouping'' live (view w1) (view w')" by blast
    from within_then_contained [OF part(1) this] part(2) show ?thesis unfolding reconcile_plan_def by blast
  qed
  moreover have "owned dc" if "dc \<in> set (grouping_plan ?ro cap (rebuilt c))" for dc
    using that grouping_planned_labels by (auto simp: grouping_plan_def owned_def split: if_splits option.splits)
  ultimately show ?thesis using part(2) by (auto simp: list_all_iff reconcile_plan_def owned_def)
qed

section \<open>An example\<close>

text \<open>A controller that knows one node with three GPUs, and a DeviceClass that an administrator made.\<close>

definition gpu_controller :: Controller where
  "gpu_controller = (NewController '''' '''')\<lparr>c_model := model_run [SliceUpserted (Some example_gpus)]\<rparr>"

definition admin_class :: "string \<Rightarrow> DeviceClass" where
  "admin_class name = \<lparr> dc_Name = name, dc_Labels = [], dc_ResourceVersion = ''7'',
     dc_Selectors = [''device.driver == x''], dc_Config = [] \<rparr>"

theorem reconcile_spares_foreign_witness:
  "\<exists>r c1 w'. reconcile (\<lambda>_. insertion_order) decimal_lib (\<lambda>n. n) full_api gpu_controller [admin_class ''mine''] = Some (r, c1, w')
     \<and> within (reconcile_plan (\<lambda>_. insertion_order) decimal_lib (\<lambda>n. n) gpu_controller)
         (mem_view [admin_class ''mine'']) (mem_view w')"
proof -
  have "list_all distinct_classes (merged_groupings insertion_order (rebuilt gpu_controller))" by code_simp
  from reconcile_returns [OF insertion_orders_ok _ this] obtain r c1 w' where
    "reconcile (\<lambda>_. insertion_order) decimal_lib (\<lambda>n. n) full_api gpu_controller [admin_class ''mine''] = Some (r, c1, w')"
    by (fastforce simp: cap_law_def)
  with reconcile_spares_foreign [OF full_api_safe insertion_orders_ok this] show ?thesis by blast
qed

text \<open>
  An object of a planned name is replaced even when it is not the coordinator's:
  \<open>publishDeviceClass\<close> does not look at the labels of what it finds.  The class \<open>full\<close> of an
  administrator becomes the coordinator's, with other selectors.
\<close>

theorem foreign_class_overwritten:
  "\<not> owned (admin_class ''full'') \<and>
   (case reconcile (\<lambda>_. insertion_order) decimal_lib (\<lambda>n. n) mem_api gpu_controller [admin_class ''full''] of
      Some (Inr counts, c1, w') \<Rightarrow> (case mem_view w' ''full'' of
          Some dc \<Rightarrow> owned dc \<and> dc_Selectors dc \<noteq> dc_Selectors (admin_class ''full'') | None \<Rightarrow> False)
    | _ \<Rightarrow> False)"
  by code_simp

end
