(* ===== verification/Publication.thy ===== *)
theory Publication
  imports Convergence Ownership
begin

text \<open>
  The classes of the controller (\<open>internal/controller\<close>) as the webhook (\<open>internal/webhook\<close>) sees
  them: every planned class carries a configuration, a successful reconciliation leaves the last
  planned class of each name in the cluster, and the webhook reads its configuration there.
\<close>

section \<open>What a class carries\<close>

text \<open>The DeviceClass reader of the webhook on a cluster.\<close>

definition read_class :: "cluster \<Rightarrow> string \<Rightarrow> api_error + DeviceClass" where
  "read_class v name = (case v name of None \<Rightarrow> Inl NotFound | Some dc \<Rightarrow> Inr dc)"

definition carries :: "string \<Rightarrow> PartitionConfig \<Rightarrow> DeviceClass \<Rightarrow> bool" where
  "carries driverName cfg dc = (pc_Kind cfg = ''PartitionConfig'' \<and>
     dc_Config dc = [Some \<lparr> oc_Driver = driverName, oc_Raw = marshal_config cfg \<rparr>])"

lemma class_config: "dc_Config (buildDeviceClassFromCache d profile ty p cfg coupling n) =
    [Some \<lparr> oc_Driver = d, oc_Raw = marshal_config cfg \<rparr>]"
  by (simp add: buildDeviceClassFromCache_def Let_def)

lemma partition_config_kind: "pc_Kind (fst (buildPartitionConfig rules p)) = ''PartitionConfig''"
  by (simp add: buildPartitionConfig_def Let_def)

lemma aggregate_config_kind: "pc_Kind (fst (buildPartitionAggregateConfig rules p)) = ''PartitionConfig''"
  by (simp add: buildPartitionAggregateConfig_def Let_def)

lemma aggregates_kind:
  assumes "(ak, agg) \<in> set (collect_aggregates rules seen)"
  shows "pc_Kind (pp_cachedConfig agg) = ''PartitionConfig''"
  using assms by (auto simp: collect_aggregates_def aggregate_of_def Let_def aggregate_config_kind)

lemma planned_carries:
  assumes "planned ro d rules results = Some (classes, active)" and "all_orders_ok ro" and "dc \<in> set classes"
  shows "\<exists>cfg. carries d cfg dc"
  using assms
proof (cases rule: planned_cases)
  case (part rails k pp)
  from part(1) have "pc_Kind (pp_cachedConfig pp) = ''PartitionConfig''"
    by (elim collect_seen_mem) (simp add: offer_entry_def partition_config_kind)
  then show ?thesis using part(2)
    by (intro exI [of _ "pp_cachedConfig pp"]) (simp add: carries_def partition_class_def Let_def class_config split: option.splits)
next
  case (agg seen ak pp)
  then show ?thesis using aggregates_kind
    by (intro exI [of _ "pp_cachedConfig pp"]) (auto simp: carries_def aggregate_class_def class_config)
next
  case (tier seen ak pp t)
  then show ?thesis using aggregates_kind
    by (intro exI [of _ "pp_cachedConfig pp"]) (auto simp: carries_def tier_class_def Let_def class_config)
qed

lemma overwrite_last:
  assumes "map_of (rev (map (\<lambda>dc. (dc_Name dc, dc)) classes)) (dc_Name dc) = Some dc"
    and "map_option erase \<circ> v' = overwrite (rev classes) v"
  shows "\<exists>dc'. v' (dc_Name dc) = Some dc' \<and> dc_Config dc' = dc_Config dc"
proof -
  have "map_option erase (v' (dc_Name dc)) = Some (erase dc)"
    using fun_cong [OF assms(2), of "dc_Name dc"] assms(1) by (simp add: overwrite_def map_add_def rev_map)
  then obtain dc' where dc': "v' (dc_Name dc) = Some dc'" "erase dc' = erase dc" by auto
  from dc'(2) have "dc_Config (erase dc') = dc_Config (erase dc)" by simp
  with dc'(1) show ?thesis by (simp add: erase_def)
qed


text \<open>The classes of groupings, instances and aggregates.\<close>

definition kinded :: "(string, groupingEntry) gomap \<Rightarrow> bool" where
  "kinded m = (\<forall>e \<in> snd ` set m. pc_Kind (ge_config e) = ''PartitionConfig'')"

lemma kinded_put: "kinded m \<Longrightarrow> pc_Kind (ge_config e) = ''PartitionConfig'' \<Longrightarrow> kinded (put k e m)"
  unfolding kinded_def put_def by (induction m) auto

lemma kinded_lookup: "kinded m \<Longrightarrow> map_of m k = Some e \<Longrightarrow> pc_Kind (ge_config e) = ''PartitionConfig''"
  unfolding kinded_def using map_of_SomeD by force

lemma collect_groupings_kinded: "kinded (collect_groupings rules results)"
  unfolding collect_groupings_def
  by (intro foldl_keeps [where P = kinded])
    (auto simp: add_grouping_def Let_def buildGroupingConfig_def buildGroupingConfigInternal_def kinded_def [of "[]"]
      intro!: kinded_put dest: kinded_lookup split: option.splits)

lemma grouping_aggregates_kinded: "kinded (foldl (add_grouping_aggregate rules) [] kes)"
  by (intro foldl_keeps [where P = kinded])
    (auto simp: add_grouping_aggregate_def Let_def buildGroupingAggregateConfig_def buildGroupingConfigInternal_def kinded_def [of "[]"]
      intro!: kinded_put dest: kinded_lookup split: option.splits)

lemma grouping_carries:
  assumes "dc \<in> set (grouping_planned ro d rules results)" and "all_orders_ok ro"
  shows "\<exists>cfg. carries d cfg dc"
proof -
  have ok: "set (visit (ro i) xs) = set xs" for i and xs :: "'z list" using assms(2) by (simp add: set_visit all_orders_okD)
  from assms(1) obtain e where e: "e \<in> snd ` set (collect_groupings rules results) \<or>
      e \<in> snd ` set (foldl (add_grouping_aggregate rules) [] (visit (ro 1) (collect_groupings rules results)))"
    "dc_Config dc = [Some \<lparr> oc_Driver = d, oc_Raw = marshal_config (ge_config e) \<rparr>]"
    by (force simp: grouping_planned_def Let_def ok instance_class_def grouping_aggregate_class_def buildGroupingDeviceClass_def)
  from e(1) have "pc_Kind (ge_config e) = ''PartitionConfig''"
    using collect_groupings_kinded grouping_aggregates_kinded unfolding kinded_def by blast
  with e(2) show ?thesis by (auto simp: carries_def)
qed

section \<open>The plan is in the cluster\<close>

lemma partition_plan_planned:
  assumes "partition_plan ro Q c \<noteq> []"
  shows "\<exists>results active. BuildPartitions Q (c_model c) (c_ruleStore c) = Some results
    \<and> planned ro (NewDeviceClassManager (c_driverName c)) (c_ruleStore c) results = Some (partition_plan ro Q c, active)
    \<and> c_partitionMode c \<noteq> PartitionModeGroupings"
  using assms by (auto simp: partition_plan_def split: if_splits option.splits bind_splits)

lemma grouping_plan_planned:
  assumes "grouping_plan ro cap c \<noteq> []"
  shows "\<exists>results. BuildGroupings cap (c_model c) (c_ruleStore c) (merged_groupings (ro 3) c) = Some results
    \<and> grouping_plan ro cap c = grouping_planned ro (NewDeviceClassManager (c_driverName c)) (c_ruleStore c) results
    \<and> \<not> (c_partitionMode c = PartitionModePartitions \<or> merged_groupings (ro 3) c = [])"
  using assms by (auto simp: grouping_plan_def split: if_splits option.splits)

lemma plan_carries:
  assumes "all_orders_ok ro" and "dc \<in> set (reconcile_plan ro Q cap c)"
  shows "\<exists>cfg. carries (NewDeviceClassManager (c_driverName c)) cfg dc"
proof -
  have ok: "all_orders_ok (\<lambda>i. ro (5 + i))" using assms(1) by (simp add: all_orders_ok_def)
  have d: "c_driverName (rebuilt c) = c_driverName c" by (simp add: rebuilt_def)
  from assms(2) consider "dc \<in> set (partition_plan ro Q (rebuilt c))" | "dc \<in> set (grouping_plan (\<lambda>i. ro (5 + i)) cap (rebuilt c))"
    by (auto simp: reconcile_plan_def)
  then show ?thesis
  proof cases
    case 1
    then have "partition_plan ro Q (rebuilt c) \<noteq> []" by auto
    from partition_plan_planned [OF this] 1 show ?thesis using planned_carries [OF _ assms(1)] unfolding d by blast
  next
    case 2
    then have "grouping_plan (\<lambda>i. ro (5 + i)) cap (rebuilt c) \<noteq> []" by auto
    from grouping_plan_planned [OF this] 2 show ?thesis using grouping_carries [OF _ ok] unfolding d by auto
  qed
qed

abbreviation last_of :: "DeviceClass list \<Rightarrow> string \<Rightarrow> DeviceClass option" where
  "last_of classes \<equiv> map_of (rev (map (\<lambda>dc. (dc_Name dc, dc)) classes))"

lemma overwrite_rev: "overwrite (rev classes) v n = map_option erase (case last_of classes n of Some dc \<Rightarrow> Some dc | None \<Rightarrow> v n)"
  by (simp add: overwrite_def map_add_def rev_map)

lemma last_of_Some: "last_of classes n = Some dc \<Longrightarrow> dc \<in> set classes \<and> dc_Name dc = n"
  by (auto dest: map_of_SomeD)

lemma partition_effect_planned:
  assumes "last_of (partition_plan ro Q c) n = Some dc"
  shows "partition_effect ro Q c v n = Some (erase dc)"
proof -
  have "partition_plan ro Q c \<noteq> []" using assms by auto
  from partition_plan_planned [OF this] assms show ?thesis by (auto simp: partition_effect_def overwrite_rev)
qed

lemma grouping_effect_planned:
  assumes "last_of (grouping_plan ro cap c) n = Some dc"
  shows "grouping_effect ro cap c v n = Some (erase dc)"
proof -
  have "grouping_plan ro cap c \<noteq> []" using assms by auto
  from grouping_plan_planned [OF this] assms show ?thesis by (auto simp: grouping_effect_def overwrite_rev Let_def)
qed

text \<open>The grouping half leaves a class without a grouping label as the partition half left it.\<close>

lemma grouping_effect_spares:
  assumes "v n = Some dc" and "\<not> managed_with ''grouping'' dc" and "last_of (grouping_plan ro cap c) n = None"
    and "BuildGroupings cap (c_model c) (c_ruleStore c) (merged_groupings (ro 3) c) \<noteq> None \<or>
      c_partitionMode c = PartitionModePartitions \<or> merged_groupings (ro 3) c = []"
  shows "map_option erase (grouping_effect ro cap c v n) = Some (erase dc)"
  using assms by (auto simp: grouping_plan_def grouping_effect_def overwrite_rev prune_def Let_def erase_def split: if_splits option.splits)

lemma groupings_built:
  assumes "reconcile ro Q cap api c w = Some (Inr counts, c1, w')"
  shows "BuildGroupings cap (c_model (rebuilt c)) (c_ruleStore (rebuilt c)) (merged_groupings (ro 8) (rebuilt c)) \<noteq> None \<or>
    c_partitionMode (rebuilt c) = PartitionModePartitions \<or> merged_groupings (ro 8) (rebuilt c) = []"
proof -
  have gs: "c_groupingStore (rebuilt c) = c_groupingStore c" by (simp add: rebuilt_def)
  obtain w1 g where "reconcile_groupings (\<lambda>i. ro (5 + i)) cap api (rebuilt c) (GetGroupings (c_groupingStore (rebuilt c))) w1 = Some g"
    using assms unfolding gs reconcile_def Let_def rebuilt_def [symmetric] by (fastforce split: bind_splits sum.splits)
  then show ?thesis by (auto simp: reconcile_groupings_def merged_groupings_def Let_def split: if_splits bind_splits)
qed

lemma effect_planned:
  assumes "all_orders_ok ro" and "reconcile ro Q cap api c w = Some (Inr counts, c1, w')"
    and "last_of (reconcile_plan ro Q cap c) n = Some dc"
  shows "reconcile_effect ro Q cap c v n = Some (erase dc)"
proof -
  let ?ro = "\<lambda>i. ro (5 + i)" and ?c = "rebuilt c"
  have last: "last_of (reconcile_plan ro Q cap c) n =
      (case last_of (grouping_plan ?ro cap ?c) n of Some dc \<Rightarrow> Some dc | None \<Rightarrow> last_of (partition_plan ro Q ?c) n)"
    by (simp add: reconcile_plan_def map_add_def)
  show ?thesis
  proof (cases "last_of (grouping_plan ?ro cap ?c) n")
    case (Some dc')
    with last assms(3) grouping_effect_planned [OF Some] show ?thesis by (simp add: reconcile_effect_def)
  next
    case None
    then have p: "last_of (partition_plan ro Q ?c) n = Some dc" using last assms(3) by simp
    then have "partition_plan ro Q ?c \<noteq> []" by auto
    from partition_plan_planned [OF this] obtain results active where
      "planned ro (NewDeviceClassManager (c_driverName ?c)) (c_ruleStore ?c) results = Some (partition_plan ro Q ?c, active)" by blast
    from planned_labels [OF this assms(1)] last_of_Some [OF p] have "\<not> managed_with ''grouping'' (erase dc)" by simp
    from grouping_effect_spares [where v = "partition_effect ro Q ?c v" and ro = ?ro, OF partition_effect_planned [OF p] this None]
      groupings_built [OF assms(2)] show ?thesis by (simp add: reconcile_effect_def)
  qed
qed

section \<open>The webhook reads the plan\<close>

lemma webhook_reads:
  assumes "carries CoordinatorDriverName cfg dc" and "wf_config cfg" and "map_option erase (v n) = Some (erase dc)"
  shows "getPartitionConfig (read_class v) n = Inr (Some (canonical cfg))"
proof -
  obtain dc' where dc': "v n = Some dc'" "erase dc' = erase dc" using assms(3) by auto
  from dc'(2) have "dc_Config (erase dc') = dc_Config (erase dc)" by simp
  then have "dc_Config dc' = dc_Config dc" by (simp add: erase_def)
  with dc'(1) assms(1) unmarshal_marshal_config [OF assms(2)] show ?thesis
    by (simp add: getPartitionConfig_def read_class_def carries_def config_of_entry_def CoordinatorDriverName_def canonical_def)
qed

text \<open>The driver name and the mode of a controller are those it was made with.\<close>

lemma run_step_config: "run_step Y r r' \<Longrightarrow> same_config (r_ctl r) c \<Longrightarrow> same_config (r_ctl r') c"
proof (induction rule: run_step.induct)
  case (event s h obj)
  then show ?case using handle_frame [of Y h obj "r_ctl s"] by (simp add: same_config_def event_result_def Let_def)
qed (simp_all add: same_config_def load_stores_def enqueue_def get_result_def Let_def)

interpretation configured: step_invariant "\<lambda>r. r = run_start d mode" "run_step Y" "\<lambda>r. same_config (r_ctl r) (NewController d mode)"
  for d mode Y
proof unfold_locales
  show "same_config (r_ctl r) (NewController d mode)" if "r = run_start d mode" for r
    using that by (simp add: run_start_def same_config_def)
qed (rule run_step_config)

lemma system_driverName:
  assumes "system_reachable Y Q cap api d mode w s" and "d \<in> {'''', CoordinatorDriverName}"
  shows "NewDeviceClassManager (c_driverName (r_ctl (y_run s))) = CoordinatorDriverName"
proof -
  have "same_config (r_ctl (y_run s)) (NewController d mode)"
    using system_reachable_run [OF assms(1)] configured.always unfolding reachable_def by blast
  with assms(2) show ?thesis by (auto simp: same_config_def NewController_def NewDeviceClassManager_def)
qed

end
