(* ===== verification/Spec2Isabelle.thy ===== *)
theory Spec2Isabelle
  imports Coordinator Publication
begin

text \<open>
  Verification of the DRA topology coordinator (\<open>k8s-dra-topology-coordinator\<close>).

  \<^bold>\<open>The program.\<close>  DRA drivers publish their devices as ResourceSlices.  The coordinator's
  controller watches all of them, extracts where each device sits (NUMA node, socket, PCIe root)
  into a topology model, and on every change computes, per node, the partitions and groupings of
  aligned devices, which it publishes as DeviceClasses that carry an opaque configuration.  A user
  claims one device of such a class; the mutating webhook replaces this request by the
  sub-requests and alignment constraints of the configuration, and rewrites the Pods and virtual
  machines that refer to it.  Administrators steer both with ConfigMaps: topology rules and device
  groupings.  Every replica serves the webhook, the elected one runs the controller.

  \<^bold>\<open>The theories\<close>, in import order, with the source they model (under \<open>src/\<close>; the controller
  files are in \<open>internal/controller\<close>):

  \<^item> \<open>Go_Prelude\<close>, \<open>Go_Strings\<close>: Go maps as association lists with distinct keys, loops that fill
    them, the orders in which a \<open>range\<close> loop can visit them, slices, truncating division, the
    string functions in use; the locales \<open>bucketing\<close> (a loop that groups by a key) and
    \<open>step_invariant\<close> (an invariant of a step relation).
  \<^item> \<open>Sha256\<close>, \<open>Names\<close>: the name functions of \<open>deviceclass_manager.go\<close>, \<open>grouping_builder.go\<close> and
    \<open>webhook.go\<close>.  SHA-256 is computed on 32-bit words.  The locale \<open>dns_sanitizer\<close> states what a
    sanitizer promises; names are valid DNS labels of bounded length, and the loop that collapses
    dashes ends.
  \<^item> \<open>Kube_Api\<close>: the Kubernetes objects and the locale \<open>config_store\<close>, the contract of a store that
    is loaded from ConfigMaps: a refinement of a partial function from keys to the last accepted
    value.  \<open>Topology_Rules\<close> (\<open>topology_rules.go\<close>) and \<open>Grouping_Store\<close> (\<open>grouping.go\<close>) interpret
    it: parsing accepts exactly the valid ConfigMaps and the stores hold well-formed values only.
  \<^item> \<open>Topology_Model\<close> (\<open>topology_model.go\<close>): extraction of device topology, the incremental updates
    of the model, satisfiability of preferred constraints.  The model is a function of the live
    slices and the rules, and well-formed after any events; the extraction prefers strong sources in
    every iteration order.
  \<^item> \<open>Counter_Groups\<close> (\<open>counter_groups.go\<close>): devices that share counters of one physical resource.
    Grouping is a partition of the devices, filtering keeps one device per resource; the counter
    totals wrap as \<open>int64\<close> does.
  \<^item> \<open>Partition_Builder\<close> (\<open>partition_builder.go\<close>): the partitions of a node, the capacity shares of
    devices that several PCIe roots use, the pairings of drivers.  Shares never exceed the device,
    partitions are homogeneous and lose no device, pairings are complete and unique.
  \<^item> \<open>Grouping_Builder\<close> (\<open>grouping_builder.go\<close>): instances of administrator-defined groupings; they
    hold the requested devices, aligned, and share none.
  \<^item> \<open>Json\<close>, \<open>Device_Config\<close> (\<open>deviceclass_manager.go\<close>): JSON values as \<open>encoding/json\<close> decodes them
    into structures, and the configuration of a class.
  \<^item> \<open>Json_Text\<close>: the bytes that \<open>json.Marshal\<close> writes and \<open>json.Unmarshal\<close> reads, with all escapes.
    Every value is read back from its text, so the configuration that the controller writes into a
    class is the one the webhook reads, up to key order.
  \<^item> \<open>Model_Partitions\<close>: what the classes rely on of the partitions of a reachable model.
  \<^item> \<open>Device_Class\<close>, \<open>Class_Sync\<close>, \<open>Sync_Errors\<close> (\<open>deviceclass_manager.go\<close>): the classes of
    partitions, aggregates, tiers and groupings, their publication and clean-up.  An aggregate is
    the intersection of the partitions it stands for; what was just published is never cleaned up;
    a synchronisation refines one atomic update of the cluster (\<open>overwrite\<close> after \<open>prune\<close>); one
    whose API calls fail does no harm, and the next one repairs it.
  \<^item> \<open>Claim_Expander\<close>, \<open>Admission\<close> (\<open>internal/webhook/webhook.go\<close>): expansion of claims, Pods,
    virtual machines, routing and the HTTP handler.  The patches apply in order and give the
    expanded claim, nothing dangles, expansion is idempotent, references follow the expansion, the
    webhook never denies.
  \<^item> \<open>Controller\<close> (\<open>controller.go\<close>): handlers, reconciliation, start-up and worker as the step
    relation \<open>run_step\<close>.  No change is forgotten once the controller runs, the worker catches up, the
    stores stay well-formed, and a reconciliation refines a function of slices, rules, groupings
    and the cluster before.
  \<^item> \<open>Convergence\<close>: the controller together with the cluster, as the step relation \<open>system_step\<close>,
    which refines \<open>run_step\<close>.  Whenever the controller is idle the cluster is what a reconciliation
    of the present slices, rules and groupings makes of it, and it always can become idle.
  \<^item> \<open>Ownership\<close>: what a reconciliation may touch when any call of the API can fail: planned names and
    objects with its own labels.  An object of a planned name is replaced whoever made it.
  \<^item> \<open>Publication\<close>: every planned class, of partitions and of groupings, carries a configuration, and
    after a reconciliation the last planned class of each name is the one in the cluster.
  \<^item> \<open>Metrics\<close> (\<open>internal/metrics/metrics.go\<close> and the metrics of \<open>reconcile\<close>): the collectors, their
    registration, and a reconciliation that keeps them; it is the reconciliation without them.
  \<^item> \<open>Health\<close> (\<open>internal/health/health.go\<close>): checks, ticks and the request multiplexer; the
    health endpoint reports the registered checks.
  \<^item> \<open>Coordinator\<close> (\<open>cmd/nodepartition-controller/main.go\<close>): flags, set-up of a replica, its
    life under leader election as the step relation \<open>replica_step\<close>, and the exit status.
  \<^item> This theory: whenever the controller is idle, the classes that the present slices, rules and
    groupings call for are the ones the webhook expands.

  \<^bold>\<open>Conventions.\<close>  Structs are records whose fields carry a short prefix, methods are functions of
  the record, errors are \<open>Inl\<close> values and a panic is \<open>None\<close>.  A method that holds the lock of its
  store is one step.  A \<open>range\<close> over a Go map that is an input visits the association list in its
  order, and the input is any list; two loops over one input inside one operation see one order,
  where Go may take two (this shows only for rules that contradict each other).  Where a map is built and then visited inside one operation and
  the order can be seen from outside (publication, rail indices, aggregates, tiers, merged
  groupings), the operation takes the order of each loop as an argument \<open>ro\<close>, any permutation
  (\<open>all_orders_ok\<close>); the other maps inside an operation are visited in insertion order, which is one
  of the orders that Go allows: the code sorts their keys first, or only counts and collects with
  them, so that another order shows only where keys collide (split groups whose joined keys are
  equal, pairings whose sanitised names are).  Integers are \<open>int\<close> where the code cannot leave the
  range of \<open>int64\<close>, and wrap where it can.  Loops are
  recursion over lists, or have a termination proof of their own; only the reader of JSON values has
  a bound on its depth, the length of the text, which is enough for every text that \<open>Marshal\<close> writes.

  \<^bold>\<open>Parameters.\<close>  Code outside the repository is an argument.  The quantity library
  (\<open>quantity_lib\<close>, with \<open>quantity_laws\<close>), the YAML decoder, the capacity that \<open>append\<close> gives a slice
  (\<open>cap\<close>, which is never below the length), the DeviceClass client (a record over a world \<open>'w\<close>, with
  \<open>api_laws\<close>: no call fails and nobody else writes, or the weaker \<open>api_safe\<close>: any call may fail, with
  or without effect, but touches nothing else), the reads of the webhook (functions, as one
  review sees them), and the environment of a replica.  \<open>mem_api\<close> and \<open>decimal_lib\<close> instantiate the
  laws in the witnesses.

  \<^bold>\<open>Not modelled.\<close>  Log output, the buckets of the histogram and the exposition format of the
  metrics; the text form of YAML, of the admission reviews and of the objects in them (which are given
  by what decoding makes of them), fractions in JSON numbers, and bytes that are not UTF-8; informers, their resync and the delays of the
  rate-limited work queue, which is the flag that a reconciliation is pending (handlers run at any time, in any
  order and on any object); the HTTP servers, TLS, flag parsing, signals and timeouts; the lease
  protocol, of which a replica only sees that it is elected and that it has to stop; writes by
  other clients while a synchronisation runs.
\<close>

section \<open>From the controller to the webhook\<close>



text \<open>
  The whole way on one node with three GPUs: extraction, partitions, publication, the text in the
  cluster with its escapes, and the configuration that the webhook reads under \<open>full\<close>.
\<close>

theorem full_class_read:
  "(case reconcile (\<lambda>_. insertion_order) decimal_lib (\<lambda>n. n) mem_api gpu_controller [] of
      Some (Inr counts, c1, w') \<Rightarrow> (case getPartitionConfig (read_class (mem_view w')) ''full'' of
          Inr (Some cfg) \<Rightarrow> map (\<lambda>sr. (sr_DeviceClass sr, sr_Count sr)) (pc_SubResources cfg) = [(''gpu'', 3)] | _ \<Rightarrow> False)
    | _ \<Rightarrow> False)"
  by code_simp

text \<open>
  What the controller publishes the webhook expands.  After a synchronisation of the partitions
  of any model, under the default driver name and with an API that keeps its contract, the webhook
  finds under the name of each published class (the last one of that name) a partition
  configuration, the one the controller computed for the class.
\<close>

theorem published_classes_expandable:
  assumes "api_laws api view" and "all_orders_ok ro"
  shows "\<exists>results classes active w'. BuildPartitions Q model rules = Some results
    \<and> planned ro CoordinatorDriverName rules results = Some (classes, active)
    \<and> SyncDeviceClasses ro api CoordinatorDriverName rules results w = Some (None, w')
    \<and> (\<forall>dc. map_of (rev (map (\<lambda>dc. (dc_Name dc, dc)) classes)) (dc_Name dc) = Some dc \<longrightarrow>
        (\<exists>cfg. carries CoordinatorDriverName cfg dc \<and>
          (wf_config cfg \<longrightarrow> getPartitionConfig (read_class (view w')) (dc_Name dc) = Inr (Some (canonical cfg)))))"
proof -
  obtain results classes active w' where r: "BuildPartitions Q model rules = Some results"
    "planned ro CoordinatorDriverName rules results = Some (classes, active)"
    "SyncDeviceClasses ro api CoordinatorDriverName rules results w = Some (None, w')"
    and v: "map_option erase \<circ> view w' = overwrite (rev classes)
        (prune ''partitionType'' (\<lambda>dc. label_key (dc_Labels dc) \<in> set active) (view w))"
    using sync_partitions [OF assms] by blast
  have "\<exists>cfg. carries CoordinatorDriverName cfg dc \<and>
      (wf_config cfg \<longrightarrow> getPartitionConfig (read_class (view w')) (dc_Name dc) = Inr (Some (canonical cfg)))"
    if last: "map_of (rev (map (\<lambda>dc. (dc_Name dc, dc)) classes)) (dc_Name dc) = Some dc" for dc
  proof -
    have "dc \<in> set classes" using map_of_SomeD [OF last] by auto
    then obtain cfg where cfg: "carries CoordinatorDriverName cfg dc" using planned_carries [OF r(2) assms(2)] by blast
    obtain dc' where dc': "view w' (dc_Name dc) = Some dc'" "dc_Config dc' = dc_Config dc" using overwrite_last [OF last v] by blast
    have "getPartitionConfig (read_class (view w')) (dc_Name dc) = Inr (Some (canonical cfg))" if "wf_config cfg"
      using unmarshal_marshal_config [OF that] cfg dc'
      by (simp add: getPartitionConfig_def read_class_def carries_def config_of_entry_def CoordinatorDriverName_def canonical_def)
    with cfg show ?thesis by blast
  qed
  with r show ?thesis by blast
qed

theorem published_classes_expandable_witness:
  "\<exists>results classes active w'. BuildPartitions decimal_lib example_model NewTopologyRuleStore = Some results
    \<and> planned (\<lambda>_. insertion_order) CoordinatorDriverName NewTopologyRuleStore results = Some (classes, active)
    \<and> SyncDeviceClasses (\<lambda>_. insertion_order) mem_api CoordinatorDriverName NewTopologyRuleStore results [] = Some (None, w')"
  using published_classes_expandable [OF mem_api_laws insertion_orders_ok, of decimal_lib example_model NewTopologyRuleStore "[]"] by blast

end
